(* ===== verification/Prelude.thy ===== *)
theory Prelude
  imports Main
begin

text \<open>
  Shared vocabulary of the development: fact collections, the result type of the
  handlers, mutexes, hash maps as association lists, and the reachability scheme that
  every state machine of the program instantiates.

  A Rust \<open>HashMap\<close> is an association list with distinct keys. The order of the list stands for
  the iteration order, which the standard library leaves unspecified; results are stated
  over every list order, and the step relations that need it have a step that permutes.
\<close>

named_theorems handler_simps \<open>unfolding rules of the request handlers\<close>
named_theorems hmap_simps \<open>lookup and domain rules of the hash-map operations\<close>
named_theorems inv_intros \<open>preservation facts of component invariants\<close>

section \<open>Instants\<close>

text \<open>
  A \<open>SystemTime\<close> is its distance from the Unix epoch in nanoseconds, which may be negative;
  a \<open>Duration\<close> is a number of nanoseconds.
\<close>

type_synonym time = int

definition from_secs :: "int \<Rightarrow> time" where
  "from_secs s = s * 1000000000"

section \<open>Outcomes of fallible code\<close>

text \<open>
  \<open>Ok\<close> and \<open>Err\<close> are the two values of a Rust \<open>Result\<close>; \<open>Panic\<close> is an unwinding or
  aborting panic (\<open>lock().unwrap()\<close> on a poisoned mutex).
\<close>

datatype ('e, 'a) outcome = Ok 'a | Err 'e | Panic

text \<open>
  A program that passes a state: \<open>bind\<close> continues after \<open>Ok\<close> and is the \<open>?\<close> operator (or
  the unwinding of a panic) otherwise.
\<close>

type_synonym ('s, 'e, 'a) prog = "'s \<Rightarrow> ('e, 'a) outcome \<times> 's"

definition ret :: "'a \<Rightarrow> ('s, 'e, 'a) prog" where
  "ret x s = (Ok x, s)"

definition throw :: "'e \<Rightarrow> ('s, 'e, 'a) prog" where
  "throw e s = (Err e, s)"

definition bind :: "('s, 'e, 'a) prog \<Rightarrow> ('a \<Rightarrow> ('s, 'e, 'b) prog) \<Rightarrow> ('s, 'e, 'b) prog" where
  "bind m k s =
     (case m s of
        (Ok x, s') \<Rightarrow> k x s'
      | (Err e, s') \<Rightarrow> (Err e, s')
      | (Panic, s') \<Rightarrow> (Panic, s'))"

lemma bind_Ok_iff: "bind m k s = (Ok y, t) \<longleftrightarrow> (\<exists>x s'. m s = (Ok x, s') \<and> k x s' = (Ok y, t))"
  by (auto simp: bind_def split: prod.splits outcome.splits)

lemma bind_ret [simp]: "bind (ret x) k = k x"
  by (rule ext) (simp add: bind_def ret_def)

lemma bind_throw [simp]: "bind (throw e) k = throw e"
  by (rule ext) (simp add: bind_def throw_def)

lemma bind_assoc: "bind (bind m k) h = bind m (\<lambda>x. bind (k x) h)"
  by (rule ext) (auto simp: bind_def split: prod.split outcome.split)

text \<open>
  Triples: from a state with \<open>P\<close>, a normal end has \<open>Q\<close> of the value and the state, an early
  return or a panic leaves a state with \<open>E\<close>. \<open>keeps P\<close> says that \<open>P\<close> is kept on every path.
\<close>

definition triple ::
  "('s \<Rightarrow> bool) \<Rightarrow> ('s, 'e, 'a) prog \<Rightarrow> ('a \<Rightarrow> 's \<Rightarrow> bool) \<Rightarrow> ('s \<Rightarrow> bool) \<Rightarrow> bool" where
  "triple P m Q E \<longleftrightarrow> (\<forall>s. P s \<longrightarrow> (case m s of (Ok x, t) \<Rightarrow> Q x t | (_, t) \<Rightarrow> E t))"

abbreviation keeps :: "('s \<Rightarrow> bool) \<Rightarrow> ('s, 'e, 'a) prog \<Rightarrow> bool" where
  "keeps P m \<equiv> triple P m (\<lambda>_. P) P"

lemma tripleI:
  "(\<And>s r t. P s \<Longrightarrow> m s = (r, t) \<Longrightarrow> case r of Ok x \<Rightarrow> Q x t | _ \<Rightarrow> E t) \<Longrightarrow> triple P m Q E"
  by (fastforce simp: triple_def split: prod.splits outcome.splits)

lemma keepsI: "(\<And>s r t. P s \<Longrightarrow> m s = (r, t) \<Longrightarrow> P t) \<Longrightarrow> keeps P m"
  by (rule tripleI) (auto split: outcome.split)

lemma tripleD: "triple P m Q E \<Longrightarrow> P s \<Longrightarrow> m s = (r, t) \<Longrightarrow> case r of Ok x \<Rightarrow> Q x t | _ \<Rightarrow> E t"
  by (fastforce simp: triple_def split: prod.splits outcome.splits)

lemma keepsD: "keeps P m \<Longrightarrow> P s \<Longrightarrow> m s = (r, t) \<Longrightarrow> P t"
  by (drule (2) tripleD) (auto split: outcome.splits)

lemma triple_ret: "(\<And>s. P s \<Longrightarrow> Q x s) \<Longrightarrow> triple P (ret x) Q E"
  by (simp add: triple_def ret_def)

lemma triple_throw: "(\<And>s. P s \<Longrightarrow> E s) \<Longrightarrow> triple P (throw e) Q E"
  by (simp add: triple_def throw_def)

lemma triple_bind: "triple P m Q E \<Longrightarrow> (\<And>x. triple (Q x) (k x) R E) \<Longrightarrow> triple P (bind m k) R E"
  by (fastforce simp: triple_def bind_def split: prod.splits outcome.splits)

lemma triple_weaken:
  "triple P m Q E \<Longrightarrow> (\<And>s. P' s \<Longrightarrow> P s) \<Longrightarrow> (\<And>x s. Q x s \<Longrightarrow> Q' x s) \<Longrightarrow> (\<And>s. E s \<Longrightarrow> E' s) \<Longrightarrow>
   triple P' m Q' E'"
  by (fastforce simp: triple_def split: prod.splits outcome.splits)

lemma triple_pure: "(\<And>s. snd (m s) = s) \<Longrightarrow> keeps P m"
  by (rule keepsI) (metis snd_conv)

section \<open>Mutexes\<close>

text \<open>
  \<open>std::sync::Mutex\<close>: the protected value and the poison flag. \<open>lock\<close> is the \<open>Result\<close> of
  \<open>Mutex::lock\<close>, with \<open>None\<close> for the poison error.
\<close>

datatype 'a mutex = Mutex (poisoned: bool) (inner: 'a)

definition new_mutex :: "'a \<Rightarrow> 'a mutex" where
  "new_mutex x = Mutex False x"

definition lock :: "'a mutex \<Rightarrow> 'a option" where
  "lock m = (if poisoned m then None else Some (inner m))"

definition put :: "'a \<Rightarrow> 'a mutex \<Rightarrow> 'a mutex" where
  "put x m = Mutex (poisoned m) x"

lemma inner_new [simp]: "inner (new_mutex x) = x" "\<not> poisoned (new_mutex x)"
  by (simp_all add: new_mutex_def)

lemma put_inner [simp]: "put (inner m) m = m"
  by (cases m) (simp add: put_def)

lemma put_put [simp]: "put x (put y m) = put x m"
  by (simp add: put_def)

lemma lock_new [simp]: "lock (new_mutex x) = Some x"
  by (simp add: lock_def new_mutex_def)

lemma inner_put [simp]: "inner (put x m) = x"
  by (simp add: put_def)

lemma poisoned_put [simp]: "poisoned (put x m) = poisoned m"
  by (simp add: put_def)

lemma lock_clean [simp]: "\<not> poisoned m \<Longrightarrow> lock m = Some (inner m)"
  by (simp add: lock_def)

lemma lock_poisoned [simp]: "poisoned m \<Longrightarrow> lock m = None"
  by (simp add: lock_def)

lemma lock_put [simp]: "lock (put x m) = (if poisoned m then None else Some x)"
  by (simp add: lock_def)

lemma lock_SomeD: "lock m = Some x \<Longrightarrow> \<not> poisoned m \<and> x = inner m"
  by (simp add: lock_def split: if_splits)

text \<open>\<open>m.lock().unwrap()\<close> on a mutex of the state, with the program that runs under the guard.\<close>

definition with_lock :: "('s \<Rightarrow> 'x mutex) \<Rightarrow> ('x \<Rightarrow> ('s, 'e, 'a) prog) \<Rightarrow> ('s, 'e, 'a) prog" where
  "with_lock sel k s = (case lock (sel s) of None \<Rightarrow> (Panic, s) | Some x \<Rightarrow> k x s)"

lemma with_lock_clean [simp]: "\<not> poisoned (sel s) \<Longrightarrow> with_lock sel k s = k (inner (sel s)) s"
  by (simp add: with_lock_def)

lemma with_lock_Ok_iff:
  "with_lock sel k s = (Ok y, t) \<longleftrightarrow> \<not> poisoned (sel s) \<and> k (inner (sel s)) s = (Ok y, t)"
  by (simp add: with_lock_def lock_def)

lemma triple_with_lock:
  "(\<And>s. P s \<Longrightarrow> E s) \<Longrightarrow>
   (\<And>s r t. P s \<Longrightarrow> \<not> poisoned (sel s) \<Longrightarrow> k (inner (sel s)) s = (r, t) \<Longrightarrow>
      case r of Ok x \<Rightarrow> Q x t | _ \<Rightarrow> E t) \<Longrightarrow>
   triple P (with_lock sel k) Q E"
  by (rule tripleI) (auto simp: with_lock_def lock_def split: if_splits)

lemma keeps_with_lock:
  "(\<And>s r t. P s \<Longrightarrow> \<not> poisoned (sel s) \<Longrightarrow> k (inner (sel s)) s = (r, t) \<Longrightarrow> P t) \<Longrightarrow>
   keeps P (with_lock sel k)"
  by (rule keepsI) (auto simp: with_lock_def lock_def split: if_splits)

section \<open>Hash maps\<close>

type_synonym 'v hmap = "(string \<times> 'v) list"

definition hget :: "'v hmap \<Rightarrow> string \<Rightarrow> 'v option" where
  "hget m k = map_of m k"

definition hremove :: "string \<Rightarrow> 'v hmap \<Rightarrow> 'v hmap" where
  "hremove k m = filter (\<lambda>e. fst e \<noteq> k) m"

definition hinsert :: "string \<Rightarrow> 'v \<Rightarrow> 'v hmap \<Rightarrow> 'v hmap" where
  "hinsert k v m = (k, v) # hremove k m"

definition hretain :: "('v \<Rightarrow> bool) \<Rightarrow> 'v hmap \<Rightarrow> 'v hmap" where
  "hretain p m = filter (\<lambda>e. p (snd e)) m"

abbreviation hkeys :: "'v hmap \<Rightarrow> string list" where
  "hkeys m \<equiv> map fst m"

definition wf_hmap :: "'v hmap \<Rightarrow> bool" where
  "wf_hmap m = distinct (hkeys m)"

lemma wf_hmap_Nil [simp, inv_intros]: "wf_hmap []"
  by (simp add: wf_hmap_def)

lemma distinct_keys_filter: "distinct (map fst m) \<Longrightarrow> distinct (map fst (filter p m))"
  by (induction m) auto

lemma wf_hretain [simp, inv_intros]: "wf_hmap m \<Longrightarrow> wf_hmap (hretain p m)"
  by (simp add: wf_hmap_def hretain_def distinct_keys_filter)

lemma wf_hremove [simp, inv_intros]: "wf_hmap m \<Longrightarrow> wf_hmap (hremove k m)"
  by (simp add: wf_hmap_def hremove_def distinct_keys_filter)

lemma wf_hinsert [simp, inv_intros]: "wf_hmap m \<Longrightarrow> wf_hmap (hinsert k v m)"
  by (simp add: wf_hmap_def hinsert_def hremove_def distinct_keys_filter) auto

lemma hget_Nil [simp]: "hget [] k = None"
  by (simp add: hget_def)

lemma hget_hremove [hmap_simps]: "hget (hremove k m) k' = (if k' = k then None else hget m k')"
  by (induction m) (auto simp: hget_def hremove_def)

lemma hget_hinsert [hmap_simps]:
  "hget (hinsert k v m) k' = (if k' = k then Some v else hget m k')"
  using hget_hremove [of k m k'] by (simp add: hinsert_def hget_def)

lemma hget_in_set: "wf_hmap m \<Longrightarrow> hget m k = Some v \<longleftrightarrow> (k, v) \<in> set m"
  by (simp add: wf_hmap_def hget_def)

lemma hget_SomeD: "hget m k = Some v \<Longrightarrow> (k, v) \<in> set m"
  by (simp add: hget_def map_of_SomeD)

lemma hget_hretain [hmap_simps]:
  "wf_hmap m \<Longrightarrow>
   hget (hretain p m) k = (case hget m k of None \<Rightarrow> None | Some v \<Rightarrow> if p v then Some v else None)"
proof (induction m)
  case Nil
  then show ?case by (simp add: hretain_def)
next
  case (Cons e m)
  have "hget (hretain p m) k = None" if "k \<notin> fst ` set m"
    using that by (auto simp: hget_def hretain_def map_of_eq_None_iff)
  with Cons show ?case
    by (auto simp: wf_hmap_def hget_def hretain_def split: option.splits)
qed

lemma hget_None_iff: "hget m k = None \<longleftrightarrow> k \<notin> set (hkeys m)"
  by (simp add: hget_def map_of_eq_None_iff)

lemma length_hremove_le: "length (hremove k m) \<le> length m"
  by (simp add: hremove_def)

lemma length_hremove_less: "k \<in> set (hkeys m) \<Longrightarrow> length (hremove k m) < length m"
  unfolding hremove_def by (auto intro: length_filter_less)

lemma length_hremove_wf:
  "wf_hmap m \<Longrightarrow> k \<in> set (hkeys m) \<Longrightarrow> Suc (length (hremove k m)) = length m"
proof (induction m)
  case Nil
  then show ?case by simp
next
  case (Cons e m)
  have "hremove k m = m" if "k \<notin> set (hkeys m)"
    using that by (auto simp: hremove_def filter_id_conv)
  with Cons show ?case
    by (auto simp: wf_hmap_def hremove_def)
qed

lemma length_hretain_le: "length (hretain p m) \<le> length m"
  by (simp add: hretain_def)

lemma hget_subset:
  "wf_hmap m \<Longrightarrow> set m' \<subseteq> set m \<Longrightarrow> hget m' k = Some v \<Longrightarrow> hget m k = Some v"
  by (auto dest!: hget_SomeD simp: hget_in_set)

section \<open>Minimum by a key\<close>

text \<open>\<open>Iterator::min_by_key\<close>: the first of the elements with the least key.\<close>

fun min_by_key :: "('a \<Rightarrow> 'b::linorder) \<Rightarrow> 'a list \<Rightarrow> 'a option" where
  "min_by_key f [] = None"
| "min_by_key f (x # xs) =
     (case min_by_key f xs of
        None \<Rightarrow> Some x
      | Some y \<Rightarrow> Some (if f x \<le> f y then x else y))"

lemma min_by_key_None [simp]: "min_by_key f xs = None \<longleftrightarrow> xs = []"
  by (cases xs) (auto split: option.splits)

lemma min_by_key_SomeD:
  "min_by_key f xs = Some x \<Longrightarrow> x \<in> set xs \<and> (\<forall>y\<in>set xs. f x \<le> f y)"
  by (induction xs arbitrary: x) (fastforce split: option.splits if_splits)+

section \<open>Reachable states\<close>

text \<open>
  States reachable from an initial state by a step relation, and the interface between a
  machine and its invariant: the provider shows the two laws, the client gets the
  invariant of every reachable state.
\<close>

inductive reachable :: "('s \<Rightarrow> bool) \<Rightarrow> ('s \<Rightarrow> 's \<Rightarrow> bool) \<Rightarrow> 's \<Rightarrow> bool"
  for init :: "'s \<Rightarrow> bool" and step :: "'s \<Rightarrow> 's \<Rightarrow> bool" where
  reachable_init: "init s \<Longrightarrow> reachable init step s"
| reachable_step: "reachable init step s \<Longrightarrow> step s t \<Longrightarrow> reachable init step t"

locale invariant_of =
  fixes init :: "'s \<Rightarrow> bool" and step :: "'s \<Rightarrow> 's \<Rightarrow> bool" and inv :: "'s \<Rightarrow> bool"
  assumes inv_init: "init s \<Longrightarrow> inv s"
    and inv_step: "step s t \<Longrightarrow> inv s \<Longrightarrow> inv t"
begin

lemma inv_reachable: "reachable init step s \<Longrightarrow> inv s"
  by (induction rule: reachable.induct) (auto intro: inv_init inv_step)

end

end
