(* ===== verification/Expiring_Map.thy ===== *)
theory Expiring_Map
  imports Prelude
begin

text \<open>
  The capped maps of \<open>src/src/auth.rs\<close>: \<open>insert_capped\<close>, used for the two ceremony maps, and
  the insertion of \<open>new_session\<close> into the session map. Both drop expired entries first and
  then evict the entry that expires soonest. The locale \<open>expiring_map\<close> states what the
  handlers rely on; its lemmas bound the map, and say when an entry survives later
  insertions and when a flood of them evicts it.
\<close>

definition MAX_CEREMONIES :: nat where
  "MAX_CEREMONIES = 1024"

definition MAX_SESSIONS :: nat where
  "MAX_SESSIONS = 1024"

definition oldest :: "('v \<Rightarrow> time) \<Rightarrow> 'v hmap \<Rightarrow> string option" where
  "oldest exp_of m = map_option fst (min_by_key (\<lambda>e. exp_of (snd e)) m)"

lemma oldest_in_keys: "oldest exp_of m = Some k \<Longrightarrow> k \<in> set (hkeys m)"
  by (force simp: oldest_def dest: min_by_key_SomeD)

lemma oldest_None [simp]: "oldest exp_of m = None \<longleftrightarrow> m = []"
  by (simp add: oldest_def)

lemma oldest_Nil [simp]: "oldest exp_of [] = None"
  by simp

lemma oldest_least:
  assumes "oldest exp_of m = Some k" and "wf_hmap m" and "(k, v) \<in> set m" and "(k', v') \<in> set m"
  shows "exp_of v \<le> exp_of v'"
proof -
  from assms(1) obtain w where w: "min_by_key (\<lambda>e. exp_of (snd e)) m = Some (k, w)"
    by (auto simp: oldest_def)
  then have "(k, w) \<in> set m" by (auto dest: min_by_key_SomeD)
  with assms(2,3) have "w = v" by (metis hget_in_set option.inject)
  with min_by_key_SomeD [OF w] assms(4) show ?thesis by fastforce
qed

text \<open>The loop \<open>while m.len() >= MAX\<close>, with its \<open>break\<close> on an empty map.\<close>

function evict_while_full :: "nat \<Rightarrow> ('v \<Rightarrow> time) \<Rightarrow> 'v hmap \<Rightarrow> 'v hmap" where
  "evict_while_full cap exp_of m =
     (if cap \<le> length m
      then case oldest exp_of m of
             None \<Rightarrow> m
           | Some k \<Rightarrow> evict_while_full cap exp_of (hremove k m)
      else m)"
  by pat_completeness auto
termination
  by (relation "measure (\<lambda>(cap, exp_of, m). length m)")
    (auto dest: oldest_in_keys intro: length_hremove_less)

declare evict_while_full.simps [simp del]

definition insert_capped :: "('v \<Rightarrow> time) \<Rightarrow> time \<Rightarrow> string \<Rightarrow> 'v \<Rightarrow> 'v hmap \<Rightarrow> 'v hmap" where
  "insert_capped exp_of now key val m =
     hinsert key val
       (evict_while_full MAX_CEREMONIES exp_of (hretain (\<lambda>v. now < exp_of v) m))"

text \<open>
  The map part of \<open>AuthState::new_session\<close>: \<open>retain\<close>, one eviction when full, \<open>insert\<close>.
\<close>

definition session_insert :: "time \<Rightarrow> string \<Rightarrow> time \<Rightarrow> time hmap \<Rightarrow> time hmap" where
  "session_insert now token expiry s =
     (let s1 = hretain (\<lambda>e. now < e) s;
          s2 = (if MAX_SESSIONS \<le> length s1
                then case oldest (\<lambda>e. e) s1 of None \<Rightarrow> s1 | Some k \<Rightarrow> hremove k s1
                else s1)
      in hinsert token expiry s2)"

section \<open>Eviction\<close>

lemma evict_id: "length m < cap \<Longrightarrow> evict_while_full cap exp_of m = m"
  by (subst evict_while_full.simps) simp

lemma evict_step:
  "cap \<le> length m \<Longrightarrow> oldest exp_of m = Some k \<Longrightarrow>
   evict_while_full cap exp_of m = evict_while_full cap exp_of (hremove k m)"
  by (subst evict_while_full.simps) simp

lemma evict_length:
  "0 < cap \<Longrightarrow> length (evict_while_full cap exp_of m) < cap"
proof (induction cap exp_of m rule: evict_while_full.induct)
  case (1 cap exp_of m)
  then show ?case
    by (cases "cap \<le> length m"; cases "oldest exp_of m") (auto simp: evict_step evict_id)
qed

lemma evict_subset: "set (evict_while_full cap exp_of m) \<subseteq> set m"
proof (induction cap exp_of m rule: evict_while_full.induct)
  case (1 cap exp_of m)
  show ?case
  proof (cases "cap \<le> length m \<and> oldest exp_of m \<noteq> None")
    case True
    then obtain k where k: "oldest exp_of m = Some k" by blast
    with True 1 have "set (evict_while_full cap exp_of (hremove k m)) \<subseteq> set (hremove k m)" by simp
    with k True show ?thesis by (auto simp: evict_step hremove_def)
  next
    case False
    then show ?thesis by (subst evict_while_full.simps) auto
  qed
qed

lemma wf_evict [inv_intros]: "wf_hmap m \<Longrightarrow> wf_hmap (evict_while_full cap exp_of m)"
proof (induction cap exp_of m rule: evict_while_full.induct)
  case (1 cap exp_of m)
  then show ?case
    by (subst evict_while_full.simps) (auto split: option.splits)
qed

text \<open>An entry that is evicted expires no later than any entry that stays.\<close>

lemma evict_oldest:
  assumes "wf_hmap m" and "(k, v) \<in> set m" and "(k, v) \<notin> set (evict_while_full cap exp_of m)"
    and "(k', v') \<in> set (evict_while_full cap exp_of m)"
  shows "exp_of v \<le> exp_of v'"
  using assms
proof (induction cap exp_of m rule: evict_while_full.induct)
  case (1 cap exp_of m)
  show ?case
  proof (cases "cap \<le> length m \<and> m \<noteq> []")
    case False
    then have "evict_while_full cap exp_of m = m"
      by (subst evict_while_full.simps) (auto split: option.splits)
    with "1.prems" show ?thesis by simp
  next
    case True
    then obtain j where j: "oldest exp_of m = Some j" by (cases "oldest exp_of m") auto
    with True have ev: "evict_while_full cap exp_of m = evict_while_full cap exp_of (hremove j m)"
      by (intro evict_step) auto
    show ?thesis
    proof (cases "k = j")
      case True
      have "(k', v') \<in> set m" using evict_subset "1.prems"(4) by blast
      with j True "1.prems" show ?thesis by (blast intro: oldest_least)
    next
      case False
      with "1.prems" have "(k, v) \<in> set (hremove j m)" by (simp add: hremove_def)
      with "1.IH" True j "1.prems" ev show ?thesis by simp
    qed
  qed
qed

section \<open>The interface of an expiring map\<close>

locale expiring_map =
  fixes ins :: "time \<Rightarrow> string \<Rightarrow> 'v \<Rightarrow> 'v hmap \<Rightarrow> 'v hmap"
    and exp_of :: "'v \<Rightarrow> time"
    and cap :: nat
  assumes ins_wf: "wf_hmap m \<Longrightarrow> wf_hmap (ins now k v m)"
    and ins_cap: "wf_hmap m \<Longrightarrow> length m \<le> cap \<Longrightarrow> length (ins now k v m) \<le> cap"
    and ins_new: "hget (ins now k v m) k = Some v"
    and ins_old:
      "wf_hmap m \<Longrightarrow> k' \<noteq> k \<Longrightarrow> hget (ins now k v m) k' = Some v' \<Longrightarrow>
       hget m k' = Some v' \<and> now < exp_of v'"
    and ins_keeps:
      "wf_hmap m \<Longrightarrow> length m < cap \<Longrightarrow> k' \<noteq> k \<Longrightarrow> hget m k' = Some v' \<Longrightarrow> now < exp_of v' \<Longrightarrow>
       hget (ins now k v m) k' = Some v'"
    and ins_oldest:
      "wf_hmap m \<Longrightarrow> hget m k' = Some v' \<Longrightarrow> k' \<noteq> k \<Longrightarrow> now < exp_of v' \<Longrightarrow>
       hget (ins now k v m) k' = None \<Longrightarrow> k'' \<noteq> k \<Longrightarrow> hget (ins now k v m) k'' = Some v'' \<Longrightarrow>
       exp_of v' \<le> exp_of v''"
begin

lemma ins_all_wf:
  "wf_hmap m \<Longrightarrow> wf_hmap (fold (\<lambda>(now, k, v). ins now k v) xs m)"
  by (induction xs arbitrary: m) (auto intro: ins_wf)

lemma ins_all_cap:
  "wf_hmap m \<Longrightarrow> length m \<le> cap \<Longrightarrow> length (fold (\<lambda>(now, k, v). ins now k v) xs m) \<le> cap"
  by (induction xs arbitrary: m) (auto intro: ins_wf ins_cap)

text \<open>Every entry was there before or is one of the inserted ones.\<close>

lemma ins_all_origin:
  "wf_hmap m \<Longrightarrow> hget (fold (\<lambda>(now, k, v). ins now k v) xs m) k' = Some v' \<Longrightarrow>
   hget m k' = Some v' \<or> (\<exists>now. (now, k', v') \<in> set xs)"
proof (induction xs arbitrary: m)
  case Nil
  then show ?case by simp
next
  case (Cons x xs)
  obtain now k v where x: "x = (now, k, v)" by (cases x)
  with Cons have "hget (ins now k v m) k' = Some v' \<or> (\<exists>now. (now, k', v') \<in> set xs)"
    by (auto intro: ins_wf)
  then show ?case
  proof
    assume "hget (ins now k v m) k' = Some v'"
    with Cons.prems(1) x show ?thesis
      using ins_new [of now k v m] ins_old [of m k' k now v v'] by (cases "k' = k") auto
  qed auto
qed

lemma ins_length: "wf_hmap m \<Longrightarrow> length (ins now k v m) \<le> Suc (length m)"
proof -
  assume wf: "wf_hmap m"
  have sub: "set (hkeys (ins now k v m)) \<subseteq> insert k (set (hkeys m))"
  proof
    fix k' assume "k' \<in> set (hkeys (ins now k v m))"
    then obtain v' where "hget (ins now k v m) k' = Some v'"
      using hget_None_iff by (metis not_None_eq)
    with wf have "k' = k \<or> hget m k' = Some v'" using ins_old by blast
    then show "k' \<in> insert k (set (hkeys m))"
      using hget_None_iff by (metis insertCI option.distinct(1))
  qed
  have "length (ins now k v m) = card (set (hkeys (ins now k v m)))"
    using ins_wf [OF wf] by (metis distinct_card length_map wf_hmap_def)
  also have "\<dots> \<le> card (insert k (set (hkeys m)))"
    by (rule card_mono [OF _ sub]) simp
  also have "\<dots> \<le> Suc (card (set (hkeys m)))" by (simp add: card_insert_if)
  also have "\<dots> \<le> Suc (length m)" by (metis Suc_le_mono card_length length_map)
  finally show ?thesis .
qed

text \<open>An entry survives as many later insertions as the map has room for.\<close>

lemma ins_all_survives:
  "wf_hmap m \<Longrightarrow> length m + length xs \<le> cap \<Longrightarrow> hget m k' = Some v' \<Longrightarrow>
   (\<forall>(now, k, v)\<in>set xs. k \<noteq> k' \<and> now < exp_of v') \<Longrightarrow>
   hget (fold (\<lambda>(now, k, v). ins now k v) xs m) k' = Some v'"
proof (induction xs arbitrary: m)
  case Nil
  then show ?case by simp
next
  case (Cons x xs)
  obtain now k v where x: "x = (now, k, v)" by (cases x)
  have "hget (ins now k v m) k' = Some v'"
    using Cons.prems x by (intro ins_keeps) auto
  moreover have "length (ins now k v m) + length xs \<le> cap"
    using ins_length [OF Cons.prems(1), of now k v] Cons.prems(2) by simp
  ultimately show ?case
    using Cons.IH [of "ins now k v m"] Cons.prems x by (auto intro: ins_wf)
qed

text \<open>
  While an entry survives insertions that all expire later, none of those is evicted; so
  \<open>cap\<close> of them, under different keys, push it out.
\<close>

lemma ins_all_kept:
  "wf_hmap m \<Longrightarrow> hget (fold (\<lambda>(now, k, v). ins now k v) xs m) k' = Some v' \<Longrightarrow>
   distinct (k' # map (fst \<circ> snd) xs) \<Longrightarrow>
   \<forall>(now, k, v)\<in>set xs. \<forall>(now', k'', v'')\<in>set xs. now < exp_of v'' \<and> exp_of v' < exp_of v'' \<Longrightarrow>
   (now, k, v) \<in> set xs \<Longrightarrow>
   hget (fold (\<lambda>(now, k, v). ins now k v) xs m) k = Some v"
proof (induction xs arbitrary: now k v rule: rev_induct)
  case Nil
  then show ?case by simp
next
  case (snoc x xs)
  obtain n j w where x: "x = (n, j, w)" by (cases x)
  let ?m = "fold (\<lambda>(now, k, v). ins now k v) xs m"
  have wf: "wf_hmap ?m" using snoc.prems(1) by (rule ins_all_wf)
  have k': "k' \<noteq> j" using snoc.prems(3) x by auto
  with snoc.prems(2) x wf have old: "hget ?m k' = Some v'" using ins_old by fastforce
  show ?case
  proof (cases "(now, k, v) \<in> set xs")
    case False
    with snoc.prems(5) x show ?thesis by (simp add: ins_new)
  next
    case True
    have kept: "hget ?m k = Some v"
      by (rule snoc.IH [OF snoc.prems(1) old _ _ True]) (use snoc.prems(3,4) in auto)
    have kj: "k \<noteq> j" using True snoc.prems(3) x by (force simp: image_iff)
    have "n < exp_of v" and lt: "exp_of v' < exp_of v" using True snoc.prems(4) x by auto
    have "hget (ins n j w ?m) k \<noteq> None"
    proof
      assume none: "hget (ins n j w ?m) k = None"
      have "hget (ins n j w ?m) k' = Some v'" using snoc.prems(2) x by simp
      with ins_oldest [OF wf kept kj \<open>n < exp_of v\<close> none k'] lt show False by simp
    qed
    then obtain u where u: "hget (ins n j w ?m) k = Some u" by blast
    with ins_old [OF wf kj] kept have "u = v" by simp
    with u x show ?thesis by simp
  qed
qed

lemma ins_all_flood:
  assumes "wf_hmap m" and "length m \<le> cap" and "length xs = cap"
    and "distinct (k' # map (fst \<circ> snd) xs)"
    and "\<forall>(now, k, v)\<in>set xs. \<forall>(now', k'', v'')\<in>set xs. now < exp_of v'' \<and> exp_of v' < exp_of v''"
  shows "hget (fold (\<lambda>(now, k, v). ins now k v) xs m) k' \<noteq> Some v'"
proof
  let ?m = "fold (\<lambda>(now, k, v). ins now k v) xs m"
  assume here: "hget ?m k' = Some v'"
  have "set (k' # map (fst \<circ> snd) xs) \<subseteq> set (hkeys ?m)"
  proof
    fix k assume "k \<in> set (k' # map (fst \<circ> snd) xs)"
    then have "hget ?m k \<noteq> None"
      using here ins_all_kept [OF assms(1) here assms(4,5)] by (auto split: prod.splits)
    then show "k \<in> set (hkeys ?m)" by (simp only: hget_None_iff not_not)
  qed
  then have "card (set (k' # map (fst \<circ> snd) xs)) \<le> card (set (hkeys ?m))"
    by (rule card_mono [rotated]) simp
  then have "Suc (length xs) \<le> card (set (hkeys ?m))"
    using assms(4) by (simp only: distinct_card) simp
  also have "\<dots> \<le> length ?m" by (metis card_length length_map)
  also have "\<dots> \<le> cap" using assms(1,2) by (rule ins_all_cap)
  finally show False using assms(3) by simp
qed

end

section \<open>Both insertions implement the interface\<close>

lemma MAX_pos [simp]:
  "0 < MAX_CEREMONIES" "0 < MAX_SESSIONS" "MAX_CEREMONIES \<noteq> 0" "MAX_SESSIONS \<noteq> 0"
  by (simp_all add: MAX_CEREMONIES_def MAX_SESSIONS_def)

lemma length_hinsert_le: "length (hinsert k v m) \<le> Suc (length m)"
  by (simp add: hinsert_def length_hremove_le)

lemma insert_capped_length: "length (insert_capped exp_of now k v m) \<le> MAX_CEREMONIES"
  unfolding insert_capped_def
  by (rule order_trans [OF length_hinsert_le]) (simp add: Suc_le_eq evict_length)

lemma insert_capped_old:
  assumes "wf_hmap m" and "k' \<noteq> k" and "hget (insert_capped exp_of now k v m) k' = Some v'"
  shows "hget m k' = Some v' \<and> now < exp_of v'"
proof -
  let ?live = "hretain (\<lambda>v. now < exp_of v) m"
  have "hget (evict_while_full MAX_CEREMONIES exp_of ?live) k' = Some v'"
    using assms(2,3) by (simp add: insert_capped_def hmap_simps)
  then have "hget ?live k' = Some v'"
    by (rule hget_subset [OF _ evict_subset, rotated]) (simp add: assms(1))
  with assms(1) show ?thesis by (auto simp: hmap_simps split: option.splits if_splits)
qed

lemma insert_capped_oldest:
  assumes "wf_hmap m" and "hget m k' = Some v'" and "k' \<noteq> k" and "now < exp_of v'"
    and "hget (insert_capped exp_of now k v m) k' = None"
    and "k'' \<noteq> k" and "hget (insert_capped exp_of now k v m) k'' = Some v''"
  shows "exp_of v' \<le> exp_of v''"
proof -
  let ?live = "hretain (\<lambda>v. now < exp_of v) m"
  let ?ev = "evict_while_full MAX_CEREMONIES exp_of ?live"
  have wf: "wf_hmap ?live" "wf_hmap ?ev" using assms(1) by (simp_all add: wf_evict)
  have "hget ?live k' = Some v'" using assms(1,2,4) by (simp add: hmap_simps)
  moreover have "hget ?ev k' = None" and "hget ?ev k'' = Some v''"
    using assms(3,5-7) by (simp_all add: insert_capped_def hmap_simps)
  ultimately show ?thesis
    using wf by (intro evict_oldest [of ?live k' v' MAX_CEREMONIES exp_of k'' v''])
      (auto simp: hget_in_set [symmetric])
qed

lemma insert_capped_wf: "wf_hmap m \<Longrightarrow> wf_hmap (insert_capped exp_of now k v m)"
  by (simp add: insert_capped_def wf_evict)

lemma insert_capped_new: "hget (insert_capped exp_of now k v m) k = Some v"
  by (simp add: insert_capped_def hmap_simps)

lemma insert_capped_keeps:
  assumes "wf_hmap m" and "length m < MAX_CEREMONIES" and "k' \<noteq> k" and "hget m k' = Some v'"
    and "now < exp_of v'"
  shows "hget (insert_capped exp_of now k v m) k' = Some v'"
proof -
  have "length (hretain (\<lambda>v. now < exp_of v) m) < MAX_CEREMONIES"
    using assms(2) length_hretain_le le_less_trans by blast
  with assms show ?thesis by (simp add: insert_capped_def evict_id hmap_simps)
qed

lemma expiring_map_insert_capped: "expiring_map (insert_capped exp_of) exp_of MAX_CEREMONIES"
  by unfold_locales
    (rule insert_capped_wf insert_capped_length insert_capped_new insert_capped_old
       insert_capped_keeps insert_capped_oldest; assumption)+

lemma session_insert_alt:
  "session_insert now token expiry s =
     (let s1 = hretain (\<lambda>e. now < e) s
      in hinsert token expiry
           (if MAX_SESSIONS \<le> length s1 then hremove (the (oldest (\<lambda>e. e) s1)) s1 else s1))"
  by (auto simp: session_insert_def Let_def split: option.splits)

lemma session_evict_shorter:
  assumes "MAX_SESSIONS \<le> length s"
  shows "length (hremove (the (oldest (\<lambda>e. e) s)) s) < length s"
proof -
  have "s \<noteq> []" using assms by auto
  then obtain k where "oldest (\<lambda>e. e) s = Some k" by (cases "oldest (\<lambda>e. e) s") auto
  then show ?thesis by (auto intro: length_hremove_less oldest_in_keys)
qed

lemma session_insert_length:
  assumes "length s \<le> MAX_SESSIONS"
  shows "length (session_insert now k v s) \<le> MAX_SESSIONS"
proof -
  let ?s1 = "hretain (\<lambda>e. now < e) s"
  have le: "length ?s1 \<le> MAX_SESSIONS" using assms length_hretain_le le_trans by blast
  show ?thesis
    using length_hinsert_le [of k v "hremove (the (oldest (\<lambda>e. e) ?s1)) ?s1"]
      length_hinsert_le [of k v ?s1] session_evict_shorter [of ?s1] le
    by (auto simp: session_insert_alt Let_def)
qed

lemma session_insert_old:
  "wf_hmap s \<Longrightarrow> k' \<noteq> k \<Longrightarrow> hget (session_insert now k v s) k' = Some v' \<Longrightarrow>
   hget s k' = Some v' \<and> now < v'"
  by (auto simp: session_insert_alt Let_def hmap_simps split: if_splits option.splits)

lemma session_insert_oldest:
  assumes "wf_hmap s" and "hget s k' = Some v'" and "k' \<noteq> k" and "now < v'"
    and "hget (session_insert now k v s) k' = None"
    and "k'' \<noteq> k" and "hget (session_insert now k v s) k'' = Some v''"
  shows "v' \<le> v''"
proof -
  let ?s1 = "hretain (\<lambda>e. now < e) s"
  have live: "hget ?s1 k' = Some v'" using assms(1,2,4) by (simp add: hmap_simps)
  with assms(3,5) have full: "MAX_SESSIONS \<le> length ?s1" and kold: "k' = the (oldest (\<lambda>e. e) ?s1)"
    by (auto simp: session_insert_alt Let_def hmap_simps split: if_splits)
  from full have "?s1 \<noteq> []" by auto
  with kold have old: "oldest (\<lambda>e. e) ?s1 = Some k'" by (cases "oldest (\<lambda>e. e) ?s1") auto
  have "hget ?s1 k'' = Some v''"
    using assms(6,7) full by (auto simp: session_insert_alt Let_def hmap_simps split: if_splits)
  with live old assms(1) show ?thesis
    by (intro oldest_least [OF old, of v' k'' v'']) (auto dest: hget_SomeD)
qed

lemma session_insert_wf: "wf_hmap s \<Longrightarrow> wf_hmap (session_insert now k v s)"
  by (simp add: session_insert_alt Let_def)

lemma session_insert_new: "hget (session_insert now k v s) k = Some v"
  by (simp add: session_insert_alt Let_def hmap_simps)

lemma session_insert_keeps:
  assumes "wf_hmap s" and "length s < MAX_SESSIONS" and "k' \<noteq> k" and "hget s k' = Some v'"
    and "now < v'"
  shows "hget (session_insert now k v s) k' = Some v'"
proof -
  have "length (hretain (\<lambda>e. now < e) s) < MAX_SESSIONS"
    using assms(2) length_hretain_le le_less_trans by blast
  with assms show ?thesis by (simp add: session_insert_alt hmap_simps)
qed

lemma expiring_map_session_insert: "expiring_map session_insert (\<lambda>e. e) MAX_SESSIONS"
  by unfold_locales
    (rule session_insert_wf session_insert_length session_insert_new session_insert_old
       session_insert_keeps session_insert_oldest; assumption)+

end
