(* ===== verification/Rust_Int.thy ===== *)
theory Rust_Int
  imports Prelude "HOL-Library.Word" Complex_Main
begin

text \<open>
  Machine arithmetic of the source. An \<open>i64\<close> is an \<open>int\<close> whose operations write the width out
  (\<open>wrap_i64\<close> for the release build's wrapping arithmetic, \<open>sat_sub_i64\<close> for
  \<open>saturating_sub\<close>); a \<open>u64\<close> is a \<open>64 word\<close>. Integer division truncates, as in Rust and SQL.
  A float is an exact rational or one of the non-finite values; where the code divides and
  rounds, the rounding is a parameter of the model.
\<close>

unbundle bit_operations_syntax

type_synonym i64 = int
type_synonym u64 = "64 word"
type_synonym u8 = "8 word"

section \<open>Signed 64-bit integers\<close>

definition i64_min :: i64 where
  "i64_min = - (2 ^ 63)"

definition i64_max :: i64 where
  "i64_max = 2 ^ 63 - 1"

definition in_i64 :: "int \<Rightarrow> bool" where
  "in_i64 x \<longleftrightarrow> i64_min \<le> x \<and> x \<le> i64_max"

definition wrap_i64 :: "int \<Rightarrow> i64" where
  "wrap_i64 x = (x + 2 ^ 63) mod 2 ^ 64 - 2 ^ 63"

definition sat_sub_i64 :: "i64 \<Rightarrow> i64 \<Rightarrow> i64" where
  "sat_sub_i64 a b = max i64_min (min i64_max (a - b))"

definition tdiv :: "int \<Rightarrow> int \<Rightarrow> int" where
  "tdiv a b = sgn a * sgn b * (\<bar>a\<bar> div \<bar>b\<bar>)"

lemmas i64_bounds = i64_min_def i64_max_def in_i64_def

lemma wrap_i64_id [simp]: "in_i64 x \<Longrightarrow> wrap_i64 x = x"
  by (simp add: i64_bounds wrap_i64_def)

lemma wrap_i64_range: "in_i64 (wrap_i64 x)"
proof -
  have "0 \<le> (x + 2 ^ 63) mod 2 ^ 64" and "(x + 2 ^ 63) mod 2 ^ 64 < (2 ^ 64 :: int)"
    by simp_all
  then show ?thesis by (simp add: i64_bounds wrap_i64_def)
qed

lemma sat_sub_i64_range: "in_i64 (sat_sub_i64 a b)"
  by (simp add: i64_bounds sat_sub_i64_def)

lemma sat_sub_i64_exact: "in_i64 (a - b) \<Longrightarrow> sat_sub_i64 a b = a - b"
  by (simp add: i64_bounds sat_sub_i64_def)

lemma tdiv_nonneg [simp]: "0 \<le> a \<Longrightarrow> 0 < b \<Longrightarrow> tdiv a b = a div b"
  by (cases "a = 0") (simp_all add: tdiv_def)

section \<open>Unsigned 64-bit integers\<close>

definition as_i64 :: "u64 \<Rightarrow> i64" where
  "as_i64 w = sint w"

definition checked_sub :: "u64 \<Rightarrow> u64 \<Rightarrow> u64 option" where
  "checked_sub a b = (if b \<le> a then Some (a - b) else None)"

definition sat_sub_u64 :: "u64 \<Rightarrow> u64 \<Rightarrow> u64" where
  "sat_sub_u64 a b = (if b \<le> a then a - b else 0)"

definition sat_mul_u64 :: "u64 \<Rightarrow> u64 \<Rightarrow> u64" where
  "sat_mul_u64 a b = (if unat a * unat b < 2 ^ 64 then a * b else - 1)"

lemma as_i64_range: "in_i64 (as_i64 w)"
  using sint_ge [of w] sint_lt [of w] by (simp add: as_i64_def i64_bounds)

lemma as_i64_small: "uint w < 2 ^ 63 \<Longrightarrow> as_i64 w = uint w"
  unfolding as_i64_def sint_uint
  by (rule signed_take_bit_int_eq_self) (simp_all add: order_trans [OF _ uint_ge_0])

lemma checked_sub_None: "checked_sub a b = None \<longleftrightarrow> a < b"
  by (auto simp: checked_sub_def)

lemma unat_sub_le: "b \<le> (a :: u64) \<Longrightarrow> unat (a - b) = unat a - unat b"
  by (simp add: unat_sub word_le_nat_alt)

lemma checked_sub_Some: "checked_sub a b = Some c \<Longrightarrow> unat c = unat a - unat b \<and> b \<le> a"
  by (auto simp: checked_sub_def unat_sub_le split: if_splits)

lemma unat_sat_sub_u64: "unat (sat_sub_u64 a b) = unat a - unat b"
  by (auto simp: sat_sub_u64_def unat_sub_le word_le_nat_alt)

section \<open>Floats\<close>

datatype float_val = Finite rat | PosInf | NegInf | NaN

fun is_finite :: "float_val \<Rightarrow> bool" where
  "is_finite (Finite _) = True"
| "is_finite _ = False"

text \<open>
  The rounding of a float format, as a function on the exact result of an operation. IEEE
  754 rounds monotonically and leaves representable numbers alone.
\<close>

type_synonym rounding = "rat \<Rightarrow> rat"

definition monotone_rounding :: "rounding \<Rightarrow> bool" where
  "monotone_rounding r \<longleftrightarrow> (\<forall>x y. x \<le> y \<longrightarrow> r x \<le> r y)"

definition clamp :: "rat \<Rightarrow> rat \<Rightarrow> rat \<Rightarrow> rat" where
  "clamp lo hi x = (if x < lo then lo else if hi < x then hi else x)"

lemma clamp_bounds: "lo \<le> hi \<Longrightarrow> lo \<le> clamp lo hi x \<and> clamp lo hi x \<le> hi"
  by (simp add: clamp_def)

end
