(* ===== verification/Text.thy ===== *)
theory Text
  imports Prelude
begin

text \<open>
  Rust strings. A \<open>string\<close> of the model is the sequence of UTF-8 bytes of the Rust \<open>String\<close>,
  so \<open>len\<close> is \<open>length\<close> and byte comparison is equality. The operations that work on
  characters (\<open>trim\<close>, \<open>chars().take(n)\<close>) are written on the bytes of each character.
\<close>

section \<open>Prefixes\<close>

fun strip_prefix :: "string \<Rightarrow> string \<Rightarrow> string option" where
  "strip_prefix [] s = Some s"
| "strip_prefix (p # ps) [] = None"
| "strip_prefix (p # ps) (c # cs) = (if p = c then strip_prefix ps cs else None)"

definition starts_with :: "string \<Rightarrow> string \<Rightarrow> bool" where
  "starts_with p s = (take (length p) s = p)"

lemma strip_prefix_Some: "strip_prefix p s = Some r \<longleftrightarrow> s = p @ r"
  by (induction p s rule: strip_prefix.induct) auto

lemma starts_with_append [simp]: "starts_with p (p @ s)"
  by (simp add: starts_with_def)

section \<open>Trimming\<close>

text \<open>The UTF-8 encodings of the characters with the Unicode property White\_Space.\<close>

definition white_space :: "string list" where
  "white_space =
     [[CHR 0x09], [CHR 0x0A], [CHR 0x0B], [CHR 0x0C], [CHR 0x0D], [CHR 0x20],
      [CHR 0xC2, CHR 0x85], [CHR 0xC2, CHR 0xA0], [CHR 0xE1, CHR 0x9A, CHR 0x80],
      [CHR 0xE2, CHR 0x80, CHR 0x80], [CHR 0xE2, CHR 0x80, CHR 0x81],
      [CHR 0xE2, CHR 0x80, CHR 0x82], [CHR 0xE2, CHR 0x80, CHR 0x83],
      [CHR 0xE2, CHR 0x80, CHR 0x84], [CHR 0xE2, CHR 0x80, CHR 0x85],
      [CHR 0xE2, CHR 0x80, CHR 0x86], [CHR 0xE2, CHR 0x80, CHR 0x87],
      [CHR 0xE2, CHR 0x80, CHR 0x88], [CHR 0xE2, CHR 0x80, CHR 0x89],
      [CHR 0xE2, CHR 0x80, CHR 0x8A], [CHR 0xE2, CHR 0x80, CHR 0xA8],
      [CHR 0xE2, CHR 0x80, CHR 0xA9], [CHR 0xE2, CHR 0x80, CHR 0xAF],
      [CHR 0xE2, CHR 0x81, CHR 0x9F], [CHR 0xE3, CHR 0x80, CHR 0x80]]"

fun strip_any :: "string list \<Rightarrow> string \<Rightarrow> string option" where
  "strip_any [] s = None"
| "strip_any (w # ws) s =
     (case strip_prefix w s of Some r \<Rightarrow> Some r | None \<Rightarrow> strip_any ws s)"

lemma strip_any_shorter: "[] \<notin> set ws \<Longrightarrow> strip_any ws s = Some r \<Longrightarrow> length r < length s"
  by (induction ws) (auto simp: strip_prefix_Some split: option.splits)

fun strip_while :: "nat \<Rightarrow> string list \<Rightarrow> string \<Rightarrow> string" where
  "strip_while 0 ws s = s"
| "strip_while (Suc n) ws s =
     (case strip_any ws s of None \<Rightarrow> s | Some r \<Rightarrow> strip_while n ws r)"

text \<open>Each removal shortens the string, so its length is enough fuel.\<close>

definition trim_start_ws :: "string \<Rightarrow> string" where
  "trim_start_ws s = strip_while (length s) white_space s"

definition trim_end_ws :: "string \<Rightarrow> string" where
  "trim_end_ws s = rev (strip_while (length s) (map rev white_space) (rev s))"

definition trim :: "string \<Rightarrow> string" where
  "trim s = trim_end_ws (trim_start_ws s)"

definition trim_start_matches :: "char \<Rightarrow> string \<Rightarrow> string" where
  "trim_start_matches c s = dropWhile (\<lambda>d. d = c) s"

lemma strip_while_done:
  "[] \<notin> set ws \<Longrightarrow> length s \<le> n \<Longrightarrow> strip_any ws (strip_while n ws s) = None"
proof (induction n arbitrary: s)
  case 0
  then show ?case
    using strip_any_shorter [of ws s] by (cases "strip_any ws s") auto
next
  case (Suc n)
  then show ?case
    using strip_any_shorter [of ws s] by (cases "strip_any ws s") auto
qed

lemma strip_while_suffix: "\<exists>p. s = p @ strip_while n ws s"
proof (induction n ws s rule: strip_while.induct)
  case (1 ws s)
  then show ?case by simp
next
  case (2 n ws s)
  have suffix: "\<exists>p. s = p @ r" if "strip_any ws s = Some r" for r
    using that by (induction ws) (auto simp: strip_prefix_Some split: option.splits)
  show ?case
  proof (cases "strip_any ws s")
    case None
    then show ?thesis by simp
  next
    case (Some r)
    with 2 suffix obtain p q where "s = p @ r" and "r = q @ strip_while n ws r"
      by blast
    then have "s = (p @ q) @ strip_while n ws r" by simp
    with Some show ?thesis by auto
  qed
qed

lemma length_strip_while: "length (strip_while n ws s) \<le> length s"
  using strip_while_suffix [of s n ws] by (metis le_add2 length_append)

lemma length_trim: "length (trim s) \<le> length s"
  unfolding trim_def trim_end_ws_def trim_start_ws_def
  by (metis length_rev length_strip_while le_trans)

lemma trim_Nil [simp]: "trim [] = []"
  by (simp add: trim_def trim_end_ws_def trim_start_ws_def)

lemma strip_while_None: "strip_any ws s = None \<Longrightarrow> strip_while n ws s = s"
  by (cases n) auto

lemma trim_id:
  "strip_any white_space s = None \<Longrightarrow> strip_any (map rev white_space) (rev s) = None \<Longrightarrow> trim s = s"
  by (simp add: trim_def trim_end_ws_def trim_start_ws_def strip_while_None)

section \<open>Characters\<close>

definition continuation_byte :: "char \<Rightarrow> bool" where
  "continuation_byte c \<longleftrightarrow> (of_char c :: nat) div 64 = 2"

text \<open>\<open>s.chars().take(n)\<close>: up to the byte that would start character \<open>n + 1\<close>.\<close>

fun take_chars :: "nat \<Rightarrow> string \<Rightarrow> string" where
  "take_chars n [] = []"
| "take_chars n (c # cs) =
     (if continuation_byte c then c # take_chars n cs
      else case n of 0 \<Rightarrow> [] | Suc m \<Rightarrow> c # take_chars m cs)"

definition lower_ascii :: "char \<Rightarrow> char" where
  "lower_ascii c =
     (let b = (of_char c :: nat) in if 65 \<le> b \<and> b \<le> 90 then char_of (b + 32) else c)"

definition to_lowercase :: "string \<Rightarrow> string" where
  "to_lowercase = map lower_ascii"

end
