(* ===== verification/Cookies.thy ===== *)
theory Cookies
  imports Prelude Rust_Int Text
begin

text \<open>
  Secrets and cookies: the constant-time comparison of \<open>src/src/web.rs\<close>, the random tokens and
  the cookie constructors of \<open>src/src/auth.rs\<close>. A \<open>CookieJar\<close> (package \<open>axum-extra\<close>) is seen
  through \<open>get\<close> on what the request carried; what a handler does to it is the list of its
  \<open>add\<close> and \<open>remove\<close> calls.
\<close>

section \<open>Constant-time comparison\<close>

definition as_bytes :: "string \<Rightarrow> u8 list" where
  "as_bytes s = map (\<lambda>c. word_of_nat (of_char c)) s"

fun ct_diff :: "u8 \<Rightarrow> u8 list \<Rightarrow> u8 list \<Rightarrow> u8" where
  "ct_diff diff (x # xs) (y # ys) = ct_diff (diff OR (x XOR y)) xs ys"
| "ct_diff diff _ _ = diff"

definition ct_eq :: "u8 list \<Rightarrow> u8 list \<Rightarrow> bool" where
  "ct_eq a b = (if length a \<noteq> length b then False else ct_diff 0 a b = 0)"

lemma or_eq_0_iff: "(a OR b = (0 :: 'a::len word)) \<longleftrightarrow> a = 0 \<and> b = 0"
  by (auto intro!: bit_word_eqI simp: bit_eq_iff bit_or_iff)

lemma xor_eq_0_iff: "(a XOR b = (0 :: 'a::len word)) \<longleftrightarrow> a = b"
  by (auto simp: bit_eq_iff bit_xor_iff)

lemma ct_diff_0_iff:
  "length xs = length ys \<Longrightarrow> ct_diff d xs ys = 0 \<longleftrightarrow> d = 0 \<and> xs = ys"
  by (induction d xs ys rule: ct_diff.induct) (auto simp: or_eq_0_iff xor_eq_0_iff)

lemma ct_eq_iff: "ct_eq a b \<longleftrightarrow> a = b"
  by (auto simp: ct_eq_def ct_diff_0_iff)

lemma char_of_byte: "char_of (unat (word_of_nat (of_char c) :: u8)) = c"
  by (simp add: unat_of_nat)

lemma as_bytes_inject: "as_bytes s = as_bytes t \<longleftrightarrow> s = t"
  unfolding as_bytes_def
  by (rule inj_eq [OF inj_mapI]) (rule injI, metis char_of_byte)

lemma ct_eq_as_bytes [simp]: "ct_eq (as_bytes s) (as_bytes t) \<longleftrightarrow> s = t"
  by (simp add: ct_eq_iff as_bytes_inject)

section \<open>Random tokens\<close>

definition hex_digit :: "nat \<Rightarrow> char" where
  "hex_digit n = (if n < 10 then char_of (48 + n) else char_of (87 + n))"

text \<open>\<open>format!("{b:02x}")\<close>\<close>

definition hex_byte :: "u8 \<Rightarrow> string" where
  "hex_byte b = [hex_digit (unat b div 16), hex_digit (unat b mod 16)]"

definition hex32 :: "u8 list \<Rightarrow> string" where
  "hex32 bytes = concat (map hex_byte bytes)"

definition hex_value :: "char \<Rightarrow> nat" where
  "hex_value c = (let n = (of_char c :: nat) in if n < 58 then n - 48 else n - 87)"

fun unhex :: "string \<Rightarrow> u8 list" where
  "unhex (a # b # cs) = word_of_nat (16 * hex_value a + hex_value b) # unhex cs"
| "unhex _ = []"

lemma hex_value_digit: "n < 16 \<Longrightarrow> hex_value (hex_digit n) = n"
  by (simp add: hex_value_def hex_digit_def)

lemma unat_u8_less: "unat (b :: u8) < 256"
  using unsigned_less [of b] by simp

lemma unhex_hex32: "unhex (hex32 bytes) = bytes"
proof (induction bytes)
  case Nil
  then show ?case by (simp add: hex32_def)
next
  case (Cons b bytes)
  have "unat b div 16 < 16" using unat_u8_less [of b] by simp
  then have "16 * hex_value (hex_digit (unat b div 16)) + hex_value (hex_digit (unat b mod 16)) = unat b"
    by (simp add: hex_value_digit)
  with Cons show ?case by (simp add: hex32_def hex_byte_def)
qed

lemma hex32_inject: "hex32 a = hex32 b \<longleftrightarrow> a = b"
  by (metis unhex_hex32)

lemma length_hex32: "length (hex32 bytes) = 2 * length bytes"
  by (induction bytes) (simp_all add: hex32_def hex_byte_def)

section \<open>Cookies\<close>

datatype same_site = Strict | Lax | Unrestricted

record cookie =
  c_name :: string
  c_value :: string
  c_path :: "string option"
  c_domain :: "string option"
  c_http_only :: bool
  c_secure :: bool
  c_same_site :: "same_site option"

definition SESSION_COOKIE :: string where
  "SESSION_COOKIE = ''__Host-v_session''"

definition REG_COOKIE :: string where
  "REG_COOKIE = ''__Host-v_reg''"

definition AUTH_COOKIE :: string where
  "AUTH_COOKIE = ''__Host-v_auth''"

definition build_cookie :: "string \<Rightarrow> string \<Rightarrow> cookie" where
  "build_cookie name value =
     \<lparr>c_name = name, c_value = value, c_path = Some ''/'', c_domain = None,
      c_http_only = True, c_secure = True, c_same_site = Some Lax\<rparr>"

definition clear_cookie :: "string \<Rightarrow> cookie" where
  "clear_cookie name =
     \<lparr>c_name = name, c_value = '''', c_path = Some ''/'', c_domain = None,
      c_http_only = True, c_secure = True, c_same_site = Some Lax\<rparr>"

text \<open>The rule of RFC 6265bis for a name with the prefix \<open>__Host-\<close>.\<close>

definition host_prefix_ok :: "cookie \<Rightarrow> bool" where
  "host_prefix_ok c \<longleftrightarrow>
     \<not> starts_with ''__Host-'' (c_name c)
     \<or> c_secure c \<and> c_path c = Some ''/'' \<and> c_domain c = None"

lemma cookie_names_distinct [simp]:
  "SESSION_COOKIE \<noteq> REG_COOKIE" "SESSION_COOKIE \<noteq> AUTH_COOKIE" "REG_COOKIE \<noteq> AUTH_COOKIE"
  "REG_COOKIE \<noteq> SESSION_COOKIE" "AUTH_COOKIE \<noteq> SESSION_COOKIE" "AUTH_COOKIE \<noteq> REG_COOKIE"
  by (simp_all add: SESSION_COOKIE_def REG_COOKIE_def AUTH_COOKIE_def)

datatype jar_op = JarAdd cookie | JarRemove cookie

type_synonym jar = "string \<Rightarrow> string option"

end
