(* ===== verification/Fs.thy ===== *)
theory Fs
  imports Prelude
begin

text \<open>
  The part of the file system that \<open>AuthState::persist\<close> (\<open>src/src/auth.rs\<close>) depends on:
  directory entries that name inodes, inode contents as the running system sees them and as
  they are on the disk after \<open>fsync\<close>, and the system calls \<open>open\<close> with truncation, \<open>write\<close> at a
  handle's offset, \<open>fsync\<close> and \<open>rename\<close>. A crash is a prefix of a sequence of calls;
  a power failure also takes back directory entries and loses or tears what was not synced.
\<close>

record fs =
  entry :: "string \<Rightarrow> nat option"
  content :: "nat \<Rightarrow> string"
  synced :: "nat \<Rightarrow> string"
  i_mode :: "nat \<Rightarrow> nat"
  next_inode :: nat

record handle =
  h_inode :: nat
  h_offset :: nat

definition file_at :: "fs \<Rightarrow> string \<Rightarrow> string option" where
  "file_at d p = map_option (content d) (entry d p)"

definition disk_file :: "fs \<Rightarrow> string \<Rightarrow> string option" where
  "disk_file d p = map_option (synced d) (entry d p)"

definition empty_fs :: fs where
  "empty_fs = \<lparr>entry = (\<lambda>_. None), content = (\<lambda>_. []), synced = (\<lambda>_. []), i_mode = (\<lambda>_. 0),
     next_inode = 0\<rparr>"

definition wf_fs :: "fs \<Rightarrow> bool" where
  "wf_fs d \<longleftrightarrow>
     (\<forall>p i. entry d p = Some i \<longrightarrow> i < next_inode d)
     \<and> (\<forall>p q i. entry d p = Some i \<longrightarrow> entry d q = Some i \<longrightarrow> p = q)"

section \<open>System calls\<close>

text \<open>\<open>0o600\<close>; the mode given to \<open>open\<close> applies only to a file it creates.\<close>

definition private_mode :: nat where
  "private_mode = 384"

definition open_private :: "string \<Rightarrow> fs \<Rightarrow> handle \<times> fs" where
  "open_private p d =
     (case entry d p of
        Some i \<Rightarrow> (\<lparr>h_inode = i, h_offset = 0\<rparr>, d\<lparr>content := (content d)(i := [])\<rparr>)
      | None \<Rightarrow>
          (let i = next_inode d
           in (\<lparr>h_inode = i, h_offset = 0\<rparr>,
               d\<lparr>entry := (entry d)(p := Some i), content := (content d)(i := []),
                 synced := (synced d)(i := []), i_mode := (i_mode d)(i := private_mode),
                 next_inode := Suc i\<rparr>)))"

definition splice :: "string \<Rightarrow> nat \<Rightarrow> string \<Rightarrow> string" where
  "splice old off new =
     take off (old @ replicate (off - length old) (CHR 0x00)) @ new @ drop (off + length new) old"

definition write_chunk :: "string \<Rightarrow> handle \<Rightarrow> fs \<Rightarrow> handle \<times> fs" where
  "write_chunk bs h d =
     (h\<lparr>h_offset := h_offset h + length bs\<rparr>,
      d\<lparr>content := (content d)(h_inode h := splice (content d (h_inode h)) (h_offset h) bs)\<rparr>)"

definition fsync :: "handle \<Rightarrow> fs \<Rightarrow> fs" where
  "fsync h d = d\<lparr>synced := (synced d)(h_inode h := content d (h_inode h))\<rparr>"

definition rename :: "string \<Rightarrow> string \<Rightarrow> fs \<Rightarrow> fs option" where
  "rename a b d =
     (case entry d a of
        None \<Rightarrow> None
      | Some i \<Rightarrow> Some (d\<lparr>entry := (entry d)(a := None, b := Some i)\<rparr>))"

datatype sys_op = OpenPrivate string | Write string | Fsync | Rename string string

text \<open>One call by a thread that holds at most one handle; \<open>None\<close> is a failed call.\<close>

fun sys_call :: "sys_op \<Rightarrow> handle option \<times> fs \<Rightarrow> (handle option \<times> fs) option" where
  "sys_call (OpenPrivate p) (_, d) = (case open_private p d of (h, d') \<Rightarrow> Some (Some h, d'))"
| "sys_call (Write bs) (Some h, d) = (case write_chunk bs h d of (h', d') \<Rightarrow> Some (Some h', d'))"
| "sys_call Fsync (Some h, d) = Some (Some h, fsync h d)"
| "sys_call (Rename a b) (h, d) = (case rename a b d of None \<Rightarrow> None | Some d' \<Rightarrow> Some (h, d'))"
| "sys_call _ (None, d) = None"

text \<open>
  A sequence of calls with the faults of the environment: call \<open>i\<close> fails when \<open>io_ok i\<close> does not
  hold. The first failure ends the sequence (the \<open>?\<close> of the code).
\<close>

fun sys_calls :: "(nat \<Rightarrow> bool) \<Rightarrow> nat \<Rightarrow> sys_op list \<Rightarrow> handle option \<times> fs \<Rightarrow> bool \<times> handle option \<times> fs"
  where
  "sys_calls io_ok i [] s = (True, s)"
| "sys_calls io_ok i (op # ops) s =
     (if \<not> io_ok i then (False, s)
      else case sys_call op s of
             None \<Rightarrow> (False, s)
           | Some s' \<Rightarrow> sys_calls io_ok (Suc i) ops s')"

text \<open>\<open>write_all\<close> writes its buffer in chunks that the operating system chooses.\<close>

definition replace_ops :: "string \<Rightarrow> string \<Rightarrow> string list \<Rightarrow> sys_op list" where
  "replace_ops tmp path chunks =
     OpenPrivate tmp # map Write chunks @ [Fsync, Rename tmp path]"

definition replace_file ::
  "(nat \<Rightarrow> bool) \<Rightarrow> string \<Rightarrow> string \<Rightarrow> string list \<Rightarrow> fs \<Rightarrow> bool \<times> fs" where
  "replace_file io_ok tmp path chunks d =
     (case sys_calls io_ok 0 (replace_ops tmp path chunks) (None, d) of (ok, _, d') \<Rightarrow> (ok, d'))"

text \<open>The file system a crash after \<open>n\<close> of the calls leaves.\<close>

definition crash_after :: "nat \<Rightarrow> string \<Rightarrow> string \<Rightarrow> string list \<Rightarrow> fs \<Rightarrow> fs" where
  "crash_after n tmp path chunks d =
     (case sys_calls (\<lambda>_. True) 0 (take n (replace_ops tmp path chunks)) (None, d) of
        (_, _, d') \<Rightarrow> d')"

section \<open>The temporary file while it is written\<close>

text \<open>
  Until the rename, \<open>path\<close> names the inode it named before, whose content is untouched, and
  \<open>tmp\<close> names another inode that holds what has been written so far.
\<close>

definition writing :: "fs \<Rightarrow> string \<Rightarrow> string \<Rightarrow> string \<Rightarrow> handle \<Rightarrow> fs \<Rightarrow> bool" where
  "writing d0 tmp path sofar h d \<longleftrightarrow>
     wf_fs d \<and> entry d tmp = Some (h_inode h) \<and> entry d path = entry d0 path
     \<and> content d (h_inode h) = sofar \<and> h_offset h = length sofar
     \<and> (\<forall>i. entry d0 path = Some i \<longrightarrow>
            i \<noteq> h_inode h \<and> content d i = content d0 i \<and> synced d i = synced d0 i)"

lemma splice_end [simp]: "splice s (length s) t = s @ t"
  by (simp add: splice_def)

lemma splice_Nil [simp]: "splice [] 0 t = t"
  by (simp add: splice_def)

lemma writing_open:
  assumes "wf_fs d0" and "tmp \<noteq> path"
  shows "writing d0 tmp path [] (fst (open_private tmp d0)) (snd (open_private tmp d0))"
proof (cases "entry d0 tmp")
  case None
  with assms show ?thesis
    by (auto simp: writing_def open_private_def wf_fs_def Let_def less_Suc_eq)
next
  case (Some i)
  with assms show ?thesis
    by (auto simp: writing_def open_private_def wf_fs_def)
qed

lemma writing_write:
  "writing d0 tmp path sofar h d \<Longrightarrow>
   writing d0 tmp path (sofar @ bs) (fst (write_chunk bs h d)) (snd (write_chunk bs h d))"
  by (auto simp: writing_def write_chunk_def wf_fs_def)

lemma writing_fsync:
  "writing d0 tmp path sofar h d \<Longrightarrow>
   writing d0 tmp path sofar h (fsync h d) \<and> synced (fsync h d) (h_inode h) = sofar"
  by (auto simp: writing_def fsync_def wf_fs_def)

lemma writing_path:
  "writing d0 tmp path sofar h d \<Longrightarrow> file_at d path = file_at d0 path \<and> disk_file d path = disk_file d0 path"
  by (cases "entry d0 path") (auto simp: writing_def file_at_def disk_file_def)

lemma writing_rename:
  assumes "writing d0 tmp path sofar h d" and "synced d (h_inode h) = sofar"
  obtains d' where "rename tmp path d = Some d'" and "wf_fs d'" and "file_at d' path = Some sofar"
    and "disk_file d' path = Some sofar"
proof -
  let ?d' = "d\<lparr>entry := (entry d)(tmp := None, path := Some (h_inode h))\<rparr>"
  have tmp: "entry d tmp = Some (h_inode h)" and "wf_fs d" and "content d (h_inode h) = sofar"
    using assms(1) by (auto simp: writing_def)
  moreover have "wf_fs ?d'" using \<open>wf_fs d\<close> tmp by (fastforce simp: wf_fs_def)
  ultimately show ?thesis
    using assms(2) by (intro that [of ?d']) (auto simp: rename_def file_at_def disk_file_def)
qed

text \<open>The calls after the open, from any state in which a part has been written.\<close>

lemma sys_calls_replace:
  assumes "writing d0 tmp path sofar h d"
    and "sys_calls io_ok i (take n (map Write chunks @ [Fsync, Rename tmp path])) (Some h, d)
           = (ok, h', d')"
  shows "wf_fs d'
    \<and> (file_at d' path = file_at d0 path \<and> disk_file d' path = disk_file d0 path
       \<or> file_at d' path = Some (sofar @ concat chunks) \<and> disk_file d' path = Some (sofar @ concat chunks))
    \<and> (n > Suc (length chunks) \<longrightarrow>
         (if ok then file_at d' path = Some (sofar @ concat chunks)
          else file_at d' path = file_at d0 path \<and> disk_file d' path = disk_file d0 path))"
  using assms
proof (induction chunks arbitrary: sofar h d i n)
  case Nil
  note w = writing_fsync [OF Nil.prems(1)]
  obtain e where e: "rename tmp path (fsync h d) = Some e" "wf_fs e" "file_at e path = Some sofar"
    "disk_file e path = Some sofar"
    using writing_rename [of d0 tmp path sofar h "fsync h d"] w by blast
  have wfs: "wf_fs d" "wf_fs (fsync h d)" using Nil.prems(1) w by (auto simp: writing_def)
  consider "n = 0" | "n = Suc 0" | m where "n = Suc (Suc m)" by (metis not0_implies_Suc)
  then show ?case
    by cases (use Nil.prems(2) wfs e writing_path [OF Nil.prems(1)] writing_path [of d0 tmp path sofar h "fsync h d"] w
        in \<open>auto split: if_splits option.splits\<close>)
next
  case (Cons c chunks)
  show ?case
  proof (cases n)
    case 0
    with Cons.prems writing_path [OF Cons.prems(1)] show ?thesis by (auto simp: writing_def)
  next
    case (Suc m)
    let ?w = "write_chunk c h d"
    have "writing d0 tmp path (sofar @ c) (fst ?w) (snd ?w)"
      by (rule writing_write [OF Cons.prems(1)])
    note IH = Cons.IH [OF this]
    show ?thesis
    proof (cases "io_ok i")
      case False
      with Suc Cons.prems writing_path [OF Cons.prems(1)] show ?thesis by (auto simp: writing_def)
    next
      case True
      with Suc Cons.prems(2) have "sys_calls io_ok (Suc i) (take m (map Write chunks @ [Fsync, Rename tmp path]))
          (Some (fst ?w), snd ?w) = (ok, h', d')"
        by (simp add: case_prod_beta)
      from IH [OF this] Suc show ?thesis by simp
    qed
  qed
qed

lemma sys_calls_replace_ops:
  assumes "wf_fs d" and "tmp \<noteq> path"
    and "sys_calls io_ok 0 (take n (replace_ops tmp path chunks)) (None, d) = (ok, h', d')"
  shows "wf_fs d'
    \<and> (file_at d' path = file_at d path \<and> disk_file d' path = disk_file d path
       \<or> file_at d' path = Some (concat chunks) \<and> disk_file d' path = Some (concat chunks))
    \<and> (n > Suc (Suc (length chunks)) \<longrightarrow>
         (if ok then file_at d' path = Some (concat chunks)
          else file_at d' path = file_at d path \<and> disk_file d' path = disk_file d path))"
proof (cases "n = 0 \<or> \<not> io_ok 0")
  case True
  with assms show ?thesis by (cases n) (auto simp: replace_ops_def)
next
  case False
  then obtain m where n: "n = Suc m" and "io_ok 0" by (cases n) auto
  with assms(3) have "sys_calls io_ok (Suc 0) (take m (map Write chunks @ [Fsync, Rename tmp path]))
      (Some (fst (open_private tmp d)), snd (open_private tmp d)) = (ok, h', d')"
    by (simp add: replace_ops_def case_prod_beta)
  from sys_calls_replace [OF writing_open [OF assms(1,2)] this] n show ?thesis by simp
qed

lemma replace_file_result:
  assumes "wf_fs d" and "tmp \<noteq> path" and "replace_file io_ok tmp path chunks d = (ok, d')"
  shows "wf_fs d'
    \<and> (if ok then file_at d' path = Some (concat chunks) else file_at d' path = file_at d path)"
proof -
  obtain h' where "sys_calls io_ok 0 (replace_ops tmp path chunks) (None, d) = (ok, h', d')"
    using assms(3) by (auto simp: replace_file_def split: prod.splits)
  then have "sys_calls io_ok 0 (take (length chunks + 3) (replace_ops tmp path chunks)) (None, d)
      = (ok, h', d')"
    by (simp add: replace_ops_def)
  from sys_calls_replace_ops [OF assms(1,2) this] show ?thesis by (auto split: if_splits)
qed

lemma crash_after_complete:
  assumes "wf_fs d" and "tmp \<noteq> path"
  shows "file_at (crash_after n tmp path chunks d) path \<in> {file_at d path, Some (concat chunks)}
    \<and> disk_file (crash_after n tmp path chunks d) path \<in> {disk_file d path, Some (concat chunks)}"
proof -
  obtain ok h' d' where
    "sys_calls (\<lambda>_. True) 0 (take n (replace_ops tmp path chunks)) (None, d) = (ok, h', d')"
    by (metis prod_cases3)
  with sys_calls_replace_ops [OF assms this] show ?thesis by (auto simp: crash_after_def)
qed

text \<open>Without a fault the replacement succeeds.\<close>

lemma sys_calls_no_fault:
  "entry d tmp \<noteq> None \<Longrightarrow>
   fst (sys_calls (\<lambda>_. True) i (map Write chunks @ [Fsync, Rename tmp path]) (Some h, d))"
proof (induction chunks arbitrary: h d i)
  case Nil
  then show ?case by (auto simp: fsync_def rename_def split: option.split)
next
  case (Cons c chunks)
  have "entry (snd (write_chunk c h d)) tmp \<noteq> None" using Cons.prems by (simp add: write_chunk_def)
  from Cons.IH [OF this] show ?case by (simp add: case_prod_beta)
qed

lemma replace_file_no_fault: "fst (replace_file (\<lambda>_. True) tmp path chunks d)"
proof -
  have "entry (snd (open_private tmp d)) tmp \<noteq> None"
    by (auto simp: open_private_def Let_def split: option.split)
  from sys_calls_no_fault [OF this] show ?thesis
    by (simp add: replace_file_def replace_ops_def case_prod_beta)
qed

section \<open>Power failures\<close>

text \<open>
  A power failure around a save of the credentials. \<open>persist\<close> (\<open>src/src/auth.rs\<close>) syncs the
  temporary file but not the directory, so what is found afterwards are the directory entries of
  some earlier moment \<open>old\<close>, and of each file what was synced, or anything where the system held
  something newer.
\<close>

definition power_loss :: "(nat \<Rightarrow> string) \<Rightarrow> fs \<Rightarrow> fs \<Rightarrow> fs" where
  "power_loss torn old d =
     (let found = (\<lambda>i. if content d i = synced d i then synced d i else torn i)
      in d\<lparr>entry := entry old, content := found, synced := found\<rparr>)"

text \<open>Calls on the handle of another inode leave a file alone.\<close>

lemma sys_calls_elsewhere:
  assumes "sys_calls io_ok k (take n (map Write chunks @ [Fsync, Rename tmp path])) (Some h, d) = (ok, h', d')"
    and "i \<noteq> h_inode h"
  shows "content d' i = content d i \<and> synced d' i = synced d i"
  using assms
proof (induction chunks arbitrary: n k h d)
  case Nil
  consider "n = 0" | "n = Suc 0" | m where "n = Suc (Suc m)" by (metis not0_implies_Suc)
  then show ?case
    by cases (use Nil in \<open>auto simp: fsync_def rename_def split: if_splits option.splits\<close>)
next
  case (Cons c chunks)
  show ?case
  proof (cases n)
    case (Suc m)
    show ?thesis
    proof (cases "io_ok k")
      case True
      let ?w = "write_chunk c h d"
      have "sys_calls io_ok (Suc k) (take m (map Write chunks @ [Fsync, Rename tmp path])) (Some (fst ?w), snd ?w) = (ok, h', d')"
        using Cons.prems(1) Suc True by (simp add: case_prod_beta)
      from Cons.IH [OF this] Cons.prems(2) show ?thesis by (simp add: write_chunk_def)
    qed (use Cons.prems Suc in auto)
  qed (use Cons.prems in auto)
qed

lemma crash_after_elsewhere:
  assumes "wf_fs d" and "tmp \<noteq> path" and "entry d path = Some i"
  shows "content (crash_after n tmp path chunks d) i = content d i \<and> synced (crash_after n tmp path chunks d) i = synced d i"
proof (cases n)
  case 0
  then show ?thesis by (simp add: crash_after_def)
next
  case (Suc m)
  let ?o = "open_private tmp d"
  have w: "writing d tmp path [] (fst ?o) (snd ?o)" by (rule writing_open [OF assms(1,2)])
  then have o: "i \<noteq> h_inode (fst ?o)" "content (snd ?o) i = content d i" "synced (snd ?o) i = synced d i"
    using assms(3) by (auto simp: writing_def)
  obtain ok h' d' where run: "sys_calls (\<lambda>_. True) (Suc 0) (take m (map Write chunks @ [Fsync, Rename tmp path]))
      (Some (fst ?o), snd ?o) = (ok, h', d')" by (metis surj_pair)
  then have "crash_after n tmp path chunks d = d'"
    by (simp add: crash_after_def replace_ops_def Suc case_prod_beta)
  with sys_calls_elsewhere [OF run o(1)] o show ?thesis by simp
qed


lemma crash_after_complete_sync:
  assumes "wf_fs d" and "tmp \<noteq> path" and "disk_file d path = file_at d path"
  shows "disk_file (crash_after n tmp path chunks d) path = file_at (crash_after n tmp path chunks d) path"
proof -
  obtain ok h' d' where
    "sys_calls (\<lambda>_. True) 0 (take n (replace_ops tmp path chunks)) (None, d) = (ok, h', d')"
    by (metis prod_cases3)
  with sys_calls_replace_ops [OF assms(1,2) this] assms(3) show ?thesis by (auto simp: crash_after_def)
qed

text \<open>Only the last call renames.\<close>

lemma sys_calls_entries:
  assumes "sys_calls io_ok k (take n (map Write chunks @ [Fsync])) (Some h, d) = (ok, h', d')"
  shows "entry d' = entry d"
  using assms
proof (induction chunks arbitrary: n k h d)
  case Nil
  then show ?case by (cases n) (auto simp: fsync_def split: if_splits)
next
  case (Cons c chunks)
  then show ?case
  proof (cases n)
    case (Suc m)
    with Cons show ?thesis
      by (auto simp: case_prod_beta write_chunk_def split: if_splits)
  qed simp
qed

lemma crash_after_entries:
  assumes "tmp \<noteq> path" and "n < length (replace_ops tmp path chunks)"
  shows "entry (crash_after n tmp path chunks d) path = entry d path"
proof (cases n)
  case (Suc m)
  let ?o = "open_private tmp d"
  have "take m (map Write chunks @ [Fsync, Rename tmp path]) = take m (map Write chunks @ [Fsync])"
    using assms(2) Suc by (auto simp: replace_ops_def take_Cons')
  moreover obtain ok h' d' where run: "sys_calls (\<lambda>_. True) (Suc 0) (take m (map Write chunks @ [Fsync]))
      (Some (fst ?o), snd ?o) = (ok, h', d')" by (metis surj_pair)
  ultimately have "crash_after n tmp path chunks d = d'"
    by (simp add: crash_after_def replace_ops_def Suc case_prod_beta)
  with sys_calls_entries [OF run] assms(1) show ?thesis
    by (auto simp: open_private_def Let_def split: option.split)
qed (simp add: crash_after_def)

lemma crash_after_all:
  "n \<ge> length (replace_ops tmp path chunks) \<Longrightarrow>
   crash_after n tmp path chunks d = crash_after (length (replace_ops tmp path chunks)) tmp path chunks d"
  by (simp add: crash_after_def)

lemma power_loss_file:
  assumes "wf_fs d" and "tmp \<noteq> path" and "disk_file d path = file_at d path" and "k \<le> n"
  shows "file_at (power_loss torn (crash_after k tmp path chunks d) (crash_after n tmp path chunks d)) path
    \<in> {file_at d path, Some (concat chunks)}"
proof (cases "k < length (replace_ops tmp path chunks)")
  case True
  with assms show ?thesis
    using crash_after_entries [OF assms(2) True, of d] crash_after_elsewhere [OF assms(1,2)]
    by (cases "entry d path") (auto simp: power_loss_def Let_def file_at_def disk_file_def)
next
  case False
  let ?d = "crash_after n tmp path chunks d"
  have "crash_after k tmp path chunks d = ?d"
    using False assms(4) crash_after_all [of tmp path chunks k d] crash_after_all [of tmp path chunks n d] by simp
  moreover have "file_at ?d path = disk_file ?d path" "file_at ?d path \<in> {file_at d path, Some (concat chunks)}"
    using crash_after_complete_sync [OF assms(1-3), of n chunks] crash_after_complete [OF assms(1,2), of n chunks] by auto
  ultimately show ?thesis
    by (cases "entry ?d path") (auto simp: power_loss_def Let_def file_at_def disk_file_def)
qed

end
