(* ===== verification/Auth_State.thy ===== *)
theory Auth_State
  imports Expiring_Map Cookies Fs
begin

text \<open>
  \<open>AuthState\<close> of \<open>src/src/auth.rs\<close>: its fields, construction from the disk, persistence,
  the session check, session creation and the sweep.

  Values of the package \<open>webauthn-rs\<close> (passkeys, credential ids, ceremony states, challenges,
  responses) are opaque: they have the type variable \<open>'w\<close>, and the package's functions are
  the fields of a parameter of type \<open>webauthn\<close>. The JSON encoding of the credential store is a
  parameter of type \<open>codec\<close>. The state carries the file system that \<open>persist\<close> writes to.
\<close>

definition SESSION_TTL :: time where
  "SESSION_TTL = from_secs (60 * 60 * 12)"

definition CEREMONY_TTL :: time where
  "CEREMONY_TTL = from_secs 300"

type_synonym uuid = "128 word"

record 'w webauthn =
  start_reg :: "nat \<Rightarrow> uuid \<Rightarrow> string \<Rightarrow> string \<Rightarrow> 'w list option \<Rightarrow> string + 'w \<times> 'w"
  finish_reg :: "'w \<Rightarrow> 'w \<Rightarrow> string + 'w"
  start_auth :: "nat \<Rightarrow> 'w list \<Rightarrow> string + 'w \<times> 'w"
  finish_auth :: "'w \<Rightarrow> 'w \<Rightarrow> string + 'w"
  cred_id :: "'w \<Rightarrow> 'w"
  update_credential :: "'w \<Rightarrow> 'w \<Rightarrow> 'w"

record 'w cred_store =
  user_id :: "uuid option"
  passkeys :: "'w list"

definition default_store :: "'w cred_store" where
  "default_store = \<lparr>user_id = None, passkeys = []\<rparr>"

record 'w codec =
  to_json :: "'w cred_store \<Rightarrow> string option"
  from_json :: "string \<Rightarrow> 'w cred_store option"

text \<open>What \<open>serde_json\<close> documents: a value that serialises is read back as it was.\<close>

definition codec_ok :: "'w codec \<Rightarrow> bool" where
  "codec_ok c \<longleftrightarrow> (\<forall>s j. to_json c s = Some j \<longrightarrow> from_json c j = Some s)"

datatype reg_mode = Bootstrap | AddDevice

type_synonym 'w pending_reg = "'w \<times> reg_mode \<times> time"
type_synonym 'w pending_auth = "'w \<times> time"

definition reg_exp :: "'w pending_reg \<Rightarrow> time" where
  "reg_exp v = snd (snd v)"

definition auth_exp :: "'w pending_auth \<Rightarrow> time" where
  "auth_exp v = snd v"

record 'w auth_state =
  a_path :: string
  a_store :: "'w cred_store mutex"
  a_reg :: "'w pending_reg hmap mutex"
  a_auth :: "'w pending_auth hmap mutex"
  a_sessions :: "time hmap mutex"
  a_bootstrap :: "string option mutex"
  a_disk :: fs

text \<open>
  The outside of one request: the readings of the clock in program order (all the readings of
  one \<open>retain\<close> count as one), the bytes that \<open>hex32\<close> draws, a fresh UUID, the seed of the
  library's own challenge, and the file system's behaviour.
\<close>

record env =
  clk :: "nat \<Rightarrow> time"
  rand32 :: "u8 list"
  uuid4 :: uuid
  wa_seed :: nat
  io_ok :: "nat \<Rightarrow> bool"
  io_split :: "string \<Rightarrow> string list"

text \<open>\<open>write_all\<close> writes all of its buffer, whatever the chunks.\<close>

definition env_ok :: "env \<Rightarrow> bool" where
  "env_ok e \<longleftrightarrow> (\<forall>s. concat (io_split e s) = s)"

section \<open>Paths\<close>

definition path_join :: "string \<Rightarrow> string \<Rightarrow> string" where
  "path_join d f = (if d = [] then f else if last d = CHR ''/'' then d @ f else d @ ''/'' @ f)"

definition file_name :: "string \<Rightarrow> string" where
  "file_name p = rev (takeWhile (\<lambda>c. c \<noteq> CHR ''/'') (rev p))"

definition file_stem :: "string \<Rightarrow> string" where
  "file_stem n =
     (let stem = drop (Suc (length (takeWhile (\<lambda>c. c \<noteq> CHR ''.'') (rev n)))) (rev n)
      in if stem = [] then n else rev stem)"

definition with_extension :: "string \<Rightarrow> string \<Rightarrow> string" where
  "with_extension p ext =
     take (length p - length (file_name p)) p @ file_stem (file_name p) @ ''.'' @ ext"

definition tmp_path :: "string \<Rightarrow> string" where
  "tmp_path p = with_extension p ''json.tmp''"

definition dir_prefix :: "string \<Rightarrow> string" where
  "dir_prefix d = (if d = [] \<or> last d = CHR ''/'' then d else d @ ''/'')"

lemma path_join_prefix: "path_join d f = dir_prefix d @ f"
  by (simp add: path_join_def dir_prefix_def)

lemma file_name_join:
  assumes "CHR ''/'' \<notin> set f"
  shows "file_name (dir_prefix d @ f) = f"
proof (cases "dir_prefix d" rule: rev_cases)
  case Nil
  moreover have "takeWhile (\<lambda>c. c \<noteq> CHR ''/'') (rev f) = rev f"
    using assms by (auto simp: takeWhile_eq_all_conv)
  ultimately show ?thesis by (simp only: file_name_def append_Nil rev_rev_ident)
next
  case (snoc p c)
  then have "c = CHR ''/''" by (auto simp: dir_prefix_def split: if_splits)
  moreover have "takeWhile (\<lambda>c. c \<noteq> CHR ''/'') (rev f @ CHR ''/'' # rev p) = rev f"
    using assms by (subst takeWhile_append2) auto
  ultimately show ?thesis using snoc by (simp add: file_name_def)
qed

lemma tmp_path_join: "tmp_path (path_join d ''auth.json'') = path_join d ''auth.json.tmp''"
proof -
  have "file_stem ''auth.json'' = ''auth''" by (simp add: file_stem_def)
  then show ?thesis
    by (simp add: tmp_path_def with_extension_def path_join_prefix file_name_join)
qed

lemma tmp_path_neq: "tmp_path (path_join d ''auth.json'') \<noteq> path_join d ''auth.json''"
  unfolding tmp_path_join by (simp add: path_join_def)

section \<open>Construction\<close>

text \<open>What \<open>new\<close> asks of the packages and of the operating system.\<close>

record 'w platform =
  parse_url :: "string \<Rightarrow> string + 'w"
  build_webauthn :: "string \<Rightarrow> 'w \<Rightarrow> string + 'w webauthn"

record boot_env =
  mkdir_ok :: bool
  stat_ok :: bool
  read_ok :: bool
  boot_rand :: "u8 list"

text \<open>\<open>Path::exists\<close> is \<open>false\<close> when the file cannot be examined, as well as when it is absent.\<close>

definition path_exists :: "boot_env \<Rightarrow> fs \<Rightarrow> string \<Rightarrow> bool" where
  "path_exists b d p \<longleftrightarrow> stat_ok b \<and> entry d p \<noteq> None"

definition load_store :: "'w codec \<Rightarrow> boot_env \<Rightarrow> fs \<Rightarrow> string \<Rightarrow> string + 'w cred_store" where
  "load_store c b d p =
     (if path_exists b d p
      then if read_ok b
           then case from_json c (the (file_at d p)) of
                  None \<Rightarrow> Inl ''parsing''
                | Some s \<Rightarrow> Inr s
           else Inl ''reading''
      else Inr default_store)"

definition fresh_auth_state :: "boot_env \<Rightarrow> fs \<Rightarrow> string \<Rightarrow> 'w cred_store \<Rightarrow> 'w auth_state" where
  "fresh_auth_state b d p s =
     \<lparr>a_path = p, a_store = new_mutex s, a_reg = new_mutex [], a_auth = new_mutex [],
      a_sessions = new_mutex [],
      a_bootstrap = new_mutex (if passkeys s = [] then Some (hex32 (boot_rand b)) else None),
      a_disk = d\<rparr>"

definition auth_new ::
  "'w platform \<Rightarrow> 'w codec \<Rightarrow> boot_env \<Rightarrow> fs \<Rightarrow> string \<Rightarrow> string \<Rightarrow> string
     \<Rightarrow> string + 'w webauthn \<times> 'w auth_state" where
  "auth_new pf c b d rp_id rp_origin data_dir =
     (case parse_url pf rp_origin of
        Inl e \<Rightarrow> Inl ''rp_origin must be a URL''
      | Inr origin \<Rightarrow>
          (case build_webauthn pf rp_id origin of
             Inl e \<Rightarrow> Inl e
           | Inr w \<Rightarrow>
               if \<not> mkdir_ok b then Inl ''creating data_dir''
               else let p = path_join data_dir ''auth.json''
                    in case load_store c b d p of
                         Inl e \<Rightarrow> Inl e
                       | Inr s \<Rightarrow> Inr (w, fresh_auth_state b d p s)))"

section \<open>Persistence\<close>

definition persist :: "'w codec \<Rightarrow> env \<Rightarrow> ('w auth_state, string, unit) prog" where
  "persist c e a =
     (case lock (a_store a) of
        None \<Rightarrow> (Err ''store lock poisoned'', a)
      | Some s \<Rightarrow>
          (case to_json c s of
             None \<Rightarrow> (Err ''serialize'', a)
           | Some json \<Rightarrow>
               (case replace_file (io_ok e) (tmp_path (a_path a)) (a_path a) (io_split e json) (a_disk a) of
                  (ok, d) \<Rightarrow> (if ok then Ok () else Err ''io'', a\<lparr>a_disk := d\<rparr>))))"

section \<open>Sessions\<close>

text \<open>Fails closed: a store that cannot be read counts as registered.\<close>

definition registered :: "'w auth_state \<Rightarrow> bool" where
  "registered a = (case lock (a_store a) of None \<Rightarrow> True | Some s \<Rightarrow> passkeys s \<noteq> [])"

definition session_valid :: "time \<Rightarrow> jar \<Rightarrow> ('w auth_state, 'e, bool) prog" where
  "session_valid now jar =
     (case jar SESSION_COOKIE of
        None \<Rightarrow> ret False
      | Some tok \<Rightarrow>
          with_lock a_sessions (\<lambda>s a.
            case hget s tok of
              Some expiry \<Rightarrow>
                if now < expiry then (Ok True, a)
                else (Ok False, a\<lparr>a_sessions := put (hremove tok s) (a_sessions a)\<rparr>)
            | None \<Rightarrow> (Ok False, a)))"

definition new_session :: "time \<Rightarrow> time \<Rightarrow> u8 list \<Rightarrow> ('w auth_state, 'e, cookie) prog" where
  "new_session now1 now2 bytes =
     (let token = hex32 bytes
      in with_lock a_sessions (\<lambda>s a.
           (Ok (build_cookie SESSION_COOKIE token),
            a\<lparr>a_sessions := put (session_insert now1 token (now2 + SESSION_TTL) s) (a_sessions a)\<rparr>)))"

definition bootstrap_token :: "'w auth_state \<Rightarrow> string option" where
  "bootstrap_token a = (case lock (a_bootstrap a) of None \<Rightarrow> None | Some t \<Rightarrow> t)"

text \<open>A poisoned map is skipped, as \<open>if let Ok\<close> does.\<close>

definition retain_mutex :: "('v \<Rightarrow> bool) \<Rightarrow> 'v hmap mutex \<Rightarrow> 'v hmap mutex" where
  "retain_mutex p m = (case lock m of None \<Rightarrow> m | Some x \<Rightarrow> put (hretain p x) m)"

definition sweep :: "time \<Rightarrow> 'w auth_state \<Rightarrow> 'w auth_state" where
  "sweep now a =
     a\<lparr>a_reg := retain_mutex (\<lambda>v. now < reg_exp v) (a_reg a),
       a_auth := retain_mutex (\<lambda>v. now < auth_exp v) (a_auth a),
       a_sessions := retain_mutex (\<lambda>v. now < v) (a_sessions a)\<rparr>"

section \<open>The three maps are expiring maps\<close>

interpretation reg_map: expiring_map "insert_capped reg_exp" reg_exp MAX_CEREMONIES
  by (rule expiring_map_insert_capped)

interpretation auth_map: expiring_map "insert_capped auth_exp" auth_exp MAX_CEREMONIES
  by (rule expiring_map_insert_capped)

interpretation session_map: expiring_map session_insert "\<lambda>v. v" MAX_SESSIONS
  by (rule expiring_map_session_insert)

end
