(* ===== verification/Auth_Handlers.thy ===== *)
theory Auth_Handlers
  imports Auth_State
begin

text \<open>
  The HTTP handlers of \<open>src/src/auth.rs\<close>. Each is a program on \<open>auth_state\<close>, composed of one
  definition per critical section in the order of the code; the same sections are the atomic
  steps of the interleaving model. \<open>AppState.auth\<close> is an option, and \<open>on_auth\<close> is the
  \<open>ok_or((NOT_FOUND, "auth off"))\<close> each ceremony handler starts with.
\<close>

datatype status_code =
  OK | SEE_OTHER | BAD_REQUEST | UNAUTHORIZED | FORBIDDEN | NOT_FOUND | METHOD_NOT_ALLOWED
| UNSUPPORTED_MEDIA_TYPE | UNPROCESSABLE_ENTITY | INTERNAL_SERVER_ERROR | SERVICE_UNAVAILABLE

text \<open>The texts of the error responses, by the place that gives them.\<close>

datatype message =
  AuthOff              \<comment> \<open>auth off\<close>
| AdminExists          \<comment> \<open>an admin already exists, sign in\<close>
| EnrolmentClosed      \<comment> \<open>enrolment is closed\<close>
| CodeRequired         \<comment> \<open>enrolment code required\<close>
| NoCeremony           \<comment> \<open>no ceremony\<close>
| CeremonyExpired      \<comment> \<open>ceremony expired\<close>
| AlreadyEnrolled      \<comment> \<open>credential already enrolled\<close>
| SaveFailed           \<comment> \<open>could not save credential\<close>
| NoAccount            \<comment> \<open>no account yet\<close>
| Library string       \<comment> \<open>the error text of \<open>webauthn-rs\<close>\<close>

type_synonym http_error = "status_code \<times> message"

type_synonym ('w, 'a) handler = "('w auth_state, http_error, 'a) prog"

definition on_auth :: "('w, 'a) handler \<Rightarrow> ('w auth_state option, http_error, 'a) prog" where
  "on_auth h s =
     (case s of
        None \<Rightarrow> (Err (NOT_FOUND, AuthOff), None)
      | Some a \<Rightarrow> (case h a of (r, a') \<Rightarrow> (r, Some a')))"

section \<open>Registration\<close>

definition reg_mode_of :: "bool \<Rightarrow> ('w, reg_mode) handler" where
  "reg_mode_of signed_in a =
     (case (registered a, signed_in) of
        (False, _) \<Rightarrow> (Ok Bootstrap, a)
      | (True, True) \<Rightarrow> (Ok AddDevice, a)
      | (True, False) \<Rightarrow> (Err (FORBIDDEN, AdminExists), a))"

text \<open>The body is \<open>Option<Json<RegisterStart>>\<close>, whose only field is an optional token.\<close>

definition check_code :: "reg_mode \<Rightarrow> string option option \<Rightarrow> ('w, unit) handler" where
  "check_code mode body a =
     (if mode = Bootstrap
      then case bootstrap_token a of
             None \<Rightarrow> (Err (FORBIDDEN, EnrolmentClosed), a)
           | Some expected \<Rightarrow>
               (let given = (case body of Some (Some t) \<Rightarrow> t | _ \<Rightarrow> [])
                in if \<not> ct_eq (as_bytes (trim given)) (as_bytes expected)
                   then (Err (FORBIDDEN, CodeRequired), a)
                   else (Ok (), a))
      else (Ok (), a))"

definition intended_user :: "'w webauthn \<Rightarrow> env \<Rightarrow> ('w, uuid \<times> 'w list option) handler" where
  "intended_user w e =
     with_lock a_store (\<lambda>s.
       let uid = (case user_id s of Some u \<Rightarrow> u | None \<Rightarrow> uuid4 e);
           ex = map (cred_id w) (passkeys s)
       in ret (uid, if ex = [] then None else Some ex))"

definition remember_user :: "uuid \<Rightarrow> ('w, unit) handler" where
  "remember_user uid =
     with_lock a_store (\<lambda>s a.
       (Ok (),
        a\<lparr>a_store := put (s\<lparr>user_id := (case user_id s of Some u \<Rightarrow> Some u | None \<Rightarrow> Some uid)\<rparr>)
            (a_store a)\<rparr>))"

definition park_reg :: "env \<Rightarrow> 'w \<Rightarrow> reg_mode \<Rightarrow> ('w, unit) handler" where
  "park_reg e reg_state mode =
     with_lock a_reg (\<lambda>m a.
       (Ok (),
        a\<lparr>a_reg := put (insert_capped reg_exp (clk e 2) (hex32 (rand32 e))
            (reg_state, mode, clk e 1 + CEREMONY_TTL) m) (a_reg a)\<rparr>))"

definition register_start ::
  "'w webauthn \<Rightarrow> env \<Rightarrow> jar \<Rightarrow> string option option \<Rightarrow> ('w, jar_op list \<times> 'w) handler" where
  "register_start w e jar body =
     bind (session_valid (clk e 0) jar) (\<lambda>signed_in.
     bind (reg_mode_of signed_in) (\<lambda>mode.
     bind (check_code mode body) (\<lambda>_.
     bind (intended_user w e) (\<lambda>(uid, exclude).
       case start_reg w (wa_seed e) uid ''admin'' ''admin'' exclude of
         Inl err \<Rightarrow> throw (INTERNAL_SERVER_ERROR, Library err)
       | Inr (ccr, reg_state) \<Rightarrow>
           bind (remember_user uid) (\<lambda>_.
           bind (park_reg e reg_state mode) (\<lambda>_.
           ret ([JarAdd (build_cookie REG_COOKIE (hex32 (rand32 e)))], ccr)))))))"

text \<open>The ceremony is removed from the map before anything is checked.\<close>

definition take_reg :: "time \<Rightarrow> string \<Rightarrow> ('w, 'w \<times> reg_mode) handler" where
  "take_reg now rid =
     with_lock a_reg (\<lambda>m a.
       case hget m rid of
         None \<Rightarrow> (Err (BAD_REQUEST, CeremonyExpired), a)
       | Some (st, mode, expiry) \<Rightarrow>
           (let a' = a\<lparr>a_reg := put (hremove rid m) (a_reg a)\<rparr>
            in if expiry \<le> now then (Err (BAD_REQUEST, CeremonyExpired), a') else (Ok (st, mode), a')))"

text \<open>
  The section under the store lock: the authorisation is checked again, the credential must be
  new, then it is pushed. The session check locks the session map inside.
\<close>

definition enrol :: "'w webauthn \<Rightarrow> time \<Rightarrow> jar \<Rightarrow> reg_mode \<Rightarrow> 'w \<Rightarrow> ('w, unit) handler" where
  "enrol w now jar mode pk =
     with_lock a_store (\<lambda>s.
       bind (case mode of
               Bootstrap \<Rightarrow> ret (passkeys s = [])
             | AddDevice \<Rightarrow> session_valid now jar) (\<lambda>allowed.
       if \<not> allowed then throw (FORBIDDEN, AdminExists)
       else if cred_id w pk \<in> set (map (cred_id w) (passkeys s))
       then throw (BAD_REQUEST, AlreadyEnrolled)
       else (\<lambda>a. (Ok (), a\<lparr>a_store := put (s\<lparr>passkeys := passkeys s @ [pk]\<rparr>) (a_store a)\<rparr>))))"

definition undo_push :: "('w, unit) handler" where
  "undo_push =
     with_lock a_store (\<lambda>s a.
       (Ok (), a\<lparr>a_store := put (s\<lparr>passkeys := butlast (passkeys s)\<rparr>) (a_store a)\<rparr>))"

definition persist_or_undo :: "'w codec \<Rightarrow> env \<Rightarrow> ('w, unit) handler" where
  "persist_or_undo c e a =
     (case persist c e a of
        (Ok _, a') \<Rightarrow> (Ok (), a')
      | (Err _, a') \<Rightarrow> bind undo_push (\<lambda>_. throw (INTERNAL_SERVER_ERROR, SaveFailed)) a'
      | (Panic, a') \<Rightarrow> (Panic, a'))"

definition close_bootstrap :: "reg_mode \<Rightarrow> ('w, unit) handler" where
  "close_bootstrap mode =
     (if mode = Bootstrap
      then bind (with_lock a_reg (\<lambda>m a. (Ok (), a\<lparr>a_reg := put [] (a_reg a)\<rparr>))) (\<lambda>_.
           with_lock a_bootstrap (\<lambda>t a. (Ok (), a\<lparr>a_bootstrap := put None (a_bootstrap a)\<rparr>)))
      else ret ())"

definition register_finish ::
  "'w webauthn \<Rightarrow> 'w codec \<Rightarrow> env \<Rightarrow> jar \<Rightarrow> 'w \<Rightarrow> ('w, jar_op list \<times> status_code) handler" where
  "register_finish w c e jar cred =
     (case jar REG_COOKIE of
        None \<Rightarrow> throw (BAD_REQUEST, NoCeremony)
      | Some rid \<Rightarrow>
          bind (take_reg (clk e 0) rid) (\<lambda>(reg_state, mode).
          case finish_reg w cred reg_state of
            Inl err \<Rightarrow> throw (BAD_REQUEST, Library err)
          | Inr pk \<Rightarrow>
              bind (enrol w (clk e 1) jar mode pk) (\<lambda>_.
              bind (persist_or_undo c e) (\<lambda>_.
              bind (close_bootstrap mode) (\<lambda>_.
              bind (new_session (clk e 2) (clk e 3) (rand32 e)) (\<lambda>session.
              ret ([JarRemove (clear_cookie REG_COOKIE), JarAdd session], OK)))))))"

section \<open>Sign-in\<close>

definition login_start :: "'w webauthn \<Rightarrow> env \<Rightarrow> ('w, jar_op list \<times> 'w) handler" where
  "login_start w e =
     bind (with_lock a_store (\<lambda>s. ret (passkeys s))) (\<lambda>pks.
     if pks = [] then throw (BAD_REQUEST, NoAccount)
     else case start_auth w (wa_seed e) pks of
            Inl err \<Rightarrow> throw (INTERNAL_SERVER_ERROR, Library err)
          | Inr (rcr, auth_state) \<Rightarrow>
              bind (with_lock a_auth (\<lambda>m a.
                     (Ok (),
                      a\<lparr>a_auth := put (insert_capped auth_exp (clk e 1) (hex32 (rand32 e))
                          (auth_state, clk e 0 + CEREMONY_TTL) m) (a_auth a)\<rparr>))) (\<lambda>_.
              ret ([JarAdd (build_cookie AUTH_COOKIE (hex32 (rand32 e)))], rcr)))"

definition take_auth :: "time \<Rightarrow> string \<Rightarrow> ('w, 'w) handler" where
  "take_auth now aid =
     with_lock a_auth (\<lambda>m a.
       case hget m aid of
         None \<Rightarrow> (Err (BAD_REQUEST, CeremonyExpired), a)
       | Some (st, expiry) \<Rightarrow>
           (let a' = a\<lparr>a_auth := put (hremove aid m) (a_auth a)\<rparr>
            in if expiry \<le> now then (Err (BAD_REQUEST, CeremonyExpired), a') else (Ok st, a')))"

definition bump_counters :: "'w webauthn \<Rightarrow> 'w \<Rightarrow> ('w, unit) handler" where
  "bump_counters w result =
     with_lock a_store (\<lambda>s a.
       (Ok (),
        a\<lparr>a_store := put (s\<lparr>passkeys := map (update_credential w result) (passkeys s)\<rparr>) (a_store a)\<rparr>))"

text \<open>A failed write of the counters is logged and ignored.\<close>

definition persist_best_effort :: "'w codec \<Rightarrow> env \<Rightarrow> ('w, unit) handler" where
  "persist_best_effort c e a =
     (case persist c e a of
        (Ok _, a') \<Rightarrow> (Ok (), a')
      | (Err _, a') \<Rightarrow> (Ok (), a')
      | (Panic, a') \<Rightarrow> (Panic, a'))"

definition login_finish ::
  "'w webauthn \<Rightarrow> 'w codec \<Rightarrow> env \<Rightarrow> jar \<Rightarrow> 'w \<Rightarrow> ('w, jar_op list \<times> status_code) handler" where
  "login_finish w c e jar cred =
     (case jar AUTH_COOKIE of
        None \<Rightarrow> throw (BAD_REQUEST, NoCeremony)
      | Some aid \<Rightarrow>
          bind (take_auth (clk e 0) aid) (\<lambda>auth_state.
          case finish_auth w cred auth_state of
            Inl err \<Rightarrow> throw (UNAUTHORIZED, Library err)
          | Inr result \<Rightarrow>
              bind (bump_counters w result) (\<lambda>_.
              bind (persist_best_effort c e) (\<lambda>_.
              bind (new_session (clk e 1) (clk e 2) (rand32 e)) (\<lambda>session.
              ret ([JarRemove (clear_cookie AUTH_COOKIE), JarAdd session], OK))))))"

section \<open>Sign-out and the pages\<close>

definition logout :: "jar \<Rightarrow> ('w auth_state option, 'e, jar_op list \<times> status_code \<times> string) prog" where
  "logout jar s =
     (case (s, jar SESSION_COOKIE) of
        (Some a, Some tok) \<Rightarrow>
          (case lock (a_sessions a) of
             None \<Rightarrow> (Panic, Some a)
           | Some m \<Rightarrow>
               (Ok ([JarRemove (clear_cookie SESSION_COOKIE)], SEE_OTHER, ''/''),
                Some (a\<lparr>a_sessions := put (hremove tok m) (a_sessions a)\<rparr>)))
      | _ \<Rightarrow> (Ok ([JarRemove (clear_cookie SESSION_COOKIE)], SEE_OTHER, ''/''), s))"

datatype page = Dashboard | Login

definition lift_auth :: "('w auth_state, 'e, 'a) prog \<Rightarrow> 'a \<Rightarrow> ('w auth_state option, 'e, 'a) prog" where
  "lift_auth h off s =
     (case s of
        None \<Rightarrow> (Ok off, None)
      | Some a \<Rightarrow> (case h a of (r, a') \<Rightarrow> (r, Some a')))"

definition index :: "time \<Rightarrow> jar \<Rightarrow> ('w auth_state option, 'e, page) prog" where
  "index now jar =
     lift_auth (bind (session_valid now jar) (\<lambda>ok. ret (if ok then Dashboard else Login))) Dashboard"

text \<open>\<open>/auth/status\<close>: whether an admin is registered and whether the caller is signed in.\<close>

definition auth_status :: "time \<Rightarrow> jar \<Rightarrow> ('w auth_state option, 'e, bool \<times> bool) prog" where
  "auth_status now jar =
     lift_auth (bind (\<lambda>a. (Ok (registered a), a)) (\<lambda>r.
                bind (session_valid now jar) (\<lambda>s. ret (r, s)))) (True, True)"

end
