(* ===== verification/Auth_Inv.thy ===== *)
theory Auth_Inv
  imports Auth_Handlers "HOL-Library.Multiset"
begin

text \<open>
  The invariant of the authentication state under whole handlers, executed one at a time in any
  order: the maps stay within their caps, no two credentials share an id, the bootstrap code
  exists exactly while no credential does, and the file on disk holds the credentials that are
  in memory.
\<close>

text \<open>What \<open>webauthn-rs\<close> documents: updating a credential after a sign-in keeps its id.\<close>

definition wa_ok :: "'w webauthn \<Rightarrow> bool" where
  "wa_ok w \<longleftrightarrow> (\<forall>r p. cred_id w (update_credential w r p) = cred_id w p)"

definition creds :: "'w auth_state \<Rightarrow> 'w list" where
  "creds a = passkeys (inner (a_store a))"

definition cred_ids :: "'w webauthn \<Rightarrow> 'w auth_state \<Rightarrow> 'w list" where
  "cred_ids w a = map (cred_id w) (creds a)"

definition clean :: "'w auth_state \<Rightarrow> bool" where
  "clean a \<longleftrightarrow>
     \<not> poisoned (a_store a) \<and> \<not> poisoned (a_reg a) \<and> \<not> poisoned (a_auth a)
     \<and> \<not> poisoned (a_sessions a) \<and> \<not> poisoned (a_bootstrap a)"

definition maps_ok :: "'w auth_state \<Rightarrow> bool" where
  "maps_ok a \<longleftrightarrow>
     wf_hmap (inner (a_reg a)) \<and> length (inner (a_reg a)) \<le> MAX_CEREMONIES
     \<and> wf_hmap (inner (a_auth a)) \<and> length (inner (a_auth a)) \<le> MAX_CEREMONIES
     \<and> wf_hmap (inner (a_sessions a)) \<and> length (inner (a_sessions a)) \<le> MAX_SESSIONS"

definition bootstrap_ok :: "'w auth_state \<Rightarrow> bool" where
  "bootstrap_ok a \<longleftrightarrow> (inner (a_bootstrap a) = None \<longleftrightarrow> creds a \<noteq> [])"

text \<open>
  While no credential is enrolled there is no session, no pending sign-in, and every pending
  registration is a bootstrap.
\<close>

definition only_bootstrap :: "'w pending_reg hmap \<Rightarrow> bool" where
  "only_bootstrap m \<longleftrightarrow> (\<forall>e\<in>set m. fst (snd (snd e)) = Bootstrap)"

definition unclaimed_ok :: "'w auth_state \<Rightarrow> bool" where
  "unclaimed_ok a \<longleftrightarrow>
     (creds a = [] \<longrightarrow>
        inner (a_sessions a) = [] \<and> inner (a_auth a) = []
        \<and> only_bootstrap (inner (a_reg a)))"

text \<open>What a restart would load has the ids \<open>ids\<close>.\<close>

definition disk_has :: "'w webauthn \<Rightarrow> 'w codec \<Rightarrow> fs \<Rightarrow> string \<Rightarrow> 'w list \<Rightarrow> bool" where
  "disk_has w c d p ids \<longleftrightarrow>
     (case file_at d p of
        None \<Rightarrow> ids = []
      | Some j \<Rightarrow>
          (case from_json c j of None \<Rightarrow> False | Some s \<Rightarrow> map (cred_id w) (passkeys s) = ids))"

definition disk_ok :: "'w webauthn \<Rightarrow> 'w codec \<Rightarrow> 'w auth_state \<Rightarrow> bool" where
  "disk_ok w c a \<longleftrightarrow>
     wf_fs (a_disk a) \<and> tmp_path (a_path a) \<noteq> a_path a
     \<and> disk_has w c (a_disk a) (a_path a) (cred_ids w a)"

definition auth_inv :: "'w webauthn \<Rightarrow> 'w codec \<Rightarrow> 'w auth_state \<Rightarrow> bool" where
  "auth_inv w c a \<longleftrightarrow>
     clean a \<and> maps_ok a \<and> distinct (cred_ids w a) \<and> bootstrap_ok a \<and> unclaimed_ok a \<and> disk_ok w c a"

text \<open>The invariant once an admin exists, and what a ceremony of mode \<open>m\<close> may assume.\<close>

definition claimed :: "'w webauthn \<Rightarrow> 'w codec \<Rightarrow> 'w auth_state \<Rightarrow> bool" where
  "claimed w c a \<longleftrightarrow> auth_inv w c a \<and> creds a \<noteq> []"

definition mode_inv :: "'w webauthn \<Rightarrow> 'w codec \<Rightarrow> reg_mode \<Rightarrow> 'w auth_state \<Rightarrow> bool" where
  "mode_inv w c m a \<longleftrightarrow> auth_inv w c a \<and> (m = AddDevice \<longrightarrow> creds a \<noteq> [])"

lemmas auth_inv_defs =
  auth_inv_def clean_def maps_ok_def bootstrap_ok_def unclaimed_ok_def disk_ok_def cred_ids_def
  creds_def claimed_def mode_inv_def

lemma auth_inv_clean: "auth_inv w c a \<Longrightarrow> clean a"
  by (simp add: auth_inv_def)

section \<open>Sections that keep the invariant\<close>

lemma set_hremove [simp]: "set (hremove k m) = {e \<in> set m. fst e \<noteq> k}"
  by (simp add: hremove_def)

lemma set_hretain [simp]: "set (hretain p m) = {e \<in> set m. p (snd e)}"
  by (simp add: hretain_def)

lemma set_insert_capped: "set (insert_capped f now k v m) \<subseteq> insert (k, v) (set m)"
  unfolding insert_capped_def hinsert_def
  using evict_subset [of MAX_CEREMONIES f "hretain (\<lambda>v. now < f v) m"] by auto

lemma hremove_Nil [simp]: "hremove k [] = []"
  by (simp add: hremove_def)

lemma hretain_Nil [simp]: "hretain p [] = []"
  by (simp add: hretain_def)

lemma only_bootstrap_simps [simp]:
  "only_bootstrap []"
  "only_bootstrap m \<Longrightarrow> only_bootstrap (hremove k m)"
  "only_bootstrap m \<Longrightarrow> only_bootstrap (hretain p m)"
  by (simp_all add: only_bootstrap_def)

lemma only_bootstrap_insert [simp]:
  "only_bootstrap m \<Longrightarrow> only_bootstrap (insert_capped f now k (st, Bootstrap, t) m)"
  using set_insert_capped [of f now k "(st, Bootstrap, t)" m] by (fastforce simp: only_bootstrap_def)

lemma length_shrunk [simp]:
  "length m \<le> n \<Longrightarrow> length (hremove k m) \<le> n"
  "length m \<le> n \<Longrightarrow> length (hretain p m) \<le> n"
  using length_hremove_le length_hretain_le le_trans by blast+

declare insert_capped_wf [simp] insert_capped_length [simp] session_insert_wf [simp]
  session_insert_length [simp]

lemma keeps_session_valid [inv_intros]: "keeps (auth_inv w c) (session_valid now jar)"
proof (cases "jar SESSION_COOKIE")
  case None
  then show ?thesis by (simp add: session_valid_def triple_ret)
next
  case (Some tok)
  show ?thesis
    unfolding session_valid_def Some option.case
    by (rule keeps_with_lock)
      (auto simp: auth_inv_defs split: option.splits if_splits)
qed

lemma keeps_new_session: "triple (claimed w c) (new_session now1 now2 bytes) (\<lambda>_. claimed w c) (auth_inv w c)"
  unfolding new_session_def Let_def
  by (rule triple_with_lock)
    (auto simp: auth_inv_defs)

lemma reg_mode_of_mode: "triple (auth_inv w c) (reg_mode_of s) (mode_inv w c) (auth_inv w c)"
  by (rule tripleI)
    (auto simp: reg_mode_of_def registered_def auth_inv_defs split: outcome.split bool.splits)

lemma keeps_check_code: "keeps P (check_code m body)"
  by (rule triple_pure) (auto simp: check_code_def Let_def split: option.split)

lemma keeps_intended_user: "keeps P (intended_user w e)"
  by (rule triple_pure) (auto simp: intended_user_def with_lock_def Let_def ret_def split: option.split)

lemma keeps_remember_user: "keeps (mode_inv w c m) (remember_user uid)"
  unfolding remember_user_def
  by (rule keeps_with_lock) (auto simp: auth_inv_defs)

lemma park_reg_mode: "triple (mode_inv w c m) (park_reg e st m) (\<lambda>_. auth_inv w c) (auth_inv w c)"
  unfolding park_reg_def
  by (rule triple_with_lock; cases m) (auto simp: auth_inv_defs)

lemma keeps_take_reg [inv_intros]: "keeps (auth_inv w c) (take_reg now rid)"
  unfolding take_reg_def
  by (rule keeps_with_lock)
    (auto simp: auth_inv_defs Let_def split: option.splits if_splits)

lemma take_auth_claimed: "triple (auth_inv w c) (take_auth now aid) (\<lambda>_. claimed w c) (auth_inv w c)"
  unfolding take_auth_def
  by (rule triple_with_lock)
    (auto simp: auth_inv_defs Let_def split: option.splits if_splits)

lemma keeps_bump_counters: "wa_ok w \<Longrightarrow> keeps (claimed w c) (bump_counters w r)"
  unfolding bump_counters_def
  by (rule keeps_with_lock) (auto simp: auth_inv_defs wa_ok_def o_def)

lemma auth_inv_sweep: "auth_inv w c a \<Longrightarrow> auth_inv w c (sweep now a)"
  by (auto simp: auth_inv_defs sweep_def retain_mutex_def)

section \<open>Persistence\<close>

text \<open>
  \<open>persist\<close> touches nothing but the disk; it succeeds with the serialised store in the file, or
  fails with the file as it was.
\<close>

lemma persist_result:
  assumes "clean a" and "wf_fs (a_disk a)" and "tmp_path (a_path a) \<noteq> a_path a"
    and "codec_ok c" and "env_ok e"
    and "persist c e a = (r, a')"
  shows "r \<noteq> Panic \<and> (\<exists>d. a' = a\<lparr>a_disk := d\<rparr> \<and> wf_fs d
    \<and> (r = Ok () \<longrightarrow> disk_has w c d (a_path a) (cred_ids w a))
    \<and> (r \<noteq> Ok () \<longrightarrow> file_at d (a_path a) = file_at (a_disk a) (a_path a)))"
proof -
  let ?s = "inner (a_store a)"
  have l: "lock (a_store a) = Some ?s" using assms(1) by (simp add: clean_def)
  show ?thesis
  proof (cases "to_json c ?s")
    case None
    with l assms(2,6) show ?thesis
      by (auto simp: persist_def intro!: exI [of _ "a_disk a"])
  next
    case (Some j)
    obtain ok d where rep:
      "replace_file (io_ok e) (tmp_path (a_path a)) (a_path a) (io_split e j) (a_disk a) = (ok, d)"
      by (metis surj_pair)
    have "from_json c j = Some ?s" using Some assms(4) by (simp add: codec_ok_def)
    moreover have "concat (io_split e j) = j" using assms(5) by (simp add: env_ok_def)
    ultimately show ?thesis
      using assms(6) l Some rep replace_file_result [OF assms(2,3) rep]
      by (auto simp: persist_def disk_has_def cred_ids_def creds_def split: if_splits)
  qed
qed

lemma disk_has_file:
  "file_at d p = file_at d' p \<Longrightarrow> disk_has w c d p ids \<longleftrightarrow> disk_has w c d' p ids"
  by (simp add: disk_has_def)

lemma keeps_persist_best_effort:
  assumes "codec_ok c" and "env_ok e"
  shows "keeps (claimed w c) (persist_best_effort c e)"
proof (rule keepsI)
  fix a r a'
  assume inv: "claimed w c a" and run: "persist_best_effort c e a = (r, a')"
  obtain r' a'' where p: "persist c e a = (r', a'')" by (metis surj_pair)
  with run have "a' = a''" by (auto simp: persist_best_effort_def split: outcome.splits)
  moreover have d: "clean a" "wf_fs (a_disk a)" "tmp_path (a_path a) \<noteq> a_path a"
    "disk_has w c (a_disk a) (a_path a) (cred_ids w a)"
    using inv by (simp_all add: claimed_def auth_inv_def disk_ok_def)
  then obtain d' where "a'' = a\<lparr>a_disk := d'\<rparr>" "wf_fs d'"
    "disk_has w c d' (a_path a) (cred_ids w a)"
    using persist_result [OF d(1-3) assms p] disk_has_file by metis
  ultimately show "claimed w c a'" using inv by (simp add: auth_inv_defs)
qed

section \<open>Enrolment\<close>

text \<open>
  The section under the store lock: on success exactly one credential was appended, of a new id,
  to a store that was empty (bootstrap) or by a caller with a live session (add a device).
\<close>

definition live_session :: "time \<Rightarrow> jar \<Rightarrow> 'w auth_state \<Rightarrow> bool" where
  "live_session now jar a \<longleftrightarrow>
     (\<exists>tok expiry. jar SESSION_COOKIE = Some tok
        \<and> hget (inner (a_sessions a)) tok = Some expiry \<and> now < expiry)"

lemma live_session_code [code]:
  "live_session now jar a =
     (case jar SESSION_COOKIE of None \<Rightarrow> False
      | Some tok \<Rightarrow> (case hget (inner (a_sessions a)) tok of None \<Rightarrow> False | Some expiry \<Rightarrow> now < expiry))"
  by (auto simp: live_session_def split: option.split)

lemma session_valid_iff:
  assumes "clean a"
  shows "fst (session_valid now jar a) = Ok (live_session now jar a)"
  using assms
  by (auto simp: session_valid_def live_session_def clean_def ret_def split: option.split)

lemma session_valid_live: "live_session now jar a \<Longrightarrow> clean a \<Longrightarrow> session_valid now jar a = (Ok True, a)"
  by (auto simp: session_valid_def live_session_def clean_def)

lemma enrol_Ok:
  fixes a :: "'w auth_state"
  assumes "enrol w now jar m pk a = (Ok u, a')" and "clean a"
  shows "(if m = Bootstrap then creds a = [] else live_session now jar a)
    \<and> cred_id w pk \<notin> set (cred_ids w a)
    \<and> a' = a\<lparr>a_store := put ((inner (a_store a))\<lparr>passkeys := creds a @ [pk]\<rparr>) (a_store a)\<rparr>"
proof (cases m)
  case Bootstrap
  with assms show ?thesis
    by (auto simp: enrol_def clean_def creds_def cred_ids_def throw_def split: if_splits)
next
  case AddDevice
  obtain v b where v: "(session_valid now jar :: ('w, bool) handler) a = (Ok v, b)"
    using session_valid_iff [OF assms(2), of now jar] by (metis fst_conv surj_pair)
  have "v"
  proof (rule ccontr)
    assume "\<not> v"
    with assms AddDevice v show False by (simp add: enrol_def clean_def bind_def throw_def)
  qed
  moreover have "fst ((session_valid now jar :: ('w, bool) handler) a) = Ok (live_session now jar a)"
    by (rule session_valid_iff [OF assms(2)])
  ultimately have live: "live_session now jar a" using v by simp
  then have "(session_valid now jar :: ('w, bool) handler) a = (Ok True, a)"
    using assms(2) by (rule session_valid_live)
  with assms AddDevice live show ?thesis
    by (auto simp: enrol_def clean_def bind_def creds_def cred_ids_def throw_def split: if_splits)
qed

lemma enrol_not_Ok:
  fixes a :: "'w auth_state"
  assumes "enrol w now jar m pk a = (r, a')" and "\<forall>u. r \<noteq> Ok u" and "auth_inv w c a"
  shows "auth_inv w c a'"
proof -
  have clean: "\<not> poisoned (a_store a)" using assms(3) by (simp add: auth_inv_defs)
  show ?thesis
  proof (cases m)
    case Bootstrap
    with assms clean show ?thesis by (auto simp: enrol_def throw_def split: if_splits)
  next
    case AddDevice
    obtain v b where v: "(session_valid now jar :: ('w, bool) handler) a = (v, b)" by (metis surj_pair)
    have "auth_inv w c b" by (rule keepsD [OF keeps_session_valid assms(3) v])
    with AddDevice assms v clean show ?thesis
      by (auto simp: enrol_def bind_def throw_def split: outcome.splits if_splits)
  qed
qed

text \<open>The push is either durable or taken back.\<close>

lemma persist_or_undo_result:
  assumes "clean a" and "wf_fs (a_disk a)" and "tmp_path (a_path a) \<noteq> a_path a"
    and "codec_ok c" and "env_ok e" and "persist_or_undo c e a = (r, a')"
  obtains (saved) d where "r = Ok ()" and "a' = a\<lparr>a_disk := d\<rparr>" and "wf_fs d"
      and "disk_has w c d (a_path a) (cred_ids w a)"
  | (undone) d where "r = Err (INTERNAL_SERVER_ERROR, SaveFailed)" and "wf_fs d"
      and "file_at d (a_path a) = file_at (a_disk a) (a_path a)"
      and "a' = a\<lparr>a_disk := d,
             a_store := put ((inner (a_store a))\<lparr>passkeys := butlast (creds a)\<rparr>) (a_store a)\<rparr>"
proof -
  obtain r1 a1 where p: "persist c e a = (r1, a1)" by (metis surj_pair)
  from persist_result [OF assms(1-5) p, of w] obtain d where a1: "a1 = a\<lparr>a_disk := d\<rparr>" "wf_fs d"
    "r1 = Ok () \<longrightarrow> disk_has w c d (a_path a) (cred_ids w a)"
    "r1 \<noteq> Ok () \<longrightarrow> file_at d (a_path a) = file_at (a_disk a) (a_path a)" "r1 \<noteq> Panic"
    by blast
  show ?thesis
  proof (cases r1)
    case (Ok u)
    with p assms(6) a1 show ?thesis by (intro saved [of d]) (auto simp: persist_or_undo_def)
  next
    case (Err x)
    with p assms(1,6) a1 show ?thesis
      by (intro undone [of d])
        (auto simp: persist_or_undo_def bind_def undo_push_def throw_def clean_def creds_def)
  next
    case Panic
    with a1 show ?thesis by simp
  qed
qed

lemma close_bootstrap_result:
  "clean a \<Longrightarrow> close_bootstrap m a =
     (Ok (), if m = Bootstrap then a\<lparr>a_reg := put [] (a_reg a), a_bootstrap := put None (a_bootstrap a)\<rparr>
             else a)"
  by (auto simp: close_bootstrap_def clean_def bind_def ret_def)

lemma enrol_then_persist:
  assumes inv: "auth_inv w c a" and "codec_ok c" and "env_ok e"
    and run: "bind (enrol w now jar m pk) (\<lambda>_. persist_or_undo c e) a = (r, a')"
  shows "(\<forall>u. r \<noteq> Ok u) \<and> auth_inv w c a' \<or>
    r = Ok () \<and> auth_inv w c (snd (close_bootstrap m a'))
    \<and> (if m = Bootstrap then creds a = [] else live_session now jar a)
    \<and> creds a' = creds a @ [pk] \<and> clean a' \<and> a_sessions a' = a_sessions a"
proof -
  obtain r1 a1 where enr: "enrol w now jar m pk a = (r1, a1)" by (metis surj_pair)
  show ?thesis
  proof (cases "\<exists>u. r1 = Ok u")
    case False
    then have "a' = a1" and "\<forall>u. r \<noteq> Ok u"
      using run enr by (auto simp: bind_def split: outcome.splits)
    with enrol_not_Ok [OF enr _ inv] False show ?thesis by simp
  next
    case True
    have cl: "clean a" using inv by (simp add: auth_inv_def)
    from True enr enrol_Ok [OF _ cl]
    have auth: "if m = Bootstrap then creds a = [] else live_session now jar a"
      and new: "cred_id w pk \<notin> set (cred_ids w a)"
      and a1: "a1 = a\<lparr>a_store := put ((inner (a_store a))\<lparr>passkeys := creds a @ [pk]\<rparr>) (a_store a)\<rparr>"
      by auto
    have per: "persist_or_undo c e a1 = (r, a')"
      using run enr True by (auto simp: bind_def)
    have pre: "clean a1" "wf_fs (a_disk a1)" "tmp_path (a_path a1) \<noteq> a_path a1"
      using inv a1 by (simp_all add: auth_inv_defs)
    show ?thesis
    proof (cases rule: persist_or_undo_result [OF pre assms(2,3) per, where w = w, case_names saved undone])
      case (saved d)
      moreover from this have "clean a'" using pre(1) by (simp add: clean_def)
      moreover have "m \<noteq> Bootstrap \<longrightarrow> creds a \<noteq> []"
        using auth inv by (cases m) (auto simp: auth_inv_defs live_session_def)
      ultimately show ?thesis
        using inv auth new a1 by (auto simp: close_bootstrap_result auth_inv_defs)
    next
      case (undone d)
      then show ?thesis
        using inv a1 disk_has_file [of d "a_path a" "a_disk a" w c]
        by (auto simp: auth_inv_defs butlast_snoc)
    qed
  qed
qed

lemma commit_claimed:
  assumes "codec_ok c" and "env_ok e"
  shows "triple (auth_inv w c)
    (bind (bind (enrol w now jar m pk) (\<lambda>_. persist_or_undo c e)) (\<lambda>_. close_bootstrap m))
    (\<lambda>_. claimed w c) (auth_inv w c)"
proof (rule tripleI)
  fix a r a'
  let ?m = "bind (enrol w now jar m pk) (\<lambda>_. persist_or_undo c e)"
  assume inv: "auth_inv w c a" and run: "bind ?m (\<lambda>_. close_bootstrap m) a = (r, a')"
  obtain r1 a1 where m: "?m a = (r1, a1)" by (metis surj_pair)
  from enrol_then_persist [OF inv assms m]
  consider "\<forall>u. r1 \<noteq> Ok u" "auth_inv w c a1"
    | "r1 = Ok ()" "auth_inv w c (snd (close_bootstrap m a1))" "creds a1 = creds a @ [pk]" "clean a1"
    by auto
  then show "case r of Ok x \<Rightarrow> claimed w c a' | _ \<Rightarrow> auth_inv w c a'"
  proof cases
    case 1
    with run m show ?thesis by (cases r1) (auto simp: bind_def)
  next
    case 2
    then have "creds (snd (close_bootstrap m a1)) \<noteq> []"
      by (auto simp: close_bootstrap_result creds_def)
    with 2 run m show ?thesis
      by (auto simp: bind_def claimed_def close_bootstrap_result split: if_splits)
  qed
qed

lemma commit_then:
  assumes "codec_ok c" and "env_ok e" and "\<And>x. triple (claimed w c) (k x) R (auth_inv w c)"
  shows "triple (auth_inv w c)
    (bind (enrol w now jar m pk) (\<lambda>_. bind (persist_or_undo c e) (\<lambda>_. bind (close_bootstrap m) k)))
    R (auth_inv w c)"
  using triple_bind [OF commit_claimed [OF assms(1,2)] assms(3)] by (simp add: bind_assoc)

section \<open>Whole handlers keep the invariant\<close>

lemma keeps_register_start: "keeps (auth_inv w c) (register_start w e jar body)"
  unfolding register_start_def
proof (rule triple_bind [OF keeps_session_valid], rule triple_bind [OF reg_mode_of_mode])
  fix signed_in mode
  let ?I = "mode_inv w c mode"
  have weak: "triple ?I m Q ?I \<Longrightarrow> triple ?I m Q (auth_inv w c)" for m :: "('a, 'b) handler" and Q
    by (erule triple_weaken) (auto simp: mode_inv_def)
  show "triple ?I
     (bind (check_code mode body) (\<lambda>_. bind (intended_user w e) (\<lambda>(uid, exclude).
       case start_reg w (wa_seed e) uid ''admin'' ''admin'' exclude of
         Inl err \<Rightarrow> throw (INTERNAL_SERVER_ERROR, Library err)
       | Inr (ccr, reg_state) \<Rightarrow>
           bind (remember_user uid) (\<lambda>_. bind (park_reg e reg_state mode) (\<lambda>_.
           ret ([JarAdd (build_cookie REG_COOKIE (hex32 (rand32 e)))], ccr))))))
     (\<lambda>_. auth_inv w c) (auth_inv w c)"
    by (auto intro!: triple_bind [OF weak [OF keeps_check_code]] triple_bind [OF weak [OF keeps_intended_user]]
          triple_bind [OF weak [OF keeps_remember_user]] triple_bind [OF park_reg_mode] triple_ret triple_throw
        simp: mode_inv_def split: sum.split prod.split)
qed

lemma claimed_weak:
  "triple (claimed w c) m (\<lambda>_. claimed w c) (claimed w c) \<Longrightarrow>
   triple (claimed w c) m (\<lambda>_. claimed w c) (auth_inv w c)"
  by (erule triple_weaken) (auto simp: claimed_def)

lemma claimed_ret: "triple (claimed w c) (ret x) (\<lambda>_. auth_inv w c) (auth_inv w c)"
  by (rule triple_ret) (simp add: claimed_def)

lemma keeps_register_finish:
  assumes "codec_ok c" and "env_ok e"
  shows "keeps (auth_inv w c) (register_finish w c e jar cred)"
  unfolding register_finish_def
  by (auto intro!: triple_throw triple_bind [OF keeps_take_reg] commit_then [OF assms]
        triple_bind [OF keeps_new_session] claimed_ret
      split: option.split sum.split prod.split)

lemma keeps_login_start: "keeps (auth_inv w c) (login_start w e)"
proof (rule keepsI)
  fix a r a'
  assume inv: "auth_inv w c a" and run: "login_start w e a = (r, a')"
  show "auth_inv w c a'"
  proof (cases "creds a = []")
    case True
    with inv run show ?thesis
      by (auto simp: login_start_def auth_inv_defs bind_def ret_def throw_def)
  next
    case False
    with inv run show ?thesis
      by (auto simp: login_start_def auth_inv_defs bind_def ret_def throw_def split: sum.splits)
  qed
qed

lemma keeps_login_finish:
  assumes "wa_ok w" and "codec_ok c" and "env_ok e"
  shows "keeps (auth_inv w c) (login_finish w c e jar cred)"
  unfolding login_finish_def
  by (auto intro!: triple_throw triple_bind [OF take_auth_claimed]
        triple_bind [OF claimed_weak [OF keeps_bump_counters [OF assms(1)]]]
        triple_bind [OF claimed_weak [OF keeps_persist_best_effort [OF assms(2,3)]]]
        triple_bind [OF keeps_new_session] claimed_ret
      simp: claimed_def split: option.split sum.split)

end
