(* ===== verification/Auth_Spec.thy ===== *)
theory Auth_Spec
  imports Auth_Inv
begin

text \<open>
  What each handler of \<open>Auth_Handlers\<close> does, as equations or case rules on states whose mutexes
  are not poisoned: every branch of \<open>register_start\<close>, \<open>login_start\<close> and the session check, and
  the exact condition and effect of a successful or refused \<open>register_finish\<close> and
  \<open>login_finish\<close>.
\<close>

section \<open>The session check\<close>

text \<open>The state after a session check: an expired session that was presented is gone.\<close>

definition drop_expired :: "time \<Rightarrow> jar \<Rightarrow> 'w auth_state \<Rightarrow> 'w auth_state" where
  "drop_expired now jar a =
     (case jar SESSION_COOKIE of
        None \<Rightarrow> a
      | Some tok \<Rightarrow>
          (case hget (inner (a_sessions a)) tok of
             None \<Rightarrow> a
           | Some expiry \<Rightarrow>
               if now < expiry then a
               else a\<lparr>a_sessions := put (hremove tok (inner (a_sessions a))) (a_sessions a)\<rparr>))"

lemma session_valid_eq:
  "clean a \<Longrightarrow> session_valid now jar a = (Ok (live_session now jar a), drop_expired now jar a)"
  by (auto simp: session_valid_def live_session_def drop_expired_def clean_def ret_def
      split: option.split)

lemma drop_expired_frame [simp]:
  "a_store (drop_expired now jar a) = a_store a" "a_reg (drop_expired now jar a) = a_reg a"
  "a_auth (drop_expired now jar a) = a_auth a" "a_bootstrap (drop_expired now jar a) = a_bootstrap a"
  "a_path (drop_expired now jar a) = a_path a" "a_disk (drop_expired now jar a) = a_disk a"
  "poisoned (a_sessions (drop_expired now jar a)) = poisoned (a_sessions a)"
  by (auto simp: drop_expired_def split: option.split)

lemma drop_expired_clean [simp]: "clean (drop_expired now jar a) = clean a"
  by (simp add: clean_def)

lemma drop_expired_creds [simp]: "creds (drop_expired now jar a) = creds a"
  by (simp add: creds_def)

lemma drop_expired_sessions:
  "set (inner (a_sessions (drop_expired now jar a))) \<subseteq> set (inner (a_sessions a))"
  by (auto simp: drop_expired_def split: option.split)

lemma drop_expired_live: "live_session now jar a \<Longrightarrow> drop_expired now jar a = a"
  by (auto simp: live_session_def drop_expired_def)

section \<open>Starting a registration\<close>

definition given_code :: "string option option \<Rightarrow> string" where
  "given_code body = (case body of Some (Some t) \<Rightarrow> trim t | _ \<Rightarrow> [])"

definition start_user :: "env \<Rightarrow> 'w auth_state \<Rightarrow> uuid" where
  "start_user e a = (case user_id (inner (a_store a)) of Some u \<Rightarrow> u | None \<Rightarrow> uuid4 e)"

definition exclude_list :: "'w webauthn \<Rightarrow> 'w auth_state \<Rightarrow> 'w list option" where
  "exclude_list w a = (if creds a = [] then None else Some (cred_ids w a))"

lemma register_start_eq:
  assumes "clean a"
  shows "register_start w e jar body a =
    (let a1 = drop_expired (clk e 0) jar a;
         m = (if creds a = [] then Bootstrap else AddDevice)
     in if creds a \<noteq> [] \<and> \<not> live_session (clk e 0) jar a then (Err (FORBIDDEN, AdminExists), a1)
        else if creds a = [] \<and> inner (a_bootstrap a) = None then (Err (FORBIDDEN, EnrolmentClosed), a1)
        else if creds a = [] \<and> inner (a_bootstrap a) \<noteq> Some (given_code body)
        then (Err (FORBIDDEN, CodeRequired), a1)
        else case start_reg w (wa_seed e) (start_user e a) ''admin'' ''admin'' (exclude_list w a) of
               Inl err \<Rightarrow> (Err (INTERNAL_SERVER_ERROR, Library err), a1)
             | Inr (ccr, st) \<Rightarrow>
                 (Ok ([JarAdd (build_cookie REG_COOKIE (hex32 (rand32 e)))], ccr),
                  a1\<lparr>a_store := put ((inner (a_store a))\<lparr>user_id := Some (start_user e a)\<rparr>) (a_store a),
                     a_reg := put (insert_capped reg_exp (clk e 2) (hex32 (rand32 e))
                                (st, m, clk e 1 + CEREMONY_TTL) (inner (a_reg a))) (a_reg a)\<rparr>))"
proof -
  let ?a1 = "drop_expired (clk e 0) jar a"
  have cl: "\<not> poisoned (a_store a)" "\<not> poisoned (a_reg a)" "\<not> poisoned (a_bootstrap a)"
    using assms by (simp_all add: clean_def)
  have sv: "session_valid (clk e 0) jar a = (Ok (live_session (clk e 0) jar a), ?a1)"
    by (rule session_valid_eq [OF assms])
  have reg: "registered ?a1 \<longleftrightarrow> creds a \<noteq> []"
    using cl by (simp add: registered_def creds_def)
  have tok: "bootstrap_token ?a1 = inner (a_bootstrap a)"
    using cl by (simp add: bootstrap_token_def)
  have usr: "intended_user w e ?a1 = (Ok (start_user e a, exclude_list w a), ?a1)"
    using cl by (simp add: intended_user_def start_user_def exclude_list_def creds_def cred_ids_def ret_def Let_def)
  have chk: "check_code m body ?a1 =
      (if m = Bootstrap \<and> inner (a_bootstrap a) = None then Err (FORBIDDEN, EnrolmentClosed)
       else if m = Bootstrap \<and> inner (a_bootstrap a) \<noteq> Some (given_code body) then Err (FORBIDDEN, CodeRequired)
       else Ok (), ?a1)" for m
    by (auto simp: check_code_def tok given_code_def Let_def split: option.split)
  have rem: "remember_user (start_user e a) ?a1 =
      (Ok (), ?a1\<lparr>a_store := put ((inner (a_store a))\<lparr>user_id := Some (start_user e a)\<rparr>) (a_store a)\<rparr>)"
    using cl by (auto simp: remember_user_def start_user_def split: option.split)
  show ?thesis
  proof (cases "creds a = []")
    case True
    then have "reg_mode_of s ?a1 = (Ok Bootstrap, ?a1)" for s
      by (simp add: reg_mode_of_def reg)
    with True cl show ?thesis
      by (auto simp: register_start_def bind_def sv chk usr rem throw_def ret_def park_reg_def Let_def
          split: sum.split)
  next
    case False
    then have "reg_mode_of s ?a1 =
        (if s then (Ok AddDevice, ?a1) else (Err (FORBIDDEN, AdminExists), ?a1))" for s
      by (simp add: reg_mode_of_def reg)
    with False cl show ?thesis
      by (auto simp: register_start_def bind_def sv chk usr rem throw_def ret_def park_reg_def Let_def
          split: sum.split)
  qed
qed

lemma register_start_cases:
  assumes "clean a" and "register_start w e jar body a = (r, a')"
  obtains (refused) s m where "r = Err (s, m)" and "a' = drop_expired (clk e 0) jar a"
  | (started) ccr st m where
      "r = Ok ([JarAdd (build_cookie REG_COOKIE (hex32 (rand32 e)))], ccr)"
      and "m = (if creds a = [] then Bootstrap else AddDevice)"
      and "m = Bootstrap \<longrightarrow> inner (a_bootstrap a) = Some (given_code body)"
      and "m = AddDevice \<longrightarrow> live_session (clk e 0) jar a"
      and "start_reg w (wa_seed e) (start_user e a) ''admin'' ''admin'' (exclude_list w a) = Inr (ccr, st)"
      and "a' = (drop_expired (clk e 0) jar a)
             \<lparr>a_store := put ((inner (a_store a))\<lparr>user_id := Some (start_user e a)\<rparr>) (a_store a),
              a_reg := put (insert_capped reg_exp (clk e 2) (hex32 (rand32 e))
                         (st, m, clk e 1 + CEREMONY_TTL) (inner (a_reg a))) (a_reg a)\<rparr>"
proof -
  note run = assms(2) [unfolded register_start_eq [OF assms(1)] Let_def]
  show ?thesis
  proof (cases "(\<exists>s m. r = Err (s, m)) \<and> a' = drop_expired (clk e 0) jar a")
    case True
    then show ?thesis using refused by blast
  next
    case False
    obtain ccr st where reg: "start_reg w (wa_seed e) (start_user e a) ''admin'' ''admin'' (exclude_list w a)
        = Inr (ccr, st)"
      using False run by (auto split: if_splits sum.splits)
    with False run show ?thesis
      by (intro started [of ccr _ st]) (auto split: if_splits)
  qed
qed

section \<open>Starting a sign-in\<close>

lemma login_start_eq:
  assumes "clean a"
  shows "login_start w e a =
    (if creds a = [] then (Err (BAD_REQUEST, NoAccount), a)
     else case start_auth w (wa_seed e) (creds a) of
            Inl err \<Rightarrow> (Err (INTERNAL_SERVER_ERROR, Library err), a)
          | Inr (rcr, st) \<Rightarrow>
              (Ok ([JarAdd (build_cookie AUTH_COOKIE (hex32 (rand32 e)))], rcr),
               a\<lparr>a_auth := put (insert_capped auth_exp (clk e 1) (hex32 (rand32 e))
                    (st, clk e 0 + CEREMONY_TTL) (inner (a_auth a))) (a_auth a)\<rparr>))"
  using assms by (auto simp: login_start_def clean_def bind_def ret_def throw_def creds_def split: sum.split)

section \<open>Finishing a registration\<close>

text \<open>The effect of a refusal: nothing is added anywhere and no secret changes.\<close>

definition refused :: "'w auth_state \<Rightarrow> 'w auth_state \<Rightarrow> bool" where
  "refused a a' \<longleftrightarrow>
     creds a' = creds a \<and> set (inner (a_sessions a')) \<subseteq> set (inner (a_sessions a))
     \<and> set (inner (a_reg a')) \<subseteq> set (inner (a_reg a))
     \<and> set (inner (a_auth a')) \<subseteq> set (inner (a_auth a)) \<and> a_bootstrap a' = a_bootstrap a"

lemma refused_refl [simp]: "refused a a"
  by (simp add: refused_def)

lemma refused_drop_expired [simp]: "refused a (drop_expired now jar a)"
  by (simp add: refused_def drop_expired_sessions)

lemma persist_or_undo_cases:
  assumes "clean a" and "wf_fs (a_disk a)" and "tmp_path (a_path a) \<noteq> a_path a"
    and "codec_ok c" and "env_ok e" and "persist_or_undo c e a = (r, a')"
  obtains d where "r = Ok ()" and "a' = a\<lparr>a_disk := d\<rparr>"
  | d where "r = Err (INTERNAL_SERVER_ERROR, SaveFailed)"
      and "a' = a\<lparr>a_disk := d,
             a_store := put ((inner (a_store a))\<lparr>passkeys := butlast (creds a)\<rparr>) (a_store a)\<rparr>"
  by (cases rule: persist_or_undo_result [OF assms]) auto

lemma enrol_refused:
  fixes a :: "'w auth_state"
  assumes "clean a" and "enrol w now jar m pk a = (r, a')" and "\<forall>u. r \<noteq> Ok u"
  shows "(\<exists>s x. r = Err (s, x)) \<and> refused a a' \<and> a_reg a' = a_reg a"
proof -
  have "\<not> poisoned (a_store a)" using assms(1) by (simp add: clean_def)
  moreover have "(session_valid now jar :: ('w, bool) handler) a
      = (Ok (live_session now jar a), drop_expired now jar a)"
    by (rule session_valid_eq [OF assms(1)])
  ultimately show ?thesis
    using assms(2,3)
    by (cases m) (auto simp: enrol_def bind_def throw_def ret_def split: if_splits)
qed

lemma commit_cases:
  fixes a :: "'w auth_state"
  assumes inv: "auth_inv w c a" and ok: "codec_ok c" "env_ok e"
    and run: "bind (enrol w now jar m pk) (\<lambda>_. persist_or_undo c e) a = (r, a')"
  obtains (refused) s x where "r = Err (s, x)" and "refused a a'" and "a_reg a' = a_reg a"
  | (saved) d where "r = Ok ()"
      and "if m = Bootstrap then creds a = [] else live_session now jar a"
      and "cred_id w pk \<notin> set (cred_ids w a)"
      and "a' = a\<lparr>a_store := put ((inner (a_store a))\<lparr>passkeys := creds a @ [pk]\<rparr>) (a_store a),
                  a_disk := d\<rparr>"
proof -
  have cl: "clean a" using inv by (rule auth_inv_clean)
  obtain r1 a1 where enr: "enrol w now jar m pk a = (r1, a1)" by (metis surj_pair)
  show ?thesis
  proof (cases "\<exists>u. r1 = Ok u")
    case False
    with enrol_refused [OF cl enr] obtain s x where r1: "r1 = Err (s, x)" "refused a a1" "a_reg a1 = a_reg a"
      by blast
    with run enr have "r = Err (s, x)" "a' = a1" by (auto simp: bind_def)
    with r1 show ?thesis by (intro refused) auto
  next
    case True
    with enrol_Ok [OF _ cl] enr
    have auth: "if m = Bootstrap then creds a = [] else live_session now jar a"
      "cred_id w pk \<notin> set (cred_ids w a)"
      and a1: "a1 = a\<lparr>a_store := put ((inner (a_store a))\<lparr>passkeys := creds a @ [pk]\<rparr>) (a_store a)\<rparr>"
      by auto
    have per: "persist_or_undo c e a1 = (r, a')" using run enr True by (auto simp: bind_def)
    have pre: "clean a1" "wf_fs (a_disk a1)" "tmp_path (a_path a1) \<noteq> a_path a1"
      using inv a1 by (simp_all add: auth_inv_defs)
    from persist_or_undo_cases [OF pre ok per] show ?thesis
    proof cases
      case (1 d)
      with auth a1 show ?thesis by (intro saved [of d]) auto
    next
      case (2 d)
      with a1 show ?thesis by (intro refused) (auto simp: refused_def creds_def)
    qed
  qed
qed

lemma refused_trans: "refused a b \<Longrightarrow> refused b d \<Longrightarrow> refused a d"
  by (auto simp: refused_def)

text \<open>One rule for all ways \<open>register_finish\<close> can end.\<close>

lemma register_finish_cases:
  fixes a :: "'w auth_state"
  assumes inv: "auth_inv w c a" and ok: "codec_ok c" "env_ok e"
    and run: "register_finish w c e jar cred a = (r, a')"
  obtains (refused) s m where "r = Err (s, m)" and "refused a a'"
    and "\<And>rid. jar REG_COOKIE = Some rid \<Longrightarrow> hget (inner (a_reg a')) rid = None"
  | (enrolled) rid st mode expiry pk where
      "r = Ok ([JarRemove (clear_cookie REG_COOKIE), JarAdd (build_cookie SESSION_COOKIE (hex32 (rand32 e)))], OK)"
      and "jar REG_COOKIE = Some rid" and "hget (inner (a_reg a)) rid = Some (st, mode, expiry)"
      and "clk e 0 < expiry" and "finish_reg w cred st = Inr pk"
      and "if mode = Bootstrap then creds a = [] else live_session (clk e 1) jar a"
      and "cred_id w pk \<notin> set (cred_ids w a)" and "creds a' = creds a @ [pk]"
      and "inner (a_sessions a') =
             session_insert (clk e 2) (hex32 (rand32 e)) (clk e 3 + SESSION_TTL) (inner (a_sessions a))"
      and "inner (a_reg a') = (if mode = Bootstrap then [] else hremove rid (inner (a_reg a)))"
      and "a_auth a' = a_auth a"
      and "inner (a_bootstrap a') = (if mode = Bootstrap then None else inner (a_bootstrap a))"
proof -
  have cl: "clean a" using inv by (rule auth_inv_clean)
  show ?thesis
  proof (cases "jar REG_COOKIE")
    case None
    with run show ?thesis by (intro refused) (auto simp: register_finish_def throw_def)
  next
    case (Some rid)
    show ?thesis
    proof (cases "hget (inner (a_reg a)) rid")
      case None
      with Some run cl show ?thesis
        by (intro refused) (auto simp: register_finish_def bind_def take_reg_def clean_def)
    next
      case (Some v)
      obtain st mode expiry where v: "v = (st, mode, expiry)" by (cases v)
      let ?a1 = "a\<lparr>a_reg := put (hremove rid (inner (a_reg a))) (a_reg a)\<rparr>"
      note [simp] = \<open>jar REG_COOKIE = Some rid\<close>
      have r1: "refused a ?a1" by (auto simp: refused_def creds_def)
      have gone: "hget (inner (a_reg ?a1)) rid = None" by (simp add: hmap_simps)
      have take: "take_reg (clk e 0) rid a =
          (if expiry \<le> clk e 0 then Err (BAD_REQUEST, CeremonyExpired) else Ok (st, mode), ?a1)"
        using cl Some v by (simp add: take_reg_def clean_def Let_def)
      show ?thesis
      proof (cases "expiry \<le> clk e 0 \<or> (\<exists>err. finish_reg w cred st = Inl err)")
        case True
        with run take have "a' = ?a1" and "\<exists>s m. r = Err (s, m)"
          by (auto simp: register_finish_def bind_def throw_def split: if_splits)
        then obtain s m where "a' = ?a1" "r = Err (s, m)" by blast
        with r1 gone show ?thesis by (intro refused [of s m]) auto
      next
        case False
        then obtain pk where pk: "finish_reg w cred st = Inr pk" by (cases "finish_reg w cred st") auto
        have inv1: "auth_inv w c ?a1" by (rule keepsD [OF keeps_take_reg inv take])
        then have cl1: "clean ?a1" by (rule auth_inv_clean)
        let ?m = "bind (enrol w (clk e 1) jar mode pk) (\<lambda>_. persist_or_undo c e)"
        obtain r2 a2 where m: "?m ?a1 = (r2, a2)" by (metis surj_pair)
        have rest: "register_finish w c e jar cred a =
            bind ?m (\<lambda>_. bind (close_bootstrap mode) (\<lambda>_.
              bind (new_session (clk e 2) (clk e 3) (rand32 e)) (\<lambda>session.
              ret ([JarRemove (clear_cookie REG_COOKIE), JarAdd session], OK)))) ?a1"
          using False take pk by (simp add: register_finish_def bind_assoc) (simp add: bind_def)
        show ?thesis
        proof (cases rule: commit_cases [OF inv1 ok m, case_names refused saved])
          case (refused s x)
          then have "r = Err (s, x)" and "a' = a2" using run rest m by (auto simp: bind_def)
          with refused that(1) [of s x] refused_trans [OF r1] gone show ?thesis by auto
        next
          case (saved d)
          have cl2: "clean a2" using saved cl1 by (simp add: clean_def)
          obtain a3 where cb: "close_bootstrap mode a2 = (Ok (), a3)" and a3: "a3 = (if mode = Bootstrap
              then a2\<lparr>a_reg := put [] (a_reg a2), a_bootstrap := put None (a_bootstrap a2)\<rparr> else a2)"
            by (simp add: close_bootstrap_result [OF cl2])
          let ?a4 = "a3\<lparr>a_sessions := put (session_insert (clk e 2) (hex32 (rand32 e))
              (clk e 3 + SESSION_TTL) (inner (a_sessions a3))) (a_sessions a3)\<rparr>"
          have "(new_session (clk e 2) (clk e 3) (rand32 e) :: ('w, cookie) handler) a3 =
              (Ok (build_cookie SESSION_COOKIE (hex32 (rand32 e))), ?a4)"
            using cl2 a3 by (simp add: new_session_def clean_def Let_def)
          with run rest m saved(1) cb have fin: "(r, a') =
              (Ok ([JarRemove (clear_cookie REG_COOKIE),
                 JarAdd (build_cookie SESSION_COOKIE (hex32 (rand32 e)))], OK), ?a4)"
            by (simp add: bind_def ret_def)
          show ?thesis
            by (rule enrolled [of rid st mode expiry pk])
              (use fin saved Some v False pk a3 in
                \<open>auto simp: creds_def cred_ids_def live_session_def split: if_splits\<close>)
        qed
      qed
    qed
  qed
qed

section \<open>Finishing a sign-in\<close>

lemma persist_best_effort_result:
  assumes "clean a" and "wf_fs (a_disk a)" and "tmp_path (a_path a) \<noteq> a_path a"
    and "codec_ok c" and "env_ok e"
  shows "\<exists>d. persist_best_effort c e a = (Ok (), a\<lparr>a_disk := d\<rparr>)"
proof -
  obtain r a1 where p: "persist c e a = (r, a1)" by (metis surj_pair)
  from persist_result [OF assms p] show ?thesis
    using p by (cases r) (auto simp: persist_best_effort_def)
qed

lemma login_finish_cases:
  fixes a :: "'w auth_state"
  assumes inv: "auth_inv w c a" and ok: "wa_ok w" "codec_ok c" "env_ok e"
    and run: "login_finish w c e jar cred a = (r, a')"
  obtains (refused) s m where "r = Err (s, m)" and "refused a a'"
    and "\<And>aid. jar AUTH_COOKIE = Some aid \<Longrightarrow> hget (inner (a_auth a')) aid = None"
  | (signed_in) aid st expiry result where
      "r = Ok ([JarRemove (clear_cookie AUTH_COOKIE), JarAdd (build_cookie SESSION_COOKIE (hex32 (rand32 e)))], OK)"
      and "jar AUTH_COOKIE = Some aid" and "hget (inner (a_auth a)) aid = Some (st, expiry)"
      and "clk e 0 < expiry" and "finish_auth w cred st = Inr result"
      and "creds a' = map (update_credential w result) (creds a)"
      and "inner (a_sessions a') =
             session_insert (clk e 1) (hex32 (rand32 e)) (clk e 2 + SESSION_TTL) (inner (a_sessions a))"
      and "inner (a_auth a') = hremove aid (inner (a_auth a))"
      and "a_reg a' = a_reg a" and "a_bootstrap a' = a_bootstrap a"
proof -
  have cl: "clean a" using inv by (rule auth_inv_clean)
  show ?thesis
  proof (cases "jar AUTH_COOKIE")
    case None
    with run show ?thesis by (intro refused) (auto simp: login_finish_def throw_def)
  next
    case (Some aid)
    note [simp] = Some
    show ?thesis
    proof (cases "hget (inner (a_auth a)) aid")
      case None
      with run cl show ?thesis
        by (intro refused) (auto simp: login_finish_def bind_def take_auth_def clean_def)
    next
      case (Some v)
      obtain st expiry where v: "v = (st, expiry)" by (cases v)
      let ?a1 = "a\<lparr>a_auth := put (hremove aid (inner (a_auth a))) (a_auth a)\<rparr>"
      have r1: "refused a ?a1" by (auto simp: refused_def creds_def)
      have gone: "hget (inner (a_auth ?a1)) aid = None" by (simp add: hmap_simps)
      have take: "take_auth (clk e 0) aid a =
          (if expiry \<le> clk e 0 then Err (BAD_REQUEST, CeremonyExpired) else Ok st, ?a1)"
        using cl Some v by (simp add: take_auth_def clean_def Let_def)
      show ?thesis
      proof (cases "expiry \<le> clk e 0 \<or> (\<exists>err. finish_auth w cred st = Inl err)")
        case True
        with run take have "a' = ?a1" and "\<exists>s m. r = Err (s, m)"
          by (auto simp: login_finish_def bind_def throw_def split: if_splits)
        then obtain s m where "a' = ?a1" "r = Err (s, m)" by blast
        with r1 gone show ?thesis by (intro refused [of s m]) auto
      next
        case False
        then obtain result where res: "finish_auth w cred st = Inr result"
          by (cases "finish_auth w cred st") auto
        let ?s2 = "(inner (a_store a))\<lparr>passkeys := map (update_credential w result) (creds a)\<rparr>"
        let ?a2 = "?a1\<lparr>a_store := put ?s2 (a_store a)\<rparr>"
        have bump: "bump_counters w result ?a1 = (Ok (), ?a2)"
          using cl by (simp add: bump_counters_def clean_def creds_def)
        have "clean ?a2" "wf_fs (a_disk ?a2)" "tmp_path (a_path ?a2) \<noteq> a_path ?a2"
          using inv by (simp_all add: auth_inv_defs)
        from persist_best_effort_result [OF this ok(2,3)]
        obtain d where per: "persist_best_effort c e ?a2 = (Ok (), ?a2\<lparr>a_disk := d\<rparr>)" by blast
        have new: "(new_session (clk e 1) (clk e 2) (rand32 e) :: ('w, cookie) handler) (?a2\<lparr>a_disk := d\<rparr>) =
            (Ok (build_cookie SESSION_COOKIE (hex32 (rand32 e))),
             ?a2\<lparr>a_disk := d, a_sessions := put (session_insert (clk e 1) (hex32 (rand32 e))
                (clk e 2 + SESSION_TTL) (inner (a_sessions a))) (a_sessions a)\<rparr>)"
          using cl by (simp add: new_session_def clean_def Let_def)
        have fin: "(r, a') =
            (Ok ([JarRemove (clear_cookie AUTH_COOKIE),
               JarAdd (build_cookie SESSION_COOKIE (hex32 (rand32 e)))], OK),
             ?a2\<lparr>a_disk := d, a_sessions := put (session_insert (clk e 1) (hex32 (rand32 e))
                (clk e 2 + SESSION_TTL) (inner (a_sessions a))) (a_sessions a)\<rparr>)"
          using run take False res bump per new
          by (simp add: login_finish_def bind_def ret_def)
        show ?thesis
          by (rule signed_in [of aid st expiry result])
            (use fin Some v False res in \<open>auto simp: creds_def\<close>)
      qed
    qed
  qed
qed

section \<open>When the finishing handlers succeed\<close>

lemma login_finish_succeeds:
  assumes "auth_inv w c a" and "codec_ok c" "env_ok e"
    and "jar AUTH_COOKIE = Some aid" and "hget (inner (a_auth a)) aid = Some (st, expiry)"
    and "clk e 0 < expiry" and "finish_auth w cred st = Inr result"
  shows "\<exists>v a'. login_finish w c e jar cred a = (Ok v, a')"
proof -
  have cl: "clean a" using assms(1) by (rule auth_inv_clean)
  let ?a1 = "a\<lparr>a_auth := put (hremove aid (inner (a_auth a))) (a_auth a)\<rparr>"
  let ?a2 = "?a1\<lparr>a_store := put ((inner (a_store a))\<lparr>passkeys :=
      map (update_credential w result) (creds a)\<rparr>) (a_store a)\<rparr>"
  have "take_auth (clk e 0) aid a = (Ok st, ?a1)"
    using cl assms(5,6) by (simp add: take_auth_def clean_def Let_def)
  moreover have "bump_counters w result ?a1 = (Ok (), ?a2)"
    using cl by (simp add: bump_counters_def clean_def creds_def)
  moreover have "clean ?a2" "wf_fs (a_disk ?a2)" "tmp_path (a_path ?a2) \<noteq> a_path ?a2"
    using assms(1) by (simp_all add: auth_inv_defs)
  moreover from persist_best_effort_result [OF this assms(2,3)]
  obtain d where "persist_best_effort c e ?a2 = (Ok (), ?a2\<lparr>a_disk := d\<rparr>)" by blast
  ultimately show ?thesis
    using assms(4,7) cl by (simp add: login_finish_def bind_def new_session_def clean_def Let_def ret_def)
qed

lemma persist_succeeds:
  assumes "clean a" and "to_json c (inner (a_store a)) \<noteq> None" and "io_ok e = (\<lambda>_. True)"
  shows "\<exists>d. persist c e a = (Ok (), a\<lparr>a_disk := d\<rparr>)"
proof -
  obtain j where "to_json c (inner (a_store a)) = Some j" using assms(2) by blast
  moreover have "replace_file (io_ok e) (tmp_path (a_path a)) (a_path a) (io_split e j) (a_disk a)
      = (True, snd (replace_file (io_ok e) (tmp_path (a_path a)) (a_path a) (io_split e j) (a_disk a)))"
    using assms(3) replace_file_no_fault by (simp add: prod_eq_iff)
  ultimately show ?thesis using assms(1) by (auto simp: persist_def clean_def split: prod.splits)
qed

lemma bootstrap_finish_succeeds:
  assumes "auth_inv w c a" and "env_ok e" and "io_ok e = (\<lambda>_. True)" and "creds a = []"
    and "jar REG_COOKIE = Some rid" and "hget (inner (a_reg a)) rid = Some (st, Bootstrap, expiry)"
    and "clk e 0 < expiry" and "finish_reg w cred st = Inr pk"
    and "to_json c ((inner (a_store a))\<lparr>passkeys := [pk]\<rparr>) \<noteq> None"
  shows "\<exists>v a'. register_finish w c e jar cred a = (Ok v, a')"
proof -
  have cl: "clean a" using assms(1) by (rule auth_inv_clean)
  let ?a1 = "a\<lparr>a_reg := put (hremove rid (inner (a_reg a))) (a_reg a)\<rparr>"
  let ?a2 = "?a1\<lparr>a_store := put ((inner (a_store a))\<lparr>passkeys := [pk]\<rparr>) (a_store a)\<rparr>"
  have "take_reg (clk e 0) rid a = (Ok (st, Bootstrap), ?a1)"
    using cl assms(6,7) by (simp add: take_reg_def clean_def Let_def)
  moreover have "enrol w (clk e 1) jar Bootstrap pk ?a1 = (Ok (), ?a2)"
    using cl assms(4) by (simp add: enrol_def clean_def creds_def)
  moreover have "clean ?a2" "to_json c (inner (a_store ?a2)) \<noteq> None"
    using cl assms(9) by (simp_all add: clean_def)
  from persist_succeeds [OF this assms(3)]
  obtain d where "persist c e ?a2 = (Ok (), ?a2\<lparr>a_disk := d\<rparr>)" by blast
  then have "persist_or_undo c e ?a2 = (Ok (), ?a2\<lparr>a_disk := d\<rparr>)" by (simp add: persist_or_undo_def)
  ultimately show ?thesis
    using assms(5,8) cl
    by (simp add: register_finish_def bind_def close_bootstrap_def new_session_def clean_def Let_def ret_def)
qed

end
