(* ===== verification/Auth_Trace.thy ===== *)
theory Auth_Trace
  imports Auth_Spec
begin

text \<open>
  The authentication service as a state machine: requests are executed one whole handler at a
  time, in any order and with any inputs, next to the sweep timer; the history of the executed
  requests and their success is kept beside the state. Two invariants are proved of every
  reachable state, each as an interpretation of \<open>invariant_of\<close>: \<open>auth_inv\<close>, and the origin of
  every entry of the three maps in the history.
\<close>

datatype 'w action =
  RegStart env jar "string option option"
| RegFinish env jar 'w
| LoginStart env
| LoginFinish env jar 'w
| Logout jar
| CheckSession time jar
| Sweep time

fun action_ok :: "'w action \<Rightarrow> bool" where
  "action_ok (RegStart e _ _) = env_ok e"
| "action_ok (RegFinish e _ _) = env_ok e"
| "action_ok (LoginStart e) = env_ok e"
| "action_ok (LoginFinish e _ _) = env_ok e"
| "action_ok _ = True"

definition is_ok :: "('e, 'a) outcome \<Rightarrow> bool" where
  "is_ok r = (case r of Ok _ \<Rightarrow> True | _ \<Rightarrow> False)"

text \<open>Run one action; the flag tells whether the response was a success.\<close>

fun exec :: "'w webauthn \<Rightarrow> 'w codec \<Rightarrow> 'w action \<Rightarrow> 'w auth_state \<Rightarrow> bool \<times> 'w auth_state" where
  "exec w c (RegStart e jar body) a = map_prod is_ok id (register_start w e jar body a)"
| "exec w c (RegFinish e jar cred) a = map_prod is_ok id (register_finish w c e jar cred a)"
| "exec w c (LoginStart e) a = map_prod is_ok id (login_start w e a)"
| "exec w c (LoginFinish e jar cred) a = map_prod is_ok id (login_finish w c e jar cred a)"
| "exec w c (Logout jar) a = (True, the (snd (logout jar (Some a) :: (unit, jar_op list \<times> status_code \<times> string) outcome \<times> _)))"
| "exec w c (CheckSession now jar) a =
     (case (session_valid now jar a :: (unit, bool) outcome \<times> _) of (r, a') \<Rightarrow> (r = Ok True, a'))"
| "exec w c (Sweep now) a = (True, sweep now a)"

type_synonym 'w history = "('w action \<times> bool) list"

text \<open>The iteration order of a hash map may change at any time.\<close>

definition permuted :: "'w auth_state \<Rightarrow> 'w auth_state \<Rightarrow> bool" where
  "permuted a a' \<longleftrightarrow>
     (\<exists>r u s. a' = a\<lparr>a_reg := put r (a_reg a), a_auth := put u (a_auth a), a_sessions := put s (a_sessions a)\<rparr>
        \<and> mset r = mset (inner (a_reg a)) \<and> mset u = mset (inner (a_auth a))
        \<and> mset s = mset (inner (a_sessions a)))"

inductive auth_step ::
  "'w webauthn \<Rightarrow> 'w codec \<Rightarrow> 'w history \<times> 'w auth_state \<Rightarrow> 'w history \<times> 'w auth_state \<Rightarrow> bool"
  for w :: "'w webauthn" and c :: "'w codec" where
  request: "action_ok act \<Longrightarrow> exec w c act a = (ok, a') \<Longrightarrow> auth_step w c (h, a) (h @ [(act, ok)], a')"
| rehash: "permuted a a' \<Longrightarrow> auth_step w c (h, a) (h, a')"

inductive_cases auth_stepE: "auth_step w c (h, a) s"

text \<open>
  The start: the state \<open>auth_new\<close> builds from a file system on which the credentials can be read,
  or are absent, and have different ids. \<open>code\<close> is the one-time code it draws, \<open>ids\<close> are the ids
  of the credentials it loads.
\<close>

definition auth_init :: "'w webauthn \<Rightarrow> 'w codec \<Rightarrow> string \<Rightarrow> 'w list \<Rightarrow> 'w history \<times> 'w auth_state \<Rightarrow> bool" where
  "auth_init w c code ids s \<longleftrightarrow>
     wa_ok w \<and> codec_ok c \<and> fst s = []
     \<and> (\<exists>b d dir st. stat_ok b \<and> wf_fs d \<and> load_store c b d (path_join dir ''auth.json'') = Inr st
          \<and> map (cred_id w) (passkeys st) = ids \<and> distinct ids \<and> code = hex32 (boot_rand b)
          \<and> snd s = fresh_auth_state b d (path_join dir ''auth.json'') st)"

abbreviation auth_reachable ::
  "'w webauthn \<Rightarrow> 'w codec \<Rightarrow> string \<Rightarrow> 'w list \<Rightarrow> 'w history \<Rightarrow> 'w auth_state \<Rightarrow> bool" where
  "auth_reachable w c code ids h a \<equiv> reachable (auth_init w c code ids) (auth_step w c) (h, a)"

section \<open>The state invariant\<close>

lemma fresh_auth_inv:
  assumes "stat_ok b" and "wf_fs d" and "load_store c b d (path_join dir ''auth.json'') = Inr st"
    and "distinct (map (cred_id w) (passkeys st))"
  shows "auth_inv w c (fresh_auth_state b d (path_join dir ''auth.json'') st)"
  using assms tmp_path_neq [of dir]
  by (auto simp: auth_inv_defs fresh_auth_state_def load_store_def path_exists_def disk_has_def
      file_at_def default_store_def new_mutex_def split: if_splits option.splits)

lemma wf_hmap_mset: "mset r = mset s \<Longrightarrow> wf_hmap r = wf_hmap s"
  unfolding wf_hmap_def by (metis mset_map mset_eq_imp_distinct_iff)

lemma permuted_inv: "permuted a a' \<Longrightarrow> auth_inv w c a \<Longrightarrow> auth_inv w c a'"
proof -
  assume "permuted a a'" and inv: "auth_inv w c a"
  then obtain r u s where a': "a' = a\<lparr>a_reg := put r (a_reg a), a_auth := put u (a_auth a),
      a_sessions := put s (a_sessions a)\<rparr>"
    and m: "mset r = mset (inner (a_reg a))" "mset u = mset (inner (a_auth a))"
      "mset s = mset (inner (a_sessions a))"
    by (auto simp: permuted_def)
  have "wf_hmap r" "wf_hmap u" "wf_hmap s" "length r \<le> MAX_CEREMONIES" "length u \<le> MAX_CEREMONIES"
    "length s \<le> MAX_SESSIONS"
    using inv m wf_hmap_mset mset_eq_length by (metis auth_inv_def maps_ok_def)+
  moreover have "inner (a_sessions a) = [] \<longrightarrow> s = []" "inner (a_auth a) = [] \<longrightarrow> u = []"
    using m by auto
  moreover have "only_bootstrap (inner (a_reg a)) \<longrightarrow> only_bootstrap r"
    using mset_eq_setD [OF m(1)] by (simp add: only_bootstrap_def)
  ultimately show ?thesis using inv a' by (auto simp: auth_inv_defs)
qed

lemma logout_eq:
  "clean a \<Longrightarrow> snd (logout jar (Some a) :: ('e, jar_op list \<times> status_code \<times> string) outcome \<times> _) =
     Some (case jar SESSION_COOKIE of None \<Rightarrow> a
           | Some tok \<Rightarrow> a\<lparr>a_sessions := put (hremove tok (inner (a_sessions a))) (a_sessions a)\<rparr>)"
  by (auto simp: logout_def clean_def split: option.split)

lemma auth_inv_drop_expired: "auth_inv w c a \<Longrightarrow> auth_inv w c (drop_expired now jar a)"
  using keepsD [OF keeps_session_valid] session_valid_eq auth_inv_clean by fastforce

lemma exec_inv:
  assumes "wa_ok w" and "codec_ok c" and "action_ok act" and "auth_inv w c a"
    and "exec w c act a = (ok, a')"
  shows "auth_inv w c a'"
proof (cases act)
  case (RegStart e jar body)
  with assms show ?thesis
    by (auto intro: keepsD [OF keeps_register_start] simp: map_prod_def split: prod.splits)
next
  case (RegFinish e jar cred)
  with assms show ?thesis
    by (auto intro: keepsD [OF keeps_register_finish] simp: map_prod_def split: prod.splits)
next
  case (LoginStart e)
  with assms show ?thesis
    by (auto intro: keepsD [OF keeps_login_start] simp: map_prod_def split: prod.splits)
next
  case (LoginFinish e jar cred)
  with assms show ?thesis
    by (auto intro: keepsD [OF keeps_login_finish] simp: map_prod_def split: prod.splits)
next
  case (Logout jar)
  with assms(4,5) have "a' = (case jar SESSION_COOKIE of None \<Rightarrow> a
      | Some tok \<Rightarrow> a\<lparr>a_sessions := put (hremove tok (inner (a_sessions a))) (a_sessions a)\<rparr>)"
    by (simp add: logout_eq auth_inv_clean)
  with assms(4) show ?thesis by (auto simp: auth_inv_defs split: option.split)
next
  case (CheckSession now jar)
  with assms(4,5) show ?thesis
    by (auto simp: session_valid_eq auth_inv_clean intro: auth_inv_drop_expired)
next
  case (Sweep now)
  with assms auth_inv_sweep show ?thesis by auto
qed

definition auth_machine_inv :: "'w webauthn \<Rightarrow> 'w codec \<Rightarrow> 'w history \<times> 'w auth_state \<Rightarrow> bool" where
  "auth_machine_inv w c s \<longleftrightarrow> wa_ok w \<and> codec_ok c \<and> auth_inv w c (snd s)"

interpretation auth_machine: invariant_of "auth_init w c code ids" "auth_step w c" "auth_machine_inv w c"
  for w :: "'w webauthn" and c :: "'w codec" and code :: string and ids :: "'w list"
proof unfold_locales
  fix s :: "'w history \<times> 'w auth_state"
  assume "auth_init w c code ids s"
  then show "auth_machine_inv w c s"
    by (auto simp: auth_init_def auth_machine_inv_def intro: fresh_auth_inv)
next
  fix s t :: "'w history \<times> 'w auth_state"
  assume "auth_step w c s t" and "auth_machine_inv w c s"
  then show "auth_machine_inv w c t"
    by (cases rule: auth_step.cases) (auto simp: auth_machine_inv_def intro: exec_inv permuted_inv)
qed

lemma reachable_inv:
  "auth_reachable w c code ids h a \<Longrightarrow> auth_inv w c a \<and> wa_ok w \<and> codec_ok c"
  using auth_machine.inv_reachable [of w c code ids "(h, a)"] by (simp add: auth_machine_inv_def)

end
