(* ===== verification/Interleaving.thy ===== *)
theory Interleaving
  imports Prelude
begin

text \<open>
  Requests that run at the same time. A task is what is left of a request: a value, or a critical
  section that is executed in one piece and gives the rest of the task. Between two sections of one
  task any other task may run. An invariant is shown section by section, for every state another
  task may have left, with a number of units of a resource of the state that the task owns: what one
  task owns no other task can take away.
\<close>

datatype ('s, 'a) task = Returned 'a | Section "'s \<Rightarrow> ('s, 'a) task \<times> 's"

text \<open>The task without interruption.\<close>

primrec run_alone :: "('s, 'a) task \<Rightarrow> 's \<Rightarrow> 'a \<times> 's" where
  "run_alone (Returned x) = Pair x"
| "run_alone (Section f) = (\<lambda>s. (\<lambda>(rest, s'). rest s') ((map_prod run_alone id \<circ> f) s))"

text \<open>A program as one section, with the early return of the \<open>?\<close> operator.\<close>

definition sect ::
  "('s, 'e, 'x) prog \<Rightarrow> ('x \<Rightarrow> ('s, ('e, 'a) outcome) task) \<Rightarrow> ('s, ('e, 'a) outcome) task" where
  "sect p k =
     Section (\<lambda>s. case p s of
       (Ok x, s') \<Rightarrow> (k x, s')
     | (Err e, s') \<Rightarrow> (Returned (Err e), s')
     | (Panic, s') \<Rightarrow> (Returned Panic, s'))"

lemma run_alone_Section [simp]: "run_alone (Section f) s = (case f s of (t, s') \<Rightarrow> run_alone t s')"
  by (simp split: prod.split)

declare run_alone.simps(2) [simp del]

lemma run_alone_sect [simp]: "run_alone (sect p k) = bind p (\<lambda>x. run_alone (k x))"
  by (rule ext) (simp add: sect_def bind_def split: prod.split outcome.split)

lemma run_alone_map: "run_alone (map_task g t) s = map_prod g id (run_alone t s)"
proof (induction t arbitrary: s)
  case (Section f)
  obtain u s' where u: "f s = (u, s')" by (metis surj_pair)
  then have "run_alone (map_task g u) s' = map_prod g id (run_alone u s')"
    using Section.IH [of "f s" u s'] rangeI [of f s] by (simp add: id_def)
  with u show ?case by (simp add: id_def)
qed simp

section \<open>The pool of running tasks\<close>

record ('s, 'a) pool =
  shared :: 's
  tasks :: "('s, 'a) task list"

inductive pool_step ::
  "(('s, 'a) task \<Rightarrow> bool) \<Rightarrow> ('s \<Rightarrow> 's \<Rightarrow> bool) \<Rightarrow> ('s, 'a) pool \<Rightarrow> ('s, 'a) pool \<Rightarrow> bool"
  for request :: "('s, 'a) task \<Rightarrow> bool" and outside :: "'s \<Rightarrow> 's \<Rightarrow> bool" where
  spawn: "request t \<Longrightarrow> pool_step request outside p (p\<lparr>tasks := tasks p @ [t]\<rparr>)"
| advance:
    "i < length (tasks p) \<Longrightarrow> tasks p ! i = Section f \<Longrightarrow> f (shared p) = (t, s) \<Longrightarrow>
     pool_step request outside p \<lparr>shared = s, tasks = (tasks p)[i := t]\<rparr>"
| other: "outside (shared p) s \<Longrightarrow> pool_step request outside p (p\<lparr>shared := s\<rparr>)"

definition pool_init :: "('s \<Rightarrow> bool) \<Rightarrow> ('s, 'a) pool \<Rightarrow> bool" where
  "pool_init init p \<longleftrightarrow> init (shared p) \<and> tasks p = []"

abbreviation pool_reachable ::
  "('s \<Rightarrow> bool) \<Rightarrow> (('s, 'a) task \<Rightarrow> bool) \<Rightarrow> ('s \<Rightarrow> 's \<Rightarrow> bool) \<Rightarrow> ('s, 'a) pool \<Rightarrow> bool" where
  "pool_reachable init request outside \<equiv> reachable (pool_init init) (pool_step request outside)"

text \<open>The first \<open>n\<close> sections of a task; schedules are made of slices.\<close>

fun slice :: "nat \<Rightarrow> ('s, 'a) task \<Rightarrow> 's \<Rightarrow> ('s, 'a) task \<times> 's" where
  "slice 0 t s = (t, s)"
| "slice (Suc n) (Returned x) s = (Returned x, s)"
| "slice (Suc n) (Section f) s = (case f s of (t, s') \<Rightarrow> slice n t s')"

lemma slice_map: "slice n (map_task g t) s = map_prod (map_task g) id (slice n t s)"
  by (induction n t s rule: slice.induct) (auto split: prod.split)

lemma slice_Returned [simp]: "slice n (Returned x) s = (Returned x, s)"
  by (cases n) simp_all

lemma slice_add: "slice (n + m) t s = (case slice n t s of (t', s') \<Rightarrow> slice m t' s')"
  by (induction n t s rule: slice.induct) (auto split: prod.split)

lemma slice_sect: "slice (Suc n) (sect p k) s =
    (case p s of (Ok x, s') \<Rightarrow> slice n (k x) s' | (Err e, s') \<Rightarrow> (Returned (Err e), s') | (Panic, s') \<Rightarrow> (Returned Panic, s'))"
  by (simp add: sect_def split: prod.split outcome.split)

lemma reach_section:
  assumes "pool_reachable init request outside p" and "i < length (tasks p)"
    and "tasks p ! i = Section f" and "f (shared p) = (t, s)"
  shows "pool_reachable init request outside \<lparr>shared = s, tasks = (tasks p)[i := t]\<rparr>"
  using assms by (blast intro: reachable_step pool_step.advance)

lemma reach_slice:
  "pool_reachable init request outside \<lparr>shared = s, tasks = ts\<rparr> \<Longrightarrow> i < length ts \<Longrightarrow>
   slice n (ts ! i) s = (t, s') \<Longrightarrow> pool_reachable init request outside \<lparr>shared = s', tasks = ts[i := t]\<rparr>"
proof (induction n arbitrary: s ts)
  case 0
  then have "ts[i := t] = ts" "s' = s" by auto
  with 0 show ?case by simp
next
  case (Suc n)
  show ?case
  proof (cases "ts ! i")
    case (Returned x)
    with Suc.prems have "ts[i := t] = ts" "s' = s" by auto
    with Suc.prems show ?thesis by simp
  next
    case (Section f)
    obtain u s1 where u: "f s = (u, s1)" by (metis surj_pair)
    with Section Suc.prems have "pool_reachable init request outside \<lparr>shared = s1, tasks = ts[i := u]\<rparr>"
      using reach_section [OF Suc.prems(1), of i f u s1] by simp
    from Suc.IH [OF this] Section u Suc.prems(2,3) show ?thesis by simp
  qed
qed

lemma reach_alone:
  "pool_reachable init request outside \<lparr>shared = s, tasks = ts\<rparr> \<Longrightarrow> i < length ts \<Longrightarrow> ts ! i = t \<Longrightarrow>
   run_alone t s = (x, s') \<Longrightarrow> pool_reachable init request outside \<lparr>shared = s', tasks = ts[i := Returned x]\<rparr>"
proof (induction t arbitrary: s ts)
  case (Returned y)
  then have "ts[i := Returned x] = ts" "s' = s" by (auto simp: list_update_same_conv)
  with Returned show ?case by simp
next
  case (Section f)
  obtain u s1 where u: "f s = (u, s1)" by (metis surj_pair)
  have step: "pool_reachable init request outside \<lparr>shared = s1, tasks = ts[i := u]\<rparr>"
    using reach_section [OF Section.prems(1), of i f u s1] Section.prems(2,3) u by simp
  have "run_alone u s1 = (x, s')" using Section.prems(4) u by simp
  with Section.IH [of "f s" u, OF _ _ step] Section.prems(2) u show ?case
    using rangeI [of f s] by simp
qed

lemma reach_spawn:
  "pool_reachable init request outside \<lparr>shared = s, tasks = ts\<rparr> \<Longrightarrow> request t \<Longrightarrow>
   pool_reachable init request outside \<lparr>shared = s, tasks = ts @ [t]\<rparr>"
  using pool_step.spawn [of request t outside "\<lparr>shared = s, tasks = ts\<rparr>"] by (auto intro: reachable_step)

section \<open>Tasks that keep an invariant whatever runs between their sections\<close>

text \<open>
  \<open>sound I G r n t\<close>: every section of \<open>t\<close>, run in a state with \<open>I\<close> that has at least the \<open>n\<close> units
  of \<open>r\<close> the task owns, keeps \<open>I\<close>, is a step of \<open>G\<close>, and leaves all units that others own.
\<close>

inductive sound ::
  "('s \<Rightarrow> bool) \<Rightarrow> ('s \<Rightarrow> 's \<Rightarrow> bool) \<Rightarrow> ('s \<Rightarrow> nat) \<Rightarrow> nat \<Rightarrow> ('s, 'a) task \<Rightarrow> bool"
  for I :: "'s \<Rightarrow> bool" and G :: "'s \<Rightarrow> 's \<Rightarrow> bool" and r :: "'s \<Rightarrow> nat" where
  sound_Returned: "sound I G r n (Returned x)"
| sound_Section:
    "(\<And>s t s'. I s \<Longrightarrow> n \<le> r s \<Longrightarrow> f s = (t, s') \<Longrightarrow>
       I s' \<and> G s s' \<and> (\<exists>m. r s + m \<le> r s' + n \<and> sound I G r m t)) \<Longrightarrow>
     sound I G r n (Section f)"

inductive_cases sound_SectionE: "sound I G r n (Section f)"

lemma sound_sect:
  assumes "\<And>s x s'. I s \<Longrightarrow> n \<le> r s \<Longrightarrow> p s = (x, s') \<Longrightarrow>
      I s' \<and> G s s' \<and> (case x of Ok v \<Rightarrow> \<exists>m. r s + m \<le> r s' + n \<and> sound I G r m (k v) | _ \<Rightarrow> r s \<le> r s' + n)"
  shows "sound I G r n (sect p k)"
  unfolding sect_def
proof (rule sound_Section)
  fix s t s'
  assume s: "I s" "n \<le> r s"
    and step: "(case p s of (Ok x, s') \<Rightarrow> (k x, s') | (Err e, s') \<Rightarrow> (Returned (Err e), s')
      | (Panic, s') \<Rightarrow> (Returned Panic, s')) = (t, s')"
  obtain x s'' where p: "p s = (x, s'')" by (metis surj_pair)
  have ended: "\<exists>m. r s + m \<le> r s'' + n \<and> sound I G r m (Returned y)" if "r s \<le> r s'' + n" for y
    using that by (intro exI [of _ 0]) (simp add: sound_Returned)
  show "I s' \<and> G s s' \<and> (\<exists>m. r s + m \<le> r s' + n \<and> sound I G r m t)"
    using assms [OF s p] step p ended by (cases x) auto
qed

text \<open>A section that neither takes nor gives.\<close>

lemma sound_keep:
  assumes "\<And>s x s'. I s \<Longrightarrow> p s = (x, s') \<Longrightarrow>
      I s' \<and> G s s' \<and> r s' = r s \<and> (case x of Ok v \<Rightarrow> sound I G r n (k v) | _ \<Rightarrow> True)"
  shows "sound I G r n (sect p k)"
proof (rule sound_sect)
  fix s x s'
  assume "I s" and "p s = (x, s')"
  from assms [OF this]
  show "I s' \<and> G s s' \<and> (case x of Ok v \<Rightarrow> \<exists>m. r s + m \<le> r s' + n \<and> sound I G r m (k v) | _ \<Rightarrow> r s \<le> r s' + n)"
    by (auto split: outcome.split)
qed

lemma sound_map: "sound I G r n t \<Longrightarrow> sound I G r n (map_task g t)"
proof (induction rule: sound.induct)
  case (sound_Section n f)
  have "sound I G r n (Section (map_prod (map_task g) id \<circ> f))"
  proof (rule sound.sound_Section)
    fix s t s'
    assume "I s" "n \<le> r s" and step: "(map_prod (map_task g) id \<circ> f) s = (t, s')"
    then obtain u where u: "f s = (u, s')" "t = map_task g u" by (cases "f s") auto
    from sound_Section.IH [OF \<open>I s\<close> \<open>n \<le> r s\<close> u(1)] u(2)
    show "I s' \<and> G s s' \<and> (\<exists>m. r s + m \<le> r s' + n \<and> sound I G r m t)" by blast
  qed
  then show ?case by (simp add: comp_def)
qed (simp add: sound_Returned)

text \<open>
  The interface between a service and its invariant under interleaving: its requests are sound
  and own nothing at the start, and the outside steps keep the invariant and the resource.
\<close>

locale sound_pool =
  fixes init :: "'s \<Rightarrow> bool" and request :: "('s, 'a) task \<Rightarrow> bool" and outside :: "'s \<Rightarrow> 's \<Rightarrow> bool"
    and I :: "'s \<Rightarrow> bool" and G :: "'s \<Rightarrow> 's \<Rightarrow> bool" and r :: "'s \<Rightarrow> nat"
  assumes start: "init s \<Longrightarrow> I s"
    and sound_request: "request t \<Longrightarrow> sound I G r 0 t"
    and outside_keeps: "outside s s' \<Longrightarrow> I s \<Longrightarrow> I s' \<and> G s s' \<and> r s' = r s"
    and guar_refl: "G s s"
begin

definition owned :: "('s, 'a) pool \<Rightarrow> bool" where
  "owned p \<longleftrightarrow>
     I (shared p) \<and> (\<exists>ns. list_all2 (sound I G r) ns (tasks p) \<and> sum_list ns \<le> r (shared p))"

lemma owned_advance:
  assumes "owned p" and "i < length (tasks p)" and "tasks p ! i = Section f" and "f (shared p) = (t, s)"
  shows "owned \<lparr>shared = s, tasks = (tasks p)[i := t]\<rparr> \<and> G (shared p) s"
proof -
  obtain ns where ns: "I (shared p)" "list_all2 (sound I G r) ns (tasks p)" "sum_list ns \<le> r (shared p)"
    using assms(1) by (auto simp: owned_def)
  have len: "i < length ns" using ns(2) assms(2) by (simp add: list_all2_lengthD)
  have "sound I G r (ns ! i) (Section f)"
    using list_all2_nthD2 [OF ns(2) assms(2)] assms(3) by simp
  moreover have small: "ns ! i \<le> sum_list ns" using len by (simp add: member_le_sum_list)
  ultimately obtain m where m: "I s" "G (shared p) s" "r (shared p) + m \<le> r s + ns ! i" "sound I G r m t"
    using ns(1,3) assms(4) by (fastforce elim!: sound_SectionE)
  have "list_all2 (sound I G r) (ns[i := m]) ((tasks p)[i := t])"
    using ns(2) m(4) by (rule list_all2_update_cong)
  moreover have "sum_list (ns[i := m]) \<le> r s"
    using sum_list_update [OF len, of m] small ns(3) m(3) by linarith
  ultimately show ?thesis using m(1,2) by (auto simp: owned_def)
qed

lemma owned_step: "pool_step request outside p q \<Longrightarrow> owned p \<Longrightarrow> owned q \<and> G (shared p) (shared q)"
proof (induction rule: pool_step.induct)
  case (spawn t p)
  then obtain ns where "list_all2 (sound I G r) ns (tasks p)" "sum_list ns \<le> r (shared p)" "I (shared p)"
    by (auto simp: owned_def)
  moreover from this have "list_all2 (sound I G r) (ns @ [0]) (tasks p @ [t])"
    using spawn.hyps by (intro list_all2_appendI) (auto intro: sound_request)
  ultimately show ?case by (auto simp: owned_def guar_refl intro!: exI [of _ "ns @ [0]"])
next
  case (advance i p f t s)
  then show ?case using owned_advance by simp
next
  case (other p s)
  then show ?case using outside_keeps [OF other.hyps] by (auto simp: owned_def)
qed

end

sublocale sound_pool \<subseteq> invariant_of "pool_init init" "pool_step request outside" owned
proof unfold_locales
  show "pool_init init p \<Longrightarrow> owned p" for p
    by (auto simp: pool_init_def owned_def intro: start)
  show "pool_step request outside p q \<Longrightarrow> owned p \<Longrightarrow> owned q" for p q
    using owned_step by blast
qed

context sound_pool
begin

lemma shared_inv: "pool_reachable init request outside p \<Longrightarrow> I (shared p)"
  using inv_reachable by (auto simp: owned_def)

lemma step_guar:
  "pool_reachable init request outside p \<Longrightarrow> pool_step request outside p q \<Longrightarrow> G (shared p) (shared q)"
  using inv_reachable owned_step by blast

end

end
