(* ===== verification/Auth_Tasks.thy ===== *)
theory Auth_Tasks
  imports Auth_Trace Interleaving
begin

text \<open>
  The handlers of \<open>src/src/auth.rs\<close> as tasks: one section for each time a handler holds a mutex,
  and one for each system call of \<open>persist\<close>, which serialises under the lock of the store and writes
  the file without it. A section of the store that looks up the session inside is one section: the
  store is locked throughout. Sections do not wait here; \<open>Auth_Returns\<close> has the waiting. Run without
  interruption, a task is its handler.
\<close>

text \<open>The system calls of one request; the handle is the request's own.\<close>

fun calls_task ::
  "(nat \<Rightarrow> bool) \<Rightarrow> nat \<Rightarrow> sys_op list \<Rightarrow> handle option
     \<Rightarrow> (bool \<Rightarrow> ('w auth_state, 'a) task) \<Rightarrow> ('w auth_state, 'a) task" where
  "calls_task ok i [] h k = k True"
| "calls_task ok i (op # ops) h k =
     Section (\<lambda>a.
       if \<not> ok i then (k False, a)
       else case sys_call op (h, a_disk a) of
              None \<Rightarrow> (k False, a)
            | Some (h', d) \<Rightarrow> (calls_task ok (Suc i) ops h' k, a\<lparr>a_disk := d\<rparr>))"

definition persist_task ::
  "'w codec \<Rightarrow> env \<Rightarrow> (bool \<Rightarrow> ('w auth_state, 'a) task) \<Rightarrow> ('w auth_state, 'a) task" where
  "persist_task c e k =
     Section (\<lambda>a.
       (case lock (a_store a) of
          None \<Rightarrow> k False
        | Some s \<Rightarrow>
            (case to_json c s of
               None \<Rightarrow> k False
             | Some json \<Rightarrow>
                 calls_task (io_ok e) 0 (replace_ops (tmp_path (a_path a)) (a_path a) (io_split e json)) None k),
        a))"

type_synonym ('w, 'a) auth_task = "('w auth_state, (http_error, 'a) outcome) task"

definition register_start_task ::
  "'w webauthn \<Rightarrow> env \<Rightarrow> jar \<Rightarrow> string option option \<Rightarrow> ('w, jar_op list \<times> 'w) auth_task" where
  "register_start_task w e jar body =
     sect (session_valid (clk e 0) jar) (\<lambda>signed_in.
     sect (reg_mode_of signed_in) (\<lambda>mode.
     sect (check_code mode body) (\<lambda>_.
     sect (intended_user w e) (\<lambda>(uid, exclude).
       case start_reg w (wa_seed e) uid ''admin'' ''admin'' exclude of
         Inl err \<Rightarrow> Returned (Err (INTERNAL_SERVER_ERROR, Library err))
       | Inr (ccr, reg_state) \<Rightarrow>
           sect (remember_user uid) (\<lambda>_.
           sect (park_reg e reg_state mode) (\<lambda>_.
           Returned (Ok ([JarAdd (build_cookie REG_COOKIE (hex32 (rand32 e)))], ccr))))))))"

definition finish_session ::
  "env \<Rightarrow> nat \<Rightarrow> string \<Rightarrow> ('w, jar_op list \<times> status_code) auth_task" where
  "finish_session e i name =
     sect (new_session (clk e i) (clk e (Suc i)) (rand32 e)) (\<lambda>session.
     Returned (Ok ([JarRemove (clear_cookie name), JarAdd session], OK)))"

definition close_task :: "reg_mode \<Rightarrow> ('w, 'a) auth_task \<Rightarrow> ('w, 'a) auth_task" where
  "close_task mode t =
     (if mode = Bootstrap
      then sect (with_lock a_reg (\<lambda>m a. (Ok (), a\<lparr>a_reg := put [] (a_reg a)\<rparr>))) (\<lambda>_.
           sect (with_lock a_bootstrap (\<lambda>u a. (Ok (), a\<lparr>a_bootstrap := put None (a_bootstrap a)\<rparr>))) (\<lambda>_. t))
      else t)"

text \<open>The rest of a registration: the save with its undo, then what only a saved credential gets.\<close>

definition save_task :: "'w codec \<Rightarrow> env \<Rightarrow> reg_mode \<Rightarrow> ('w, jar_op list \<times> status_code) auth_task" where
  "save_task c e mode =
     persist_task c e (\<lambda>ok.
       if ok then close_task mode (finish_session e 2 REG_COOKIE)
       else sect undo_push (\<lambda>_. Returned (Err (INTERNAL_SERVER_ERROR, SaveFailed))))"

definition register_finish_task ::
  "'w webauthn \<Rightarrow> 'w codec \<Rightarrow> env \<Rightarrow> jar \<Rightarrow> 'w \<Rightarrow> ('w, jar_op list \<times> status_code) auth_task" where
  "register_finish_task w c e jar cred =
     (case jar REG_COOKIE of
        None \<Rightarrow> Returned (Err (BAD_REQUEST, NoCeremony))
      | Some rid \<Rightarrow>
          sect (take_reg (clk e 0) rid) (\<lambda>(reg_state, mode).
          case finish_reg w cred reg_state of
            Inl err \<Rightarrow> Returned (Err (BAD_REQUEST, Library err))
          | Inr pk \<Rightarrow>
              sect (enrol w (clk e 1) jar mode pk) (\<lambda>_. save_task c e mode)))"

definition login_start_task :: "'w webauthn \<Rightarrow> env \<Rightarrow> ('w, jar_op list \<times> 'w) auth_task" where
  "login_start_task w e =
     sect (with_lock a_store (\<lambda>s. ret (passkeys s))) (\<lambda>pks.
     if pks = [] then Returned (Err (BAD_REQUEST, NoAccount))
     else case start_auth w (wa_seed e) pks of
            Inl err \<Rightarrow> Returned (Err (INTERNAL_SERVER_ERROR, Library err))
          | Inr (rcr, auth_state) \<Rightarrow>
              sect (with_lock a_auth (\<lambda>m a.
                     (Ok (),
                      a\<lparr>a_auth := put (insert_capped auth_exp (clk e 1) (hex32 (rand32 e))
                          (auth_state, clk e 0 + CEREMONY_TTL) m) (a_auth a)\<rparr>))) (\<lambda>_.
              Returned (Ok ([JarAdd (build_cookie AUTH_COOKIE (hex32 (rand32 e)))], rcr))))"

text \<open>Whether the counters could be saved makes no difference to the sign-in.\<close>

definition login_finish_task ::
  "'w webauthn \<Rightarrow> 'w codec \<Rightarrow> env \<Rightarrow> jar \<Rightarrow> 'w \<Rightarrow> ('w, jar_op list \<times> status_code) auth_task" where
  "login_finish_task w c e jar cred =
     (case jar AUTH_COOKIE of
        None \<Rightarrow> Returned (Err (BAD_REQUEST, NoCeremony))
      | Some aid \<Rightarrow>
          sect (take_auth (clk e 0) aid) (\<lambda>auth_state.
          case finish_auth w cred auth_state of
            Inl err \<Rightarrow> Returned (Err (UNAUTHORIZED, Library err))
          | Inr result \<Rightarrow>
              sect (bump_counters w result) (\<lambda>_.
              persist_task c e (\<lambda>_. finish_session e 1 AUTH_COOKIE))))"

definition logout_section :: "jar \<Rightarrow> ('w, unit) handler" where
  "logout_section jar a =
     (case jar SESSION_COOKIE of
        None \<Rightarrow> (Ok (), a)
      | Some tok \<Rightarrow>
          with_lock a_sessions (\<lambda>m a. (Ok (), a\<lparr>a_sessions := put (hremove tok m) (a_sessions a)\<rparr>)) a)"

text \<open>The sweep reads the clock once and locks the three maps one after the other.\<close>

definition sweep_task :: "time \<Rightarrow> ('w auth_state, bool) task" where
  "sweep_task now =
     Section (\<lambda>a. (
     Section (\<lambda>a. (
     Section (\<lambda>a. (Returned True,
       a\<lparr>a_sessions := retain_mutex (\<lambda>v. now < v) (a_sessions a)\<rparr>)),
       a\<lparr>a_auth := retain_mutex (\<lambda>v. now < auth_exp v) (a_auth a)\<rparr>)),
       a\<lparr>a_reg := retain_mutex (\<lambda>v. now < reg_exp v) (a_reg a)\<rparr>))"

definition task_of :: "'w webauthn \<Rightarrow> 'w codec \<Rightarrow> 'w action \<Rightarrow> ('w auth_state, bool) task" where
  "task_of w c act =
     (case act of
        RegStart e jar body \<Rightarrow> map_task is_ok (register_start_task w e jar body)
      | RegFinish e jar cred \<Rightarrow> map_task is_ok (register_finish_task w c e jar cred)
      | LoginStart e \<Rightarrow> map_task is_ok (login_start_task w e)
      | LoginFinish e jar cred \<Rightarrow> map_task is_ok (login_finish_task w c e jar cred)
      | Logout jar \<Rightarrow> map_task is_ok (sect (logout_section jar) (\<lambda>_. Returned (Ok ())))
      | CheckSession now jar \<Rightarrow>
          map_task (\<lambda>x. x = Ok True) (sect (session_valid now jar) (\<lambda>ok. Returned (Ok ok) :: ('w, bool) auth_task))
      | Sweep now \<Rightarrow> sweep_task now)"

section \<open>A task that is not interrupted is the handler\<close>

lemma run_alone_calls:
  "run_alone (calls_task ok i ops h k) a =
     (case sys_calls ok i ops (h, a_disk a) of (r, _, d) \<Rightarrow> run_alone (k r) (a\<lparr>a_disk := d\<rparr>))"
  by (induction ops arbitrary: i h a) (auto split: prod.split option.split)

lemma run_alone_persist:
  "run_alone (persist_task c e k) a = (case persist c e a of (r, a') \<Rightarrow> run_alone (k (is_ok r)) a')"
  by (simp add: persist_task_def persist_def run_alone_calls replace_file_def is_ok_def
      split: option.split prod.split)

lemma run_alone_finish:
  "run_alone (finish_session e i name) =
     bind (new_session (clk e i) (clk e (Suc i)) (rand32 e)) (\<lambda>session.
     ret ([JarRemove (clear_cookie name), JarAdd session], OK))"
  by (simp add: finish_session_def ret_def fun_eq_iff bind_def split: prod.split outcome.split)

lemma run_alone_close: "run_alone (close_task mode t) = bind (close_bootstrap mode) (\<lambda>_. run_alone t)"
  by (simp add: close_task_def close_bootstrap_def bind_assoc)

lemma run_alone_Returned: "run_alone (Returned (Ok x)) = ret x" "run_alone (Returned (Err e)) = throw e"
  by (simp_all add: ret_def throw_def fun_eq_iff)

lemma persist_never_panics: "fst (persist c e a) \<noteq> Panic"
  by (simp add: persist_def split: option.split prod.split)

lemma run_alone_save:
  "run_alone (persist_task c e (\<lambda>ok. if ok then t else sect undo_push (\<lambda>_. Returned (Err x))))
     = bind (\<lambda>a. case persist c e a of
          (Ok _, a') \<Rightarrow> (Ok (), a')
        | (Err _, a') \<Rightarrow> bind undo_push (\<lambda>_. throw x) a'
        | (Panic, a') \<Rightarrow> (Panic, a')) (\<lambda>_. run_alone t)"
proof
  fix a
  obtain r a' where "persist c e a = (r, a')" by (metis surj_pair)
  moreover from this have "r \<noteq> Panic" using persist_never_panics [of c e a] by auto
  moreover have "fst (bind undo_push (\<lambda>_. throw x) a' :: _ \<times> _) \<noteq> Ok u" for u :: 'a
    by (auto simp: bind_def throw_def split: prod.splits outcome.splits)
  ultimately show "run_alone (persist_task c e (\<lambda>ok. if ok then t else sect undo_push (\<lambda>_. Returned (Err x)))) a
     = bind (\<lambda>a. case persist c e a of
          (Ok _, a') \<Rightarrow> (Ok (), a')
        | (Err _, a') \<Rightarrow> bind undo_push (\<lambda>_. throw x) a'
        | (Panic, a') \<Rightarrow> (Panic, a')) (\<lambda>_. run_alone t) a"
    by (cases r) (auto simp: run_alone_persist is_ok_def bind_def throw_def run_alone_Returned
        split: prod.split outcome.split)
qed

lemmas run_alone_cases =
  prod.case_distrib [where h = run_alone] sum.case_distrib [where h = run_alone]
  option.case_distrib [where h = run_alone] if_distrib [where f = run_alone]

lemma Pair_ret: "Pair (Ok x) = ret x" "Pair (Err e) = throw e"
  by (simp_all add: ret_def throw_def fun_eq_iff)

lemmas run_alone_simps = run_alone_cases Pair_ret

lemma run_alone_register_start: "run_alone (register_start_task w e jar body) = register_start w e jar body"
  unfolding register_start_task_def register_start_def
  by (simp add: run_alone_simps cong: sum.case_cong prod.case_cong)

lemma run_alone_register_finish: "run_alone (register_finish_task w c e jar cred) = register_finish w c e jar cred"
  unfolding register_finish_task_def register_finish_def save_task_def
  by (simp add: run_alone_simps run_alone_save run_alone_close run_alone_finish persist_or_undo_def [abs_def]
        eval_nat_numeral cong: sum.case_cong prod.case_cong option.case_cong)

lemma run_alone_login_start: "run_alone (login_start_task w e) = login_start w e"
  unfolding login_start_task_def login_start_def
  by (simp add: run_alone_simps cong: sum.case_cong prod.case_cong if_cong)

lemma run_alone_best_effort:
  "run_alone (persist_task c e (\<lambda>_. t)) = bind (persist_best_effort c e) (\<lambda>_. run_alone t)"
proof
  fix a
  obtain r a' where "persist c e a = (r, a')" by (metis surj_pair)
  moreover from this have "r \<noteq> Panic" using persist_never_panics [of c e a] by auto
  ultimately show "run_alone (persist_task c e (\<lambda>_. t)) a = bind (persist_best_effort c e) (\<lambda>_. run_alone t) a"
    by (cases r) (simp_all add: run_alone_persist persist_best_effort_def bind_def)
qed

lemma run_alone_login_finish: "run_alone (login_finish_task w c e jar cred) = login_finish w c e jar cred"
  unfolding login_finish_task_def login_finish_def
  by (simp add: run_alone_simps run_alone_best_effort run_alone_finish eval_nat_numeral
      cong: sum.case_cong option.case_cong)

end
