(* ===== verification/Auth_Provenance.thy ===== *)
theory Auth_Provenance
  imports Auth_Trace
begin

text \<open>
  Where the entries of the authentication state come from. \<open>issued\<close> derives a session from the
  history: a verified sign-in, a registration started with the one-time code, or a registration
  finished under an earlier session. The second invariant of the service machine, \<open>prov_inv\<close>,
  says that every session, every pending ceremony and every credential has such an origin.
\<close>

text \<open>
  A pending sign-in and the request that parked it: the library was given a list of keys that is not
  empty, each of them loaded at the start (\<open>ids\<close>) or enrolled before (\<open>E\<close>).
\<close>

definition auth_started ::
  "'w webauthn \<Rightarrow> ('w history \<Rightarrow> 'w \<Rightarrow> bool) \<Rightarrow> 'w list \<Rightarrow> 'w history \<Rightarrow> string \<Rightarrow> 'w \<Rightarrow> time \<Rightarrow> bool" where
  "auth_started w E ids h aid st expiry \<longleftrightarrow>
     (\<exists>h1 h2 e pks rcr. h = h1 @ (LoginStart e, True) # h2 \<and> aid = hex32 (rand32 e) \<and> expiry = clk e 0 + CEREMONY_TTL
        \<and> pks \<noteq> [] \<and> (\<forall>pk\<in>set pks. cred_id w pk \<in> set ids \<or> E h1 (cred_id w pk))
        \<and> start_auth w (wa_seed e) pks = Inr (rcr, st))"

lemma auth_started_E [mono]:
  "(\<And>g i. E g i \<longrightarrow> F g i) \<Longrightarrow> auth_started w E ids h aid st x \<longrightarrow> auth_started w F ids h aid st x"
  unfolding auth_started_def
proof (intro impI, elim exE conjE)
  fix h1 h2 e pks rcr
  assume mono: "\<And>g i. E g i \<longrightarrow> F g i" and keys: "\<forall>pk\<in>set pks. cred_id w pk \<in> set ids \<or> E h1 (cred_id w pk)"
    and rest: "h = h1 @ (LoginStart e, True) # h2" "aid = hex32 (rand32 e)" "x = clk e 0 + CEREMONY_TTL" "pks \<noteq> []"
      "start_auth w (wa_seed e) pks = Inr (rcr, st)"
  have "\<forall>pk\<in>set pks. cred_id w pk \<in> set ids \<or> F h1 (cred_id w pk)" using keys mono by blast
  with rest show "\<exists>h1 h2 e pks rcr. h = h1 @ (LoginStart e, True) # h2 \<and> aid = hex32 (rand32 e)
      \<and> x = clk e 0 + CEREMONY_TTL \<and> pks \<noteq> [] \<and> (\<forall>pk\<in>set pks. cred_id w pk \<in> set ids \<or> F h1 (cred_id w pk))
      \<and> start_auth w (wa_seed e) pks = Inr (rcr, st)"
    by (intro exI [of _ h1] exI [of _ h2] exI [of _ e] exI [of _ pks] exI [of _ rcr]) simp
qed

definition reg_started ::
  "'w webauthn \<Rightarrow> string \<Rightarrow> 'w history \<Rightarrow> string \<Rightarrow> 'w \<Rightarrow> reg_mode \<Rightarrow> time \<Rightarrow> bool" where
  "reg_started w code h rid st mode expiry \<longleftrightarrow>
     (\<exists>e jar body u ex ccr. (RegStart e jar body, True) \<in> set h \<and> rid = hex32 (rand32 e)
        \<and> expiry = clk e 1 + CEREMONY_TTL \<and> (mode = Bootstrap \<longrightarrow> given_code body = code)
        \<and> start_reg w (wa_seed e) u ''admin'' ''admin'' ex = Inr (ccr, st))"

text \<open>
  Sessions, by the request that issued them after the history \<open>h1\<close>, and the ids of credentials that were
  enrolled after the start, by their registration.
\<close>

inductive issued :: "'w webauthn \<Rightarrow> string \<Rightarrow> 'w list \<Rightarrow> 'w history \<Rightarrow> string \<Rightarrow> time \<Rightarrow> bool"
  and enrolled_id :: "'w webauthn \<Rightarrow> string \<Rightarrow> 'w list \<Rightarrow> 'w history \<Rightarrow> 'w \<Rightarrow> bool"
  for w :: "'w webauthn" and code :: string and ids :: "'w list" where
  by_sign_in:
    "auth_started w (enrolled_id w code ids) ids h1 aid st x \<Longrightarrow> jar AUTH_COOKIE = Some aid \<Longrightarrow> clk e 0 < x \<Longrightarrow>
     finish_auth w cred st = Inr result \<Longrightarrow>
     issued w code ids (h1 @ (LoginFinish e jar cred, True) # h2) (hex32 (rand32 e)) (clk e 2 + SESSION_TTL)"
| by_claim:
    "reg_started w code h1 rid st Bootstrap x \<Longrightarrow> jar REG_COOKIE = Some rid \<Longrightarrow> clk e 0 < x \<Longrightarrow>
     finish_reg w cred st = Inr pk \<Longrightarrow>
     issued w code ids (h1 @ (RegFinish e jar cred, True) # h2) (hex32 (rand32 e)) (clk e 3 + SESSION_TTL)"
| by_device:
    "reg_started w code h1 rid st AddDevice x \<Longrightarrow> jar REG_COOKIE = Some rid \<Longrightarrow> clk e 0 < x \<Longrightarrow>
     finish_reg w cred st = Inr pk \<Longrightarrow>
     issued w code ids h1 tok y \<Longrightarrow> jar SESSION_COOKIE = Some tok \<Longrightarrow> clk e 1 < y \<Longrightarrow>
     issued w code ids (h1 @ (RegFinish e jar cred, True) # h2) (hex32 (rand32 e)) (clk e 3 + SESSION_TTL)"
| by_registration:
    "reg_started w code h1 rid st mode x \<Longrightarrow> jar REG_COOKIE = Some rid \<Longrightarrow> clk e 0 < x \<Longrightarrow>
     finish_reg w cred st = Inr pk \<Longrightarrow>
     mode = AddDevice \<longrightarrow> (\<exists>tok y. jar SESSION_COOKIE = Some tok \<and> clk e 1 < y \<and> issued w code ids h1 tok y) \<Longrightarrow>
     enrolled_id w code ids (h1 @ (RegFinish e jar cred, True) # h2) (cred_id w pk)"

abbreviation sign_in_started :: "'w webauthn \<Rightarrow> string \<Rightarrow> 'w list \<Rightarrow> 'w history \<Rightarrow> string \<Rightarrow> 'w \<Rightarrow> time \<Rightarrow> bool" where
  "sign_in_started w code ids \<equiv> auth_started w (enrolled_id w code ids) ids"

definition prov_inv ::
  "'w webauthn \<Rightarrow> string \<Rightarrow> 'w list \<Rightarrow> 'w history \<Rightarrow> 'w auth_state \<Rightarrow> bool" where
  "prov_inv w code ids h a \<longleftrightarrow>
     (\<forall>tok x. (tok, x) \<in> set (inner (a_sessions a)) \<longrightarrow> issued w code ids h tok x)
     \<and> (\<forall>aid st x. (aid, st, x) \<in> set (inner (a_auth a)) \<longrightarrow> sign_in_started w code ids h aid st x)
     \<and> (\<forall>rid st m x. (rid, st, m, x) \<in> set (inner (a_reg a)) \<longrightarrow> reg_started w code h rid st m x)
     \<and> (\<forall>t. inner (a_bootstrap a) = Some t \<longrightarrow> t = code)
     \<and> (\<exists>new. cred_ids w a = ids @ new \<and> (\<forall>i\<in>set new. enrolled_id w code ids h i))"

section \<open>Origins stay valid as the history grows\<close>

lemma auth_started_mono: "auth_started w E ids h aid st x \<Longrightarrow> auth_started w E ids (h @ h') aid st x"
  unfolding auth_started_def by (metis append.assoc append_Cons)

lemma reg_started_mono: "reg_started w code h rid st m x \<Longrightarrow> reg_started w code (h @ h') rid st m x"
  unfolding reg_started_def by (metis Un_iff set_append)

lemma issued_mono: "issued w code ids h tok x \<Longrightarrow> issued w code ids (h @ h') tok x"
  by (erule issued.cases) (auto intro: by_sign_in by_claim by_device)

lemma enrolled_id_mono: "enrolled_id w code ids h i \<Longrightarrow> enrolled_id w code ids (h @ h') i"
  by (erule enrolled_id.cases) (simp, rule by_registration, assumption+, simp)

text \<open>What was enrolled since counts as loaded when the service is looked at from a later moment.\<close>

lemma more_ids:
  assumes "set ids \<subseteq> set ids'"
  shows issued_ids: "issued w code ids h tok x \<Longrightarrow> issued w code ids' h tok x"
    and enrolled_ids: "enrolled_id w code ids h i \<Longrightarrow> enrolled_id w code ids' h i"
proof (induction rule: issued_enrolled_id.inducts)
  case (by_sign_in h1 aid st x jar e cred result h2)
  then have "auth_started w (enrolled_id w code ids') ids h1 aid st x"
    by (elim auth_started_E [THEN mp, rotated]) simp
  with assms have "sign_in_started w code ids' h1 aid st x"
    unfolding auth_started_def by blast
  with by_sign_in show ?case by (auto intro: issued_enrolled_id.by_sign_in)
next
  case (by_registration h1 rid st mode x jar e cred pk h2)
  then show ?case by (intro issued_enrolled_id.by_registration) auto
qed (auto intro: issued_enrolled_id.intros)

lemma sign_in_ids:
  assumes "set ids \<subseteq> set ids'" and "sign_in_started w code ids h aid st x"
  shows "sign_in_started w code ids' h aid st x"
  using assms(2) enrolled_ids [OF assms(1)] assms(1) unfolding auth_started_def by (elim exE conjE) blast

lemma prov_sessionD:
  "prov_inv w code ids h a \<Longrightarrow> (tok, x) \<in> set (inner (a_sessions a)) \<Longrightarrow> issued w code ids h tok x"
  by (simp add: prov_inv_def)

lemma prov_authD:
  "prov_inv w code ids h a \<Longrightarrow> (aid, st, x) \<in> set (inner (a_auth a)) \<Longrightarrow> sign_in_started w code ids h aid st x"
  by (simp add: prov_inv_def)

lemma prov_regD:
  "prov_inv w code ids h a \<Longrightarrow> (rid, st, m, x) \<in> set (inner (a_reg a)) \<Longrightarrow> reg_started w code h rid st m x"
  by (simp add: prov_inv_def)

lemma prov_codeD: "prov_inv w code ids h a \<Longrightarrow> inner (a_bootstrap a) = Some t \<Longrightarrow> t = code"
  by (simp add: prov_inv_def)

lemma prov_credsD:
  "prov_inv w code ids h a \<Longrightarrow> \<exists>new. cred_ids w a = ids @ new \<and> (\<forall>i\<in>set new. enrolled_id w code ids h i)"
  by (simp add: prov_inv_def)

text \<open>
  A step that adds at most entries with an origin keeps every origin. \<open>S\<close>, \<open>U\<close> and \<open>R\<close> are the
  new sessions and ceremonies, \<open>N\<close> the new credentials.
\<close>

lemma prov_extend:
  assumes old: "prov_inv w code ids h a" and "cred_ids w a' = cred_ids w a @ N"
    and "\<And>i. i \<in> set N \<Longrightarrow> enrolled_id w code ids (h @ h') i"
    and "set (inner (a_sessions a')) \<subseteq> S \<union> set (inner (a_sessions a))"
    and "\<And>tok x. (tok, x) \<in> S \<Longrightarrow> issued w code ids (h @ h') tok x"
    and "set (inner (a_auth a')) \<subseteq> U \<union> set (inner (a_auth a))"
    and "\<And>aid st x. (aid, st, x) \<in> U \<Longrightarrow> sign_in_started w code ids (h @ h') aid st x"
    and "set (inner (a_reg a')) \<subseteq> R \<union> set (inner (a_reg a))"
    and "\<And>rid st m x. (rid, st, m, x) \<in> R \<Longrightarrow> reg_started w code (h @ h') rid st m x"
    and "inner (a_bootstrap a') = None \<or> inner (a_bootstrap a') = inner (a_bootstrap a)"
  shows "prov_inv w code ids (h @ h') a'"
  unfolding prov_inv_def
proof (intro conjI allI impI)
  show "issued w code ids (h @ h') tok x" if "(tok, x) \<in> set (inner (a_sessions a'))" for tok x
    using subsetD [OF assms(4) that] assms(5) issued_mono [OF prov_sessionD [OF old]] by blast
  show "sign_in_started w code ids (h @ h') aid st x" if "(aid, st, x) \<in> set (inner (a_auth a'))" for aid st x
    using subsetD [OF assms(6) that] assms(7) auth_started_mono [OF prov_authD [OF old]] by blast
  show "reg_started w code (h @ h') rid st m x" if "(rid, st, m, x) \<in> set (inner (a_reg a'))"
    for rid st m x
    using subsetD [OF assms(8) that] assms(9) reg_started_mono [OF prov_regD [OF old]] by blast
  show "t = code" if "inner (a_bootstrap a') = Some t" for t
    using that assms(10) prov_codeD [OF old] by auto
  obtain new where "cred_ids w a = ids @ new" "\<forall>i\<in>set new. enrolled_id w code ids h i"
    using prov_credsD [OF old] by blast
  with assms(2,3) show "\<exists>new. cred_ids w a' = ids @ new \<and> (\<forall>i\<in>set new. enrolled_id w code ids (h @ h') i)"
    by (intro exI [of _ "new @ N"]) (auto intro: enrolled_id_mono)
qed

lemma prov_refused:
  assumes "prov_inv w code ids h a" and "refused a a'"
  shows "prov_inv w code ids (h @ h') a'"
  by (rule prov_extend [OF assms(1), of _ "[]" _ "{}" "{}" "{}"])
    (use assms(2) in \<open>auto simp: refused_def cred_ids_def\<close>)

lemma set_session_insert: "set (session_insert now k v s) \<subseteq> insert (k, v) (set s)"
  by (auto simp: session_insert_def hinsert_def Let_def split: option.splits if_splits)

section \<open>Every action keeps the origins\<close>

lemma prov_register_start:
  assumes "auth_inv w c a" and "prov_inv w code ids h a"
    and "register_start w e jar body a = (r, a')"
  shows "prov_inv w code ids (h @ [(RegStart e jar body, is_ok r)]) a'"
proof (cases rule: register_start_cases [OF auth_inv_clean [OF assms(1)] assms(3),
      case_names refused started])
  case refused
  with assms(2) show ?thesis by (auto intro: prov_refused)
next
  case (started ccr st m)
  have ok: "is_ok r" using started by (simp add: is_ok_def)
  have code: "m = Bootstrap \<longrightarrow> given_code body = code"
    using started(3) prov_codeD [OF assms(2)] by auto
  show ?thesis
  proof (rule prov_extend [OF assms(2), of _ "[]" _ "{}" "{}"
        "{(hex32 (rand32 e), st, m, clk e 1 + CEREMONY_TTL)}"])
    show "set (inner (a_reg a')) \<subseteq> {(hex32 (rand32 e), st, m, clk e 1 + CEREMONY_TTL)} \<union> set (inner (a_reg a))"
      using started(6) set_insert_capped by fastforce
    show "reg_started w code (h @ [(RegStart e jar body, is_ok r)]) rid st' m' x"
      if "(rid, st', m', x) \<in> {(hex32 (rand32 e), st, m, clk e 1 + CEREMONY_TTL)}" for rid st' m' x
      using that ok code started(5) by (fastforce simp: reg_started_def)
  qed (use started(6) drop_expired_sessions in \<open>auto simp: cred_ids_def creds_def\<close>)
qed

lemma prov_login_start:
  assumes "auth_inv w c a" and "prov_inv w code ids h a" and "login_start w e a = (r, a')"
  shows "prov_inv w code ids (h @ [(LoginStart e, is_ok r)]) a'"
proof (cases "is_ok r")
  case False
  with assms(3) have "a' = a"
    by (auto simp: login_start_eq [OF auth_inv_clean [OF assms(1)]] is_ok_def split: if_splits sum.splits)
  with assms(2) show ?thesis by (auto intro: prov_refused)
next
  case True
  then obtain rcr st where pks: "creds a \<noteq> []" "start_auth w (wa_seed e) (creds a) = Inr (rcr, st)"
    and a': "a' = a\<lparr>a_auth := put (insert_capped auth_exp (clk e 1) (hex32 (rand32 e))
                    (st, clk e 0 + CEREMONY_TTL) (inner (a_auth a))) (a_auth a)\<rparr>"
    using assms(3)
    by (auto simp: login_start_eq [OF auth_inv_clean [OF assms(1)]] is_ok_def split: if_splits sum.splits)
  have keys: "\<forall>pk\<in>set (creds a). cred_id w pk \<in> set ids \<or> enrolled_id w code ids h (cred_id w pk)"
    using prov_credsD [OF assms(2)] by (fastforce simp: cred_ids_def dest!: arg_cong [where f = set])
  show ?thesis
  proof (rule prov_extend [OF assms(2), of _ "[]" _ "{}" "{(hex32 (rand32 e), st, clk e 0 + CEREMONY_TTL)}" "{}"])
    show "set (inner (a_auth a')) \<subseteq> {(hex32 (rand32 e), st, clk e 0 + CEREMONY_TTL)} \<union> set (inner (a_auth a))"
      using a' set_insert_capped by fastforce
    show "sign_in_started w code ids (h @ [(LoginStart e, is_ok r)]) aid st' x"
      if "(aid, st', x) \<in> {(hex32 (rand32 e), st, clk e 0 + CEREMONY_TTL)}" for aid st' x
      unfolding auth_started_def
      by (rule exI [of _ h], rule exI [of _ "[]"], rule exI [of _ e], rule exI [of _ "creds a"])
        (use that True pks keys in auto)
  qed (use a' in \<open>auto simp: cred_ids_def creds_def\<close>)
qed

lemma prov_login_finish:
  assumes "auth_inv w c a" and "wa_ok w" "codec_ok c" "env_ok e" and "prov_inv w code ids h a"
    and "login_finish w c e jar cred a = (r, a')"
  shows "prov_inv w code ids (h @ [(LoginFinish e jar cred, is_ok r)]) a'"
proof (cases rule: login_finish_cases [OF assms(1-4,6), case_names refused signed_in])
  case refused
  with assms(5) show ?thesis by (auto intro: prov_refused)
next
  case (signed_in aid st x result)
  have ok: "is_ok r" using signed_in(1) by (simp add: is_ok_def)
  have "sign_in_started w code ids h aid st x"
    using signed_in(3) assms(5) by (auto dest: hget_SomeD prov_authD)
  with signed_in ok have new: "issued w code ids (h @ [(LoginFinish e jar cred, is_ok r)])
      (hex32 (rand32 e)) (clk e 2 + SESSION_TTL)"
    by (auto intro: by_sign_in)
  show ?thesis
  proof (rule prov_extend [OF assms(5), of _ "[]" _ "{(hex32 (rand32 e), clk e 2 + SESSION_TTL)}" "{}" "{}"])
    show "cred_ids w a' = cred_ids w a @ []"
      using signed_in(6) assms(2) by (simp add: cred_ids_def wa_ok_def o_def)
    show "set (inner (a_sessions a')) \<subseteq> {(hex32 (rand32 e), clk e 2 + SESSION_TTL)} \<union> set (inner (a_sessions a))"
      using signed_in(7) set_session_insert by fastforce
  qed (use signed_in new in auto)
qed

lemma live_issued:
  assumes "prov_inv w code ids h a" and "live_session now jar a"
  shows "\<exists>tok y. jar SESSION_COOKIE = Some tok \<and> now < y \<and> issued w code ids h tok y"
  using assms by (fastforce simp: live_session_def dest: hget_SomeD prov_sessionD)

lemma prov_register_finish:
  assumes "auth_inv w c a" and "codec_ok c" "env_ok e" and "prov_inv w code ids h a"
    and "register_finish w c e jar cred a = (r, a')"
  shows "prov_inv w code ids (h @ [(RegFinish e jar cred, is_ok r)]) a'"
proof (cases rule: register_finish_cases [OF assms(1-3,5), case_names refused enrolled])
  case refused
  with assms(4) show ?thesis by (auto intro: prov_refused)
next
  case (enrolled rid st m x pk)
  let ?h = "h @ [(RegFinish e jar cred, is_ok r)]"
  have ok: "is_ok r" using enrolled(1) by (simp add: is_ok_def)
  have started: "reg_started w code h rid st m x"
    using enrolled(3) assms(4) by (auto dest: hget_SomeD prov_regD)
  have via: "m = AddDevice \<Longrightarrow> \<exists>tok y. jar SESSION_COOKIE = Some tok \<and> clk e 1 < y \<and> issued w code ids h tok y"
    using enrolled(6) live_issued [OF assms(4)] by simp
  have "issued w code ids ?h (hex32 (rand32 e)) (clk e 3 + SESSION_TTL)"
    using started enrolled ok via by (cases m) (auto intro: by_claim by_device)
  moreover have "enrolled_id w code ids ?h (cred_id w pk)"
    unfolding eqTrueI [OF ok] by (rule by_registration) (use started enrolled via in auto)
  moreover have "cred_ids w a' = cred_ids w a @ [cred_id w pk]"
    using enrolled(8) by (simp add: cred_ids_def)
  moreover have "set (inner (a_sessions a')) \<subseteq> {(hex32 (rand32 e), clk e 3 + SESSION_TTL)} \<union> set (inner (a_sessions a))"
    using enrolled(9) set_session_insert by fastforce
  ultimately show ?thesis
    by (intro prov_extend [OF assms(4), of _ "[cred_id w pk]" _
          "{(hex32 (rand32 e), clk e 3 + SESSION_TTL)}" "{}" "{}"])
      (use enrolled in auto)
qed

lemma refused_logout:
  "refused a (case jar SESSION_COOKIE of None \<Rightarrow> a
     | Some tok \<Rightarrow> a\<lparr>a_sessions := put (hremove tok (inner (a_sessions a))) (a_sessions a)\<rparr>)"
  by (auto simp: refused_def creds_def split: option.split)

lemma refused_sweep: "refused a (sweep now a)"
  by (auto simp: refused_def sweep_def retain_mutex_def creds_def dest!: lock_SomeD split: option.split)

lemma prov_exec:
  assumes "wa_ok w" and "codec_ok c" and "action_ok act" and "auth_inv w c a"
    and "prov_inv w code ids h a" and "exec w c act a = (ok, a')"
  shows "prov_inv w code ids (h @ [(act, ok)]) a'"
proof (cases act)
  case (RegStart e jar body)
  with assms show ?thesis by (auto simp: map_prod_def split: prod.splits intro: prov_register_start)
next
  case (RegFinish e jar cred)
  with assms show ?thesis by (auto simp: map_prod_def split: prod.splits intro: prov_register_finish)
next
  case (LoginStart e)
  with assms show ?thesis by (auto simp: map_prod_def split: prod.splits intro: prov_login_start)
next
  case (LoginFinish e jar cred)
  with assms show ?thesis by (auto simp: map_prod_def split: prod.splits intro: prov_login_finish)
next
  case (Logout jar)
  with assms(4,6) have "refused a a'" using refused_logout [of a jar]
    by (simp add: logout_eq auth_inv_clean)
  with assms(5) show ?thesis by (rule prov_refused)
next
  case (CheckSession now jar)
  with assms(4,6) have "refused a a'" by (auto simp: session_valid_eq auth_inv_clean)
  with assms(5) show ?thesis by (rule prov_refused)
next
  case (Sweep now)
  with assms(6) have "refused a a'" using refused_sweep [of a now] by auto
  with assms(5) show ?thesis by (rule prov_refused)
qed

lemma prov_permuted: "permuted a a' \<Longrightarrow> prov_inv w code ids h a \<Longrightarrow> prov_inv w code ids h a'"
  by (drule prov_refused [of w code ids h a a' "[]"])
    (auto simp: permuted_def refused_def creds_def dest: mset_eq_setD)

definition prov_machine_inv ::
  "'w webauthn \<Rightarrow> 'w codec \<Rightarrow> string \<Rightarrow> 'w list \<Rightarrow> 'w history \<times> 'w auth_state \<Rightarrow> bool" where
  "prov_machine_inv w c code ids s \<longleftrightarrow>
     auth_machine_inv w c s \<and> prov_inv w code ids (fst s) (snd s)"

lemma prov_init: "auth_init w c code ids s \<Longrightarrow> prov_inv w code ids (fst s) (snd s)"
  by (auto simp: auth_init_def prov_inv_def fresh_auth_state_def new_mutex_def cred_ids_def creds_def
      split: if_splits)

interpretation prov_machine: invariant_of "auth_init w c code ids" "auth_step w c"
    "prov_machine_inv w c code ids"
  for w :: "'w webauthn" and c :: "'w codec" and code :: string and ids :: "'w list"
proof unfold_locales
  fix s :: "'w history \<times> 'w auth_state"
  assume init: "auth_init w c code ids s"
  show "prov_machine_inv w c code ids s"
    using auth_machine.inv_init [OF init] prov_init [OF init] by (simp add: prov_machine_inv_def)
next
  fix s t :: "'w history \<times> 'w auth_state"
  assume step: "auth_step w c s t" and inv: "prov_machine_inv w c code ids s"
  from inv have "auth_machine_inv w c t"
    using auth_machine.inv_step [OF step] by (simp add: prov_machine_inv_def)
  with step inv show "prov_machine_inv w c code ids t"
    by (cases rule: auth_step.cases)
      (auto simp: prov_machine_inv_def auth_machine_inv_def intro: prov_exec prov_permuted)
qed

lemma reachable_prov: "auth_reachable w c code ids h a \<Longrightarrow> prov_inv w code ids h a"
  using prov_machine.inv_reachable [of w c code ids "(h, a)"] by (simp add: prov_machine_inv_def)

end
