(* ===== verification/Auth_Example.thy ===== *)
theory Auth_Example
  imports Auth_Provenance
begin

text \<open>
  A concrete instance of the packages the service relies on, and runs of the machine on it: the
  witnesses of the properties evaluate there. Ceremony states, responses and credentials are
  numbers; a response verifies when it is the number the ceremony was started with.
\<close>

definition ex_w :: "nat webauthn" where
  "ex_w =
     \<lparr>start_reg = (\<lambda>seed u n d ex. if seed = 0 then Inl ''seed'' else Inr (seed, seed)),
      finish_reg = (\<lambda>cred st. if cred = st then Inr cred else Inl ''challenge''),
      start_auth = (\<lambda>seed pks. if seed = 0 then Inl ''seed'' else Inr (seed, seed)),
      finish_auth = (\<lambda>cred st. if cred = st then Inr cred else Inl ''challenge''),
      cred_id = (\<lambda>p. p), update_credential = (\<lambda>r p. p)\<rparr>"

text \<open>A store with at most the user id 7 and byte-sized credentials as a string.\<close>

definition ex_c :: "nat codec" where
  "ex_c =
     \<lparr>to_json = (\<lambda>s.
        if (user_id s = None \<or> user_id s = Some 7) \<and> list_all (\<lambda>p. p < 256) (passkeys s)
        then Some ((if user_id s = None then CHR ''-'' else CHR ''7'') # map char_of (passkeys s))
        else None),
      from_json = (\<lambda>j. case j of [] \<Rightarrow> None
        | x # cs \<Rightarrow> Some \<lparr>user_id = (if x = CHR ''7'' then Some 7 else None), passkeys = map of_char cs\<rparr>)\<rparr>"

lemma ex_w_ok: "wa_ok ex_w"
  by (simp add: wa_ok_def ex_w_def)

lemma ex_c_ok: "codec_ok ex_c"
proof -
  have "map (of_char \<circ> (char_of :: nat \<Rightarrow> char)) ps = ps" if "list_all (\<lambda>p. p < 256) ps" for ps
    using that by (induction ps) auto
  then show ?thesis
    by (auto simp: codec_ok_def ex_c_def split: if_splits)
qed

text \<open>A request at second \<open>t\<close> that draws the token \<open>k\<close>.\<close>

definition ex_token :: "nat \<Rightarrow> u8 list" where
  "ex_token k = replicate 30 0 @ [word_of_nat (k div 256), word_of_nat k]"

definition ex_env :: "int \<Rightarrow> nat \<Rightarrow> env" where
  "ex_env t k =
     \<lparr>clk = (\<lambda>i. from_secs t), rand32 = ex_token k, uuid4 = 7, wa_seed = k, io_ok = (\<lambda>_. True),
      io_split = (\<lambda>s. [s])\<rparr>"

lemma ex_env_ok [simp]: "env_ok (ex_env t k)"
  by (simp add: env_ok_def ex_env_def)

definition ex_boot :: boot_env where
  "ex_boot = \<lparr>mkdir_ok = True, stat_ok = True, read_ok = True, boot_rand = ex_token 5\<rparr>"

definition ex_code :: string where
  "ex_code = hex32 (ex_token 5)"

definition ex_jar :: "string \<Rightarrow> nat \<Rightarrow> jar" where
  "ex_jar name k = [name \<mapsto> hex32 (ex_token k)]"

definition ex_path :: string where
  "ex_path = path_join ''/data'' ''auth.json''"

definition ex_start :: "nat history \<times> nat auth_state" where
  "ex_start = ([], fresh_auth_state ex_boot empty_fs ex_path default_store)"

lemma ex_init: "auth_init ex_w ex_c ex_code [] ex_start"
  unfolding auth_init_def
proof (intro conjI exI)
  show "load_store ex_c ex_boot empty_fs (path_join ''/data'' ''auth.json'') = Inr default_store"
    by (simp add: load_store_def path_exists_def empty_fs_def)
qed (simp_all add: ex_w_ok ex_c_ok ex_start_def ex_boot_def wf_fs_def empty_fs_def default_store_def
    ex_code_def ex_path_def)

text \<open>The machine on a list of actions.\<close>

fun run :: "'w webauthn \<Rightarrow> 'w codec \<Rightarrow> 'w action list \<Rightarrow> 'w history \<times> 'w auth_state \<Rightarrow> 'w history \<times> 'w auth_state"
  where
  "run w c [] s = s"
| "run w c (act # acts) (h, a) =
     (case exec w c act a of (ok, a') \<Rightarrow> run w c acts (h @ [(act, ok)], a'))"

lemma run_reachable:
  "reachable init (auth_step w c) (h, a) \<Longrightarrow> list_all action_ok acts \<Longrightarrow>
   reachable init (auth_step w c) (run w c acts (h, a))"
proof (induction acts arbitrary: h a)
  case Nil
  then show ?case by simp
next
  case (Cons act acts)
  obtain ok a' where ex: "exec w c act a = (ok, a')" by (metis surj_pair)
  with Cons.prems have "reachable init (auth_step w c) (h @ [(act, ok)], a')"
    by (auto intro: reachable_step request)
  with Cons ex show ?case by simp
qed

text \<open>
  The account is claimed: a registration with the code at second 10, finished with the number 1
  as its credential; then a sign-in that gives the session 4.
\<close>

definition ex_claim :: "nat action list" where
  "ex_claim =
     [RegStart (ex_env 10 1) Map.empty (Some (Some ex_code)),
      RegFinish (ex_env 20 2) (ex_jar REG_COOKIE 1) 1]"

definition ex_sign_in :: "nat action list" where
  "ex_sign_in =
     [LoginStart (ex_env 30 3), LoginFinish (ex_env 40 4) (ex_jar AUTH_COOKIE 3) 3]"

definition ex_h :: "nat action list \<Rightarrow> nat history" where
  "ex_h acts = fst (run ex_w ex_c acts ex_start)"

definition ex_a :: "nat action list \<Rightarrow> nat auth_state" where
  "ex_a acts = snd (run ex_w ex_c acts ex_start)"

lemma ex_reachable:
  "list_all action_ok acts \<Longrightarrow> auth_reachable ex_w ex_c ex_code [] (ex_h acts) (ex_a acts)"
  unfolding ex_h_def ex_a_def ex_start_def prod.collapse
  by (rule run_reachable, rule reachable_init, rule ex_init [unfolded ex_start_def])

lemma ex_actions_ok [simp]: "list_all action_ok ex_claim" "list_all action_ok ex_sign_in"
  by (simp_all add: ex_claim_def ex_sign_in_def)

text \<open>What the witnesses look at, evaluated once for each run.\<close>

definition ex_view ::
  "nat auth_state \<Rightarrow> nat list \<times> nat pending_reg hmap \<times> nat pending_auth hmap \<times> time hmap \<times> string option"
  where
  "ex_view a = (creds a, inner (a_reg a), inner (a_auth a), inner (a_sessions a), inner (a_bootstrap a))"

lemma ex_view_start:
  "ex_view (ex_a []) = ([], [], [], [], Some ex_code)"
  by (simp add: ex_view_def ex_a_def ex_start_def fresh_auth_state_def default_store_def creds_def
      new_mutex_def ex_code_def ex_boot_def)

lemma ex_view_claim:
  "ex_view (ex_a ex_claim) = ([1], [], [], [(hex32 (ex_token 2), from_secs 20 + SESSION_TTL)], None)"
  by code_simp

lemma ex_view_sign_in:
  "ex_view (ex_a (ex_claim @ ex_sign_in)) =
     ([1], [], [], [(hex32 (ex_token 4), from_secs 40 + SESSION_TTL),
                    (hex32 (ex_token 2), from_secs 20 + SESSION_TTL)], None)"
  by code_simp

lemma ex_path_run: "a_path (ex_a ex_claim) = ex_path"
  by code_simp

end
