(* ===== verification/Auth_Race.thy ===== *)
theory Auth_Race
  imports Auth_Tasks Auth_Example
begin

text \<open>
  The authentication service with requests that run at the same time: any number of tasks, one
  section of any of them at each step, and the sweep among them: what holds under every
  interleaving.
\<close>

definition auth_request :: "'w webauthn \<Rightarrow> 'w codec \<Rightarrow> ('w action \<Rightarrow> bool) \<Rightarrow> ('w auth_state, bool) task \<Rightarrow> bool" where
  "auth_request w c allowed t \<longleftrightarrow> (\<exists>act. action_ok act \<and> allowed act \<and> t = task_of w c act)"

text \<open>The one-time code is drawn from 32 bytes.\<close>

definition auth_start :: "'w webauthn \<Rightarrow> 'w codec \<Rightarrow> string \<Rightarrow> 'w list \<Rightarrow> 'w auth_state \<Rightarrow> bool" where
  "auth_start w c code ids a \<longleftrightarrow> auth_init w c code ids ([], a) \<and> code \<noteq> []"

type_synonym 'w race = "('w auth_state, bool) pool"

abbreviation race_reachable ::
  "'w webauthn \<Rightarrow> 'w codec \<Rightarrow> string \<Rightarrow> 'w list \<Rightarrow> ('w action \<Rightarrow> bool) \<Rightarrow> 'w race \<Rightarrow> bool" where
  "race_reachable w c code ids allowed \<equiv>
     pool_reachable (auth_start w c code ids) (auth_request w c allowed) permuted"

abbreviation race_step :: "'w webauthn \<Rightarrow> 'w codec \<Rightarrow> ('w action \<Rightarrow> bool) \<Rightarrow> 'w race \<Rightarrow> 'w race \<Rightarrow> bool" where
  "race_step w c allowed \<equiv> pool_step (auth_request w c allowed) permuted"

section \<open>Sections of the handlers\<close>

text \<open>A section that touches neither the credentials nor the one-time code.\<close>

lemma sound_calls:
  assumes "\<And>b. sound I G r n (k b)"
    and "\<And>a d. I a \<Longrightarrow> I (a\<lparr>a_disk := d\<rparr>) \<and> G a (a\<lparr>a_disk := d\<rparr>) \<and> r (a\<lparr>a_disk := d\<rparr>) = r a"
  shows "sound I G r n (calls_task ok i ops h k)"
proof (induction ops arbitrary: i h)
  case Nil
  then show ?case using assms(1) by simp
next
  case (Cons op ops)
  have "I a \<and> G a a" if "I a" for a
    using assms(2) [OF that, of "a_disk a"] by simp
  with Cons assms show ?case
    by (auto intro!: sound_Section exI [of _ n] split: if_splits option.splits)
qed

lemma sound_persist:
  assumes "\<And>b. sound I G r n (k b)"
    and "\<And>a d. I a \<Longrightarrow> I (a\<lparr>a_disk := d\<rparr>) \<and> G a (a\<lparr>a_disk := d\<rparr>) \<and> r (a\<lparr>a_disk := d\<rparr>) = r a"
  shows "sound I G r n (persist_task c e k)"
  unfolding persist_task_def
proof (rule sound_Section)
  fix a t a'
  assume "I a" and step: "(case lock (a_store a) of None \<Rightarrow> k False
      | Some s \<Rightarrow> (case to_json c s of None \<Rightarrow> k False | Some json \<Rightarrow>
          calls_task (io_ok e) 0 (replace_ops (tmp_path (a_path a)) (a_path a) (io_split e json)) None k), a) = (t, a')"
  then have "sound I G r n t"
    using assms(1) sound_calls [of I G r n k, OF assms] by (auto split: option.splits)
  moreover have "G a a" using assms(2) [OF \<open>I a\<close>, of "a_disk a"] by simp
  ultimately show "I a' \<and> G a a' \<and> (\<exists>m. r a + m \<le> r a' + n \<and> sound I G r m t)"
    using step \<open>I a\<close> by auto
qed

section \<open>An unclaimed service\<close>

text \<open>Nothing is enrolled, parked or signed in, and the code is the one drawn at the start.\<close>

definition untouched :: "string \<Rightarrow> 'w auth_state \<Rightarrow> bool" where
  "untouched code a \<longleftrightarrow>
     code \<noteq> [] \<and> clean a \<and> creds a = [] \<and> inner (a_reg a) = [] \<and> inner (a_auth a) = [] \<and> inner (a_sessions a) = []
     \<and> inner (a_bootstrap a) = Some code"

definition without_code :: "string \<Rightarrow> 'w action \<Rightarrow> bool" where
  "without_code code act \<longleftrightarrow> (case act of RegStart e jar (Some (Some t)) \<Rightarrow> trim t \<noteq> code | _ \<Rightarrow> True)"

lemma untouched_session: "untouched code a \<Longrightarrow> session_valid now jar a = (Ok False, a)"
  by (auto simp: untouched_def clean_def session_valid_def ret_def split: option.split)

lemma untouched_code:
  "untouched code a \<Longrightarrow> without_code code (RegStart e jar body) \<Longrightarrow>
   check_code Bootstrap body a = (Err (FORBIDDEN, CodeRequired), a)"
  by (auto simp: untouched_def clean_def check_code_def bootstrap_token_def ct_eq_as_bytes without_code_def
      trim_Nil split: option.splits)

lemma untouched_mode: "untouched code a \<Longrightarrow> reg_mode_of s a = (Ok Bootstrap, a)"
  by (auto simp: untouched_def clean_def creds_def reg_mode_of_def registered_def)

lemma untouched_tasks:
  fixes act :: "'w action"
  assumes "without_code code act"
  shows "sound (untouched code) (\<lambda>_ _. True) (\<lambda>_. 0) 0 (task_of w c act)"
proof (cases act)
  case (RegStart e jar body)
  have "sound (untouched code) (\<lambda>_ _. True) (\<lambda>_. 0) 0 (register_start_task w e jar body)"
    unfolding register_start_task_def
    using assms RegStart
    by (auto intro!: sound_keep simp: untouched_session untouched_mode untouched_code)
  with RegStart show ?thesis by (simp add: task_of_def sound_map)
next
  case (RegFinish e jar cred)
  have "sound (untouched code) (\<lambda>_ _. True) (\<lambda>_. 0) 0 (register_finish_task w c e jar cred)"
    unfolding register_finish_task_def
    by (auto intro!: sound_keep sound_Returned simp: take_reg_def untouched_def clean_def split: option.split)
  with RegFinish show ?thesis by (simp add: task_of_def sound_map)
next
  case (LoginStart e)
  have "sound (untouched code) (\<lambda>_ _. True) (\<lambda>_. 0) 0 (login_start_task w e)"
    unfolding login_start_task_def
    by (auto intro!: sound_keep simp: untouched_def clean_def creds_def ret_def sound_Returned)
  with LoginStart show ?thesis by (simp add: task_of_def sound_map)
next
  case (LoginFinish e jar cred)
  have "sound (untouched code) (\<lambda>_ _. True) (\<lambda>_. 0) 0 (login_finish_task w c e jar cred)"
    unfolding login_finish_task_def
    by (auto intro!: sound_keep sound_Returned simp: take_auth_def untouched_def clean_def split: option.split)
  with LoginFinish show ?thesis by (simp add: task_of_def sound_map)
next
  case (Logout jar)
  have "sound (untouched code) (\<lambda>_ _. True) (\<lambda>_. 0) 0 (sect (logout_section jar) (\<lambda>_. Returned (Ok ())) :: ('w, unit) auth_task)"
    by (auto intro!: sound_keep sound_Returned
        simp: logout_section_def untouched_def clean_def creds_def split: option.splits outcome.split)
  with Logout show ?thesis by (simp add: task_of_def sound_map)
next
  case (CheckSession now jar)
  have "sound (untouched code) (\<lambda>_ _. True) (\<lambda>_. 0) 0
      (sect (session_valid now jar) (\<lambda>ok. Returned (Ok ok)) :: ('w, bool) auth_task)"
    by (auto intro!: sound_keep sound_Returned simp: untouched_session split: outcome.split)
  with CheckSession show ?thesis by (simp add: task_of_def sound_map)
next
  case (Sweep now)
  then show ?thesis
    by (auto simp: task_of_def sweep_task_def untouched_def clean_def creds_def retain_mutex_def
        intro!: sound_Section sound_Returned exI [of _ 0])
qed


lemma start_untouched:
  assumes "auth_start w c code [] a"
  shows "untouched code a"
  using assms
  by (auto simp: auth_start_def auth_init_def untouched_def clean_def creds_def fresh_auth_state_def)

lemma permuted_untouched: "permuted a a' \<Longrightarrow> untouched code a \<Longrightarrow> untouched code a'"
  by (auto simp: permuted_def untouched_def clean_def creds_def)

interpretation unclaimed: sound_pool "auth_start w c code []" "auth_request w c (without_code code)" permuted
  "untouched code" "\<lambda>_ _. True" "\<lambda>_. 0"
  for w :: "'w webauthn" and c :: "'w codec" and code :: string
  by unfold_locales (auto intro: start_untouched untouched_tasks permuted_untouched simp: auth_request_def)

text \<open>
  C2. However requests interleave, nobody takes over an unclaimed service without its one-time code:
  as long as none of the requests that were ever started carries the code, there is no credential,
  no session and no pending ceremony after any number of steps of any of them, and the code is
  still the one drawn at the start.
\<close>

theorem no_takeover_interleaved:
  assumes "race_reachable w c code [] (without_code code) p"
  shows "creds (shared p) = [] \<and> inner (a_sessions (shared p)) = [] \<and> inner (a_auth (shared p)) = []
    \<and> inner (a_reg (shared p)) = [] \<and> bootstrap_token (shared p) = Some code"
  using unclaimed.shared_inv [OF assms]
  by (auto simp: untouched_def clean_def bootstrap_token_def)

section \<open>A service with credentials\<close>

text \<open>
  \<open>base\<close> are the ids that were loaded at the start; they stay in front. While there is one, the
  service has no one-time code and no pending bootstrap.
\<close>

definition only_devices :: "'w pending_reg hmap \<Rightarrow> bool" where
  "only_devices m \<longleftrightarrow> (\<forall>e\<in>set m. fst (snd (snd e)) = AddDevice)"

lemma only_devices_simps [simp]:
  "only_devices []"
  "only_devices m \<Longrightarrow> only_devices (hremove k m)"
  "only_devices m \<Longrightarrow> only_devices (hretain p m)"
  by (simp_all add: only_devices_def)

lemma only_devices_insert [simp]:
  "only_devices m \<Longrightarrow> only_devices (insert_capped f now k (st, AddDevice, t) m)"
  using set_insert_capped [of f now k "(st, AddDevice, t)" m] by (fastforce simp: only_devices_def)

lemma only_devices_get: "only_devices m \<Longrightarrow> hget m k = Some (st, mode, t) \<Longrightarrow> mode = AddDevice"
  by (fastforce simp: only_devices_def dest: hget_SomeD)

definition race_ok :: "'w webauthn \<Rightarrow> 'w list \<Rightarrow> 'w auth_state \<Rightarrow> bool" where
  "race_ok w base a \<longleftrightarrow>
     wa_ok w \<and> clean a \<and> maps_ok a \<and> distinct (cred_ids w a)
     \<and> length base \<le> length (cred_ids w a) \<and> take (length base) (cred_ids w a) = base
     \<and> (base \<noteq> [] \<longrightarrow> inner (a_bootstrap a) = None \<and> only_devices (inner (a_reg a)))"

text \<open>How many credentials were enrolled since the start and can still be taken back.\<close>

definition reserve :: "'w webauthn \<Rightarrow> 'w list \<Rightarrow> 'w auth_state \<Rightarrow> nat" where
  "reserve w base a = length (cred_ids w a) - length base"

text \<open>
  A step leaves the ids of the credentials as they are, takes back the last, or adds one: that of a
  finish among the requests \<open>S\<close> whose response verifies, when no credential existed or the request
  has the cookie of a session that is alive at that moment.
\<close>

definition authorised_step :: "'w webauthn \<Rightarrow> 'w action set \<Rightarrow> 'w auth_state \<Rightarrow> 'w auth_state \<Rightarrow> bool" where
  "authorised_step w S a a' \<longleftrightarrow>
     cred_ids w a' = cred_ids w a \<or> cred_ids w a' = butlast (cred_ids w a)
     \<or> (\<exists>e jar cred st pk. RegFinish e jar cred \<in> S \<and> finish_reg w cred st = Inr pk
          \<and> cred_ids w a' = cred_ids w a @ [cred_id w pk] \<and> cred_id w pk \<notin> set (cred_ids w a)
          \<and> (creds a = [] \<or> live_session (clk e 1) jar a))"

lemmas race_defs = race_ok_def clean_def maps_ok_def cred_ids_def creds_def

lemma sound_calm:
  assumes "\<And>a x a'. race_ok w base a \<Longrightarrow> p a = (x, a') \<Longrightarrow>
      race_ok w base a' \<and> cred_ids w a' = cred_ids w a
      \<and> (case x of Ok v \<Rightarrow> sound (race_ok w base) (authorised_step w S) (reserve w base) n (k v) | _ \<Rightarrow> True)"
  shows "sound (race_ok w base) (authorised_step w S) (reserve w base) n (sect p k)"
  by (rule sound_keep) (use assms in \<open>auto simp: authorised_step_def reserve_def\<close>)

lemma race_drop_expired: "race_ok w base a \<Longrightarrow> race_ok w base (drop_expired now jar a)"
  by (auto simp: race_defs drop_expired_def split: option.split)

lemma race_session_valid:
  fixes a :: "'w auth_state"
  assumes "race_ok w base a" and "(session_valid now jar :: ('w auth_state, 'e, bool) prog) a = (x, a')"
  shows "race_ok w base a' \<and> cred_ids w a' = cred_ids w a"
proof -
  have "a' = drop_expired now jar a" using assms by (simp add: session_valid_eq race_ok_def)
  with assms(1) show ?thesis by (simp add: race_drop_expired cred_ids_def)
qed

lemma race_mode:
  "race_ok w base a \<Longrightarrow> reg_mode_of s a = (x, a') \<Longrightarrow>
   a' = a \<and> (\<forall>m. x = Ok m \<longrightarrow> base \<noteq> [] \<longrightarrow> m = AddDevice)"
  by (auto simp: reg_mode_of_def registered_def race_defs split: bool.splits)

lemma race_take_reg:
  "race_ok w base a \<Longrightarrow> take_reg now rid a = (x, a') \<Longrightarrow>
   race_ok w base a' \<and> cred_ids w a' = cred_ids w a
   \<and> (\<forall>st m. x = Ok (st, m) \<longrightarrow> base \<noteq> [] \<longrightarrow> m = AddDevice)"
  by (auto simp: take_reg_def Let_def race_defs split: option.splits if_splits dest: only_devices_get)

lemma race_park:
  assumes "race_ok w base a" and "base \<noteq> [] \<longrightarrow> m = AddDevice" and "park_reg e st m a = (x, a')"
  shows "race_ok w base a' \<and> cred_ids w a' = cred_ids w a"
  using assms by (cases "base = []") (auto simp: park_reg_def race_defs)

lemma race_take_auth:
  "race_ok w base a \<Longrightarrow> take_auth now aid a = (x, a') \<Longrightarrow> race_ok w base a' \<and> cred_ids w a' = cred_ids w a"
  by (auto simp: take_auth_def Let_def race_defs split: option.splits if_splits)

lemma race_bump:
  assumes "race_ok w base a" and "bump_counters w v a = (x, a')"
  shows "race_ok w base a' \<and> cred_ids w a' = cred_ids w a"
proof -
  have "cred_id w \<circ> update_credential w v = cred_id w"
    using assms(1) by (simp add: race_ok_def wa_ok_def fun_eq_iff)
  with assms show ?thesis by (auto simp: bump_counters_def race_defs)
qed

lemma race_new_session:
  "race_ok w base a \<Longrightarrow> new_session t1 t2 bs a = (x, a') \<Longrightarrow> race_ok w base a' \<and> cred_ids w a' = cred_ids w a"
  by (auto simp: new_session_def Let_def race_defs)

lemma race_enrol:
  fixes a :: "'w auth_state"
  assumes "race_ok w base a" and "enrol w now jar m pk a = (x, a')"
  shows "race_ok w base a'
    \<and> (case x of
         Ok _ \<Rightarrow> cred_ids w a' = cred_ids w a @ [cred_id w pk] \<and> cred_id w pk \<notin> set (cred_ids w a)
           \<and> (creds a = [] \<or> live_session now jar a)
       | _ \<Rightarrow> cred_ids w a' = cred_ids w a)"
proof -
  have clean: "clean a" using assms(1) by (simp add: race_ok_def)
  show ?thesis
  proof (cases "\<exists>u. x = Ok u")
    case True
    then obtain u where "x = Ok u" by blast
    with assms(2) have e: "if m = Bootstrap then creds a = [] else live_session now jar a"
      "cred_id w pk \<notin> set (cred_ids w a)"
      "a' = a\<lparr>a_store := put ((inner (a_store a))\<lparr>passkeys := creds a @ [pk]\<rparr>) (a_store a)\<rparr>"
      using enrol_Ok [OF _ clean] by blast+
    then have "race_ok w base a'" using assms(1) by (auto simp: race_defs)
    moreover have "cred_ids w a' = cred_ids w a @ [cred_id w pk]" using e(3) by (simp add: cred_ids_def creds_def)
    ultimately show ?thesis using e(1,2) \<open>x = Ok u\<close> by (auto split: if_splits)
  next
    case False
    have "(session_valid now jar :: ('w, bool) handler) a = (Ok (live_session now jar a), drop_expired now jar a)"
      by (rule session_valid_eq [OF clean])
    with False assms(2) clean have "a' = a \<or> a' = drop_expired now jar a"
      by (cases m) (auto simp: enrol_def bind_def throw_def ret_def clean_def split: if_splits)
    with assms(1) False show ?thesis
      by (auto simp: race_drop_expired cred_ids_def split: outcome.split)
  qed
qed

lemma race_undo:
  assumes "race_ok w base a" and "length base < length (cred_ids w a)" and "undo_push a = (x, a')"
  shows "race_ok w base a' \<and> cred_ids w a' = butlast (cred_ids w a)"
proof -
  have "take (length base) (butlast xs) = take (length base) xs" if "length base < length xs" for xs :: "'a list"
    using that by (simp add: take_butlast)
  with assms show ?thesis
    by (auto simp: undo_push_def race_defs distinct_butlast map_butlast)
qed


text \<open>Every request is sound: it owns one unit of the reserve from the push to the end of the save.\<close>

abbreviation fair ::
  "'w webauthn \<Rightarrow> 'w list \<Rightarrow> 'w action set \<Rightarrow> nat \<Rightarrow> ('w auth_state, 'a) task \<Rightarrow> bool" where
  "fair w base S \<equiv> sound (race_ok w base) (authorised_step w S) (reserve w base)"

lemma fair_Returned: "fair w base S n (Returned x)"
  by (rule sound_Returned)

lemma fair_disk:
  "race_ok w base a \<Longrightarrow>
   race_ok w base (a\<lparr>a_disk := d\<rparr>) \<and> authorised_step w S a (a\<lparr>a_disk := d\<rparr>)
   \<and> reserve w base (a\<lparr>a_disk := d\<rparr>) = reserve w base a"
  by (auto simp: race_defs authorised_step_def reserve_def)

lemma fair_persist:
  assumes "\<And>b. fair w base S n (k b)"
  shows "fair w base S n (persist_task c e k)"
  using assms fair_disk by (rule sound_persist)

lemma calm_step:
  assumes "\<And>a x a'. race_ok w base a \<Longrightarrow> p a = (x, a') \<Longrightarrow>
      race_ok w base a' \<and> cred_ids w a' = cred_ids w a \<and> (\<forall>v. x = Ok v \<longrightarrow> P v)"
    and "\<And>v. P v \<Longrightarrow> fair w base S n (k v)"
  shows "fair w base S n (sect p k)"
proof (rule sound_calm)
  fix a x a'
  assume "race_ok w base a" and "p a = (x, a')"
  from assms(1) [OF this] assms(2)
  show "race_ok w base a' \<and> cred_ids w a' = cred_ids w a \<and> (case x of Ok v \<Rightarrow> fair w base S n (k v) | _ \<Rightarrow> True)"
    by (cases x) auto
qed

lemma calm_frame:
  assumes "\<And>a x a'. race_ok w base a \<Longrightarrow> p a = (x, a') \<Longrightarrow> race_ok w base a' \<and> cred_ids w a' = cred_ids w a"
    and "\<And>v. fair w base S n (k v)"
  shows "fair w base S n (sect p k)"
  using assms by (intro calm_step [where P = "\<lambda>_. True"]) simp_all

lemma calm_session: "(\<And>v. fair w base S n (k v)) \<Longrightarrow> fair w base S n (sect (session_valid now jar) k)"
  by (rule calm_frame) (rule race_session_valid)

lemma calm_mode:
  assumes "\<And>m. base \<noteq> [] \<longrightarrow> m = AddDevice \<Longrightarrow> fair w base S n (k m)"
  shows "fair w base S n (sect (reg_mode_of s) k)"
proof (rule calm_step [where P = "\<lambda>m. base \<noteq> [] \<longrightarrow> m = AddDevice"])
  fix a x a'
  assume "race_ok w base a" and "reg_mode_of s a = (x, a')"
  with race_mode [OF this]
  show "race_ok w base a' \<and> cred_ids w a' = cred_ids w a \<and> (\<forall>m. x = Ok m \<longrightarrow> base \<noteq> [] \<longrightarrow> m = AddDevice)"
    by simp
qed (rule assms)

lemma calm_code: "(\<And>v. fair w base S n (k v)) \<Longrightarrow> fair w base S n (sect (check_code m body) k)"
  by (rule calm_frame) (auto simp: check_code_def Let_def split: if_splits option.splits)

lemma calm_store:
  "(\<And>s. p s = ret (f s)) \<Longrightarrow> (\<And>v. fair w base S n (k v)) \<Longrightarrow> fair w base S n (sect (with_lock a_store p) k)"
  by (rule calm_frame) (auto simp: ret_def race_defs)

lemma calm_remember: "(\<And>v. fair w base S n (k v)) \<Longrightarrow> fair w base S n (sect (remember_user u) k)"
  by (rule calm_frame) (auto simp: remember_user_def race_defs)

lemma calm_park:
  "base \<noteq> [] \<longrightarrow> m = AddDevice \<Longrightarrow> (\<And>v. fair w base S n (k v)) \<Longrightarrow> fair w base S n (sect (park_reg e st m) k)"
  by (rule calm_frame) (rule race_park)

lemma calm_take_reg:
  assumes "\<And>st m. base \<noteq> [] \<longrightarrow> m = AddDevice \<Longrightarrow> fair w base S n (k (st, m))"
  shows "fair w base S n (sect (take_reg now rid) k)"
proof (rule calm_step [where P = "\<lambda>v. base \<noteq> [] \<longrightarrow> snd v = AddDevice"])
  fix a x a'
  assume "race_ok w base a" and "take_reg now rid a = (x, a')"
  with race_take_reg [OF this]
  show "race_ok w base a' \<and> cred_ids w a' = cred_ids w a \<and> (\<forall>v. x = Ok v \<longrightarrow> base \<noteq> [] \<longrightarrow> snd v = AddDevice)"
    by auto
next
  show "base \<noteq> [] \<longrightarrow> snd v = AddDevice \<Longrightarrow> fair w base S n (k v)" for v
    using assms [of "snd v" "fst v"] by simp
qed

lemma calm_take_auth: "(\<And>v. fair w base S n (k v)) \<Longrightarrow> fair w base S n (sect (take_auth now aid) k)"
  by (rule calm_frame) (rule race_take_auth)

lemma calm_bump: "(\<And>v. fair w base S n (k v)) \<Longrightarrow> fair w base S n (sect (bump_counters w x) k)"
  by (rule calm_frame) (rule race_bump)

lemma calm_new_session: "(\<And>v. fair w base S n (k v)) \<Longrightarrow> fair w base S n (sect (new_session t1 t2 bs) k)"
  by (rule calm_frame) (rule race_new_session)

lemmas calm = calm_session calm_mode calm_code calm_remember calm_park calm_take_reg calm_take_auth
  calm_bump calm_new_session fair_Returned

lemma fair_session: "fair w base S n (finish_session e i name)"
  unfolding finish_session_def by (intro calm)

lemma fair_close:
  assumes "base \<noteq> [] \<longrightarrow> m = AddDevice" and "fair w base S n t"
  shows "fair w base S n (close_task m t)"
proof (cases "m = Bootstrap")
  case True
  with assms(1) have "base = []" by auto
  with True assms(2) show ?thesis
    by (auto simp: close_task_def race_defs intro!: calm_step [where P = "\<lambda>_. True"])
next
  case False
  with assms(2) show ?thesis by (simp add: close_task_def)
qed

lemma fair_undo: "fair w base S 1 (sect undo_push (\<lambda>_. Returned x))"
proof (rule sound_sect)
  fix a y a'
  assume inv: "race_ok w base a" and unit: "1 \<le> reserve w base a" and u: "undo_push a = (y, a')"
  then have "race_ok w base a'" and ids: "cred_ids w a' = butlast (cred_ids w a)"
    using race_undo [OF inv _ u] by (auto simp: reserve_def)
  moreover have "reserve w base a \<le> reserve w base a' + 1"
    using unit ids by (simp add: reserve_def)
  ultimately show "race_ok w base a' \<and> authorised_step w S a a' \<and>
      (case y of Ok v \<Rightarrow> \<exists>m. reserve w base a + m \<le> reserve w base a' + 1 \<and> fair w base S m (Returned x)
       | _ \<Rightarrow> reserve w base a \<le> reserve w base a' + 1)"
    by (auto simp: authorised_step_def intro!: fair_Returned exI [of _ 0] split: outcome.split)
qed

lemma fair_save: "base \<noteq> [] \<longrightarrow> m = AddDevice \<Longrightarrow> fair w base S 1 (save_task c e m)"
  unfolding save_task_def
  by (rule fair_persist) (simp add: fair_undo [unfolded One_nat_def] fair_close fair_session)

lemma fair_enrol:
  assumes "RegFinish e jar cred \<in> S" and "finish_reg w cred st = Inr pk" and "base \<noteq> [] \<longrightarrow> m = AddDevice"
  shows "fair w base S 0 (sect (enrol w (clk e 1) jar m pk) (\<lambda>_. save_task c e m))"
proof (rule sound_sect)
  fix a x a'
  assume a: "race_ok w base a" and x: "enrol w (clk e 1) jar m pk a = (x, a')"
  note step = race_enrol [OF a x]
  have len: "length base \<le> length (cred_ids w a)" using a by (simp add: race_ok_def)
  show "race_ok w base a' \<and> authorised_step w S a a' \<and>
    (case x of Ok v \<Rightarrow> \<exists>l. reserve w base a + l \<le> reserve w base a' + 0 \<and> fair w base S l (save_task c e m)
     | _ \<Rightarrow> reserve w base a \<le> reserve w base a' + 0)"
  proof (cases x)
    case (Ok u)
    have "cred_ids w a' = cred_ids w a @ [cred_id w pk]" "cred_id w pk \<notin> set (cred_ids w a)"
      "creds a = [] \<or> live_session (clk e 1) jar a"
      using step unfolding Ok by simp_all
    with assms(1,2) have "authorised_step w S a a'"
      unfolding authorised_step_def by blast
    moreover have "reserve w base a + 1 \<le> reserve w base a' + 0"
      using step Ok len by (simp add: reserve_def)
    ultimately show ?thesis
      using step fair_save [OF assms(3)] unfolding Ok outcome.case by blast
  qed (use step in \<open>auto simp: authorised_step_def reserve_def\<close>)
qed

lemma fair_register_finish:
  assumes "RegFinish e jar cred \<in> S"
  shows "fair w base S 0 (register_finish_task w c e jar cred)"
proof -
  have rest: "fair w base S 0 (case finish_reg w cred st of
        Inl err \<Rightarrow> Returned (Err (BAD_REQUEST, Library err))
      | Inr pk \<Rightarrow> sect (enrol w (clk e 1) jar m pk) (\<lambda>_. save_task c e m))"
    if "base \<noteq> [] \<longrightarrow> m = AddDevice" for st m
    using fair_enrol [OF assms _ that] by (cases "finish_reg w cred st") (simp_all add: fair_Returned)
  show ?thesis
    unfolding register_finish_task_def
    by (cases "jar REG_COOKIE") (auto intro!: calm_take_reg rest simp: fair_Returned)
qed

lemma fair_register_start: "fair w base S 0 (register_start_task w e jar body)"
proof -
  have rest: "fair w base S 0 (case start_reg w (wa_seed e) uid ''admin'' ''admin'' exclude of
        Inl err \<Rightarrow> Returned (Err (INTERNAL_SERVER_ERROR, Library err))
      | Inr (ccr, st) \<Rightarrow> sect (remember_user uid) (\<lambda>_. sect (park_reg e st m) (\<lambda>_.
          Returned (Ok ([JarAdd (build_cookie REG_COOKIE (hex32 (rand32 e)))], ccr)))))"
    if "base \<noteq> [] \<longrightarrow> m = AddDevice" for uid exclude m
    using that
    by (cases "start_reg w (wa_seed e) uid ''admin'' ''admin'' exclude")
      (simp_all add: fair_Returned calm_remember calm_park split: prod.split)
  have user: "fair w base S 0 (sect (intended_user w e) k)" if "\<And>u x. fair w base S 0 (k (u, x))"
    for k :: "_ \<Rightarrow> ('a, jar_op list \<times> 'a) auth_task"
    unfolding intended_user_def Let_def by (rule calm_store, rule refl) (use that in auto)
  show ?thesis
    unfolding register_start_task_def
    by (intro calm_session calm_mode calm_code user) (simp add: rest)
qed

lemma fair_login_start: "fair w base S 0 (login_start_task w e)"
proof -
  have park: "fair w base S 0 (sect (with_lock a_auth (\<lambda>m a.
      (Ok (), a\<lparr>a_auth := put (insert_capped auth_exp t1 k v m) (a_auth a)\<rparr>))) (\<lambda>_. Returned y))"
    for t1 k v and y :: "(http_error, jar_op list \<times> 'a) outcome"
    by (rule calm_step [where P = "\<lambda>_. True"]) (auto simp: race_defs fair_Returned)
  show ?thesis
    unfolding login_start_task_def
    by (rule calm_store, rule refl) (auto intro!: park fair_Returned split: sum.split)
qed

lemma fair_login_finish: "fair w base S 0 (login_finish_task w c e jar cred)"
  unfolding login_finish_task_def
  by (auto intro!: calm fair_persist fair_session split: option.split sum.split)

lemma fair_logout: "fair w base S 0 (sect (logout_section jar) (\<lambda>_. Returned x))"
  by (rule calm_step [where P = "\<lambda>_. True"])
    (auto simp: logout_section_def race_defs fair_Returned split: option.splits)

lemma fair_sweep: "fair w base S 0 (sweep_task now)"
  unfolding sweep_task_def
  by (auto intro!: sound_Section sound_Returned exI [of _ 0]
      simp: race_defs authorised_step_def reserve_def retain_mutex_def)

lemma fair_tasks:
  assumes "act \<in> S"
  shows "fair w base S 0 (task_of w c act)"
  using assms
  by (cases act)
    (auto simp: task_of_def intro!: sound_map calm fair_register_start fair_register_finish fair_login_start
      fair_login_finish fair_logout fair_sweep)


lemma start_race_ok:
  assumes "auth_start w c code ids a"
  shows "race_ok w ids a"
proof -
  obtain b d dir st where "wa_ok w" "map (cred_id w) (passkeys st) = ids" "distinct ids"
    "a = fresh_auth_state b d (path_join dir ''auth.json'') st"
    using assms by (auto simp: auth_start_def auth_init_def)
  then show ?thesis by (auto simp: race_defs fresh_auth_state_def new_mutex_def)
qed

lemma permuted_race:
  assumes "permuted a a'" and "race_ok w base a"
  shows "race_ok w base a' \<and> authorised_step w S a a' \<and> reserve w base a' = reserve w base a"
proof -
  from assms(1) obtain r u s where a': "a' = a\<lparr>a_reg := put r (a_reg a), a_auth := put u (a_auth a),
      a_sessions := put s (a_sessions a)\<rparr>"
    and m: "mset r = mset (inner (a_reg a))" "mset u = mset (inner (a_auth a))" "mset s = mset (inner (a_sessions a))"
    by (auto simp: permuted_def)
  have "maps_ok a" using assms(2) by (simp add: race_ok_def)
  then have "wf_hmap r" "wf_hmap u" "wf_hmap s" "length r \<le> MAX_CEREMONIES" "length u \<le> MAX_CEREMONIES"
    "length s \<le> MAX_SESSIONS"
    using m wf_hmap_mset mset_eq_length by (metis maps_ok_def)+
  then have "maps_ok a'" unfolding a' maps_ok_def by simp
  moreover have "only_devices r = only_devices (inner (a_reg a))"
    using mset_eq_setD [OF m(1)] by (simp add: only_devices_def)
  ultimately show ?thesis
    using assms(2) unfolding a' by (auto simp: race_ok_def clean_def cred_ids_def creds_def authorised_step_def reserve_def)
qed

interpretation racing: sound_pool "auth_start w c code ids" "auth_request w c (\<lambda>act. act \<in> S)" permuted
  "race_ok w ids" "authorised_step w S" "reserve w ids"
  for w :: "'w webauthn" and c :: "'w codec" and code :: string and ids :: "'w list" and S :: "'w action set"
proof unfold_locales
  show "auth_start w c code ids a \<Longrightarrow> race_ok w ids a" for a by (rule start_race_ok)
  show "auth_request w c (\<lambda>act. act \<in> S) t \<Longrightarrow> fair w ids S 0 t" for t
    by (auto simp: auth_request_def intro: fair_tasks)
  show "permuted a a' \<Longrightarrow> race_ok w ids a \<Longrightarrow>
      race_ok w ids a' \<and> authorised_step w S a a' \<and> reserve w ids a' = reserve w ids a" for a a'
    by (rule permuted_race)
qed (simp add: authorised_step_def)

text \<open>
  C3. Under every interleaving the credentials that were on the disk at the start stay enrolled, in
  front of all others, no two credentials share an id, and the maps stay within their caps; a
  service that started with one never becomes unclaimed and never has a one-time code. Every step
  leaves the credentials, takes back the last one, or adds the verified credential of a finish
  request that has a live session at that moment or finds no credential.
\<close>

theorem credentials_interleaved:
  assumes "race_reachable w c code ids (\<lambda>act. act \<in> S) p" and "race_step w c (\<lambda>act. act \<in> S) p q"
  shows "take (length ids) (cred_ids w (shared q)) = ids \<and> distinct (cred_ids w (shared q))
    \<and> maps_ok (shared q) \<and> (ids \<noteq> [] \<longrightarrow> registered (shared q) \<and> bootstrap_token (shared q) = None)
    \<and> authorised_step w S (shared p) (shared q)"
proof -
  have inv: "race_ok w ids (shared q)"
    using assms by (intro racing.shared_inv) (rule reachable_step)
  moreover have "ids \<noteq> [] \<longrightarrow> creds (shared q) \<noteq> []"
    using inv by (auto simp: race_ok_def cred_ids_def)
  moreover have "authorised_step w S (shared p) (shared q)"
    using assms by (rule racing.step_guar)
  ultimately show ?thesis
    by (auto simp: race_ok_def clean_def registered_def bootstrap_token_def creds_def)
qed

lemma run_alone_task:
  assumes "clean a"
  shows "run_alone (task_of w c act) a = exec w c act a"
proof (cases act)
  case (Logout jar)
  with assms show ?thesis
    by (auto simp: task_of_def run_alone_map logout_eq logout_section_def bind_def is_ok_def clean_def
        split: option.split)
next
  case (CheckSession now jar)
  with assms show ?thesis
    by (simp add: task_of_def run_alone_map bind_def session_valid_eq)
next
  case (Sweep now)
  then show ?thesis by (simp add: task_of_def sweep_task_def sweep_def)
qed (simp_all add: task_of_def run_alone_map run_alone_register_start run_alone_register_finish
    run_alone_login_start run_alone_login_finish)

text \<open>
  A request that no other interrupts does what its handler does: the interleaving of sections
  refines the machine that runs whole handlers.
\<close>

theorem uninterrupted_task_is_handler:
  assumes "clean a"
  shows "run_alone (task_of w c act) a = exec w c act a"
  using assms by (rule run_alone_task)

section \<open>The properties at work\<close>

text \<open>The service of \<open>Auth_Example\<close> before anybody has sent its code.\<close>

lemma ex_start_race: "auth_start ex_w ex_c ex_code [] (snd ex_start)"
proof -
  have "ex_code \<noteq> []" by (simp add: ex_code_def hex32_def hex_byte_def ex_token_def)
  then show ?thesis using ex_init by (simp add: auth_start_def ex_start_def)
qed

lemma ex_start_pool:
  "pool_reachable (auth_start ex_w ex_c ex_code []) request permuted \<lparr>shared = snd ex_start, tasks = []\<rparr>"
  using ex_start_race by (auto intro: reachable_init simp: pool_init_def)

text \<open>A probe with the wrong code, from its start to its end.\<close>

definition ex_wrong :: "nat action" where
  "ex_wrong = RegStart (ex_env 10 1) Map.empty (Some (Some ''0''))"

lemma ex_wrong_exec: "fst (exec ex_w ex_c ex_wrong (snd ex_start)) = False"
  by code_simp

lemma ex_wrong_allowed: "without_code ex_code ex_wrong"
proof -
  have "trim ''0'' \<noteq> ex_code" by code_simp
  then show ?thesis by (simp add: without_code_def ex_wrong_def)
qed

lemma ex_wrong_ok: "action_ok ex_wrong"
  by (simp add: ex_wrong_def)

theorem no_takeover_interleaved_witness:
  "\<exists>p :: nat race. tasks p = [Returned False] \<and> creds (shared p) = [] \<and> bootstrap_token (shared p) = Some ex_code"
proof -
  let ?t = "task_of ex_w ex_c ex_wrong"
  obtain a where a: "exec ex_w ex_c ex_wrong (snd ex_start) = (False, a)"
    using ex_wrong_exec by (metis prod.collapse)
  have "untouched ex_code (snd ex_start)" using ex_start_race by (rule start_untouched)
  then have "run_alone ?t (snd ex_start) = (False, a)"
    using a by (simp add: run_alone_task untouched_def)
  moreover have "race_reachable ex_w ex_c ex_code [] (without_code ex_code) \<lparr>shared = snd ex_start, tasks = [] @ [?t]\<rparr>"
    using ex_wrong_allowed ex_wrong_ok by (intro reach_spawn ex_start_pool) (auto simp: auth_request_def)
  ultimately have "race_reachable ex_w ex_c ex_code [] (without_code ex_code) \<lparr>shared = a, tasks = [Returned False]\<rparr>"
    using reach_alone [of _ _ _ "snd ex_start" "[?t]" 0 ?t False a] by simp
  from no_takeover_interleaved [OF this] show ?thesis by (intro exI [of _ "\<lparr>shared = a, tasks = [Returned False]\<rparr>"]) simp
qed

text \<open>A start from a disk with one credential, and a sign-in that is started on it.\<close>

definition ex_disk :: fs where
  "ex_disk = \<lparr>entry = [ex_path \<mapsto> 0], content = (\<lambda>_. [CHR ''7'', CHR 0x01]), synced = (\<lambda>_. [CHR ''7'', CHR 0x01]),
     i_mode = (\<lambda>_. private_mode), next_inode = 1\<rparr>"

definition ex_restarted :: "nat auth_state" where
  "ex_restarted = fresh_auth_state ex_boot ex_disk ex_path \<lparr>user_id = Some 7, passkeys = [1]\<rparr>"

lemma ex_cred_id: "cred_id ex_w p = p"
  by (simp add: ex_w_def)

lemma ex_restarted_race: "auth_start ex_w ex_c ex_code [1] ex_restarted"
proof -
  have "auth_init ex_w ex_c ex_code [1] ([], ex_restarted)"
    unfolding auth_init_def
  proof (intro conjI exI)
    show "load_store ex_c ex_boot ex_disk (path_join ''/data'' ''auth.json'') = Inr \<lparr>user_id = Some 7, passkeys = [1]\<rparr>"
      by (simp add: load_store_def path_exists_def ex_disk_def ex_boot_def ex_path_def file_at_def ex_c_def)
  qed (simp_all add: ex_w_ok ex_c_ok ex_boot_def ex_disk_def wf_fs_def ex_code_def ex_restarted_def ex_path_def ex_cred_id)
  moreover have "ex_code \<noteq> []" using ex_start_race by (simp add: auth_start_def)
  ultimately show ?thesis by (simp add: auth_start_def)
qed

theorem credentials_interleaved_witness:
  "\<exists>q :: nat race. tasks q \<noteq> [] \<and> take 1 (cred_ids ex_w (shared q)) = [1] \<and> registered (shared q)
     \<and> bootstrap_token (shared q) = None"
proof -
  let ?act = "LoginStart (ex_env 30 3) :: nat action"
  let ?p = "\<lparr>shared = ex_restarted, tasks = []\<rparr> :: nat race"
  have "race_reachable ex_w ex_c ex_code [1] (\<lambda>act. act \<in> {?act}) ?p"
    using ex_restarted_race by (intro reachable_init) (simp add: pool_init_def)
  moreover have "race_step ex_w ex_c (\<lambda>act. act \<in> {?act}) ?p (?p\<lparr>tasks := tasks ?p @ [task_of ex_w ex_c ?act]\<rparr>)"
    by (rule pool_step.spawn) (simp add: auth_request_def)
  ultimately show ?thesis
    using credentials_interleaved [of ex_w ex_c ex_code "[1]" "{?act}" ?p "?p\<lparr>tasks := tasks ?p @ [task_of ex_w ex_c ?act]\<rparr>"]
    by (intro exI [of _ "?p\<lparr>tasks := tasks ?p @ [task_of ex_w ex_c ?act]\<rparr>"]) simp
qed

text \<open>A state on which a request runs alone.\<close>

theorem uninterrupted_task_witness:
  "run_alone (task_of ex_w ex_c ex_wrong) (snd ex_start) = exec ex_w ex_c ex_wrong (snd ex_start)"
  by (rule uninterrupted_task_is_handler) (use start_untouched [OF ex_start_race] in \<open>simp add: untouched_def\<close>)

end
