(* ===== verification/Locking.thy ===== *)
theory Locking
  imports Prelude
begin

text \<open>
  Threads that take mutexes one after another, hold several at a time and wait for each other. A
  thread is what is left of a request: a result, taking or giving back a mutex, or an action on the
  shared memory. A mutex is not reentrant: a thread that wants one it holds itself waits for
  ever. \<open>ordered\<close> is the discipline that rules deadlock out: mutexes are taken in increasing
  order, given back before the end, and the thread has at most so many steps.
\<close>

datatype ('m, 's, 'a) thread =
  Ended 'a
| Acquire 'm "('m, 's, 'a) thread"
| Release 'm "('m, 's, 'a) thread"
| Act "'s \<Rightarrow> ('m, 's, 'a) thread \<times> 's"

text \<open>
  The thread alone, with the mutexes it holds; there is no result when it waits for itself, gives
  back what it does not hold, or ends with a mutex.
\<close>

primrec run_thread :: "('m, 's, 'a) thread \<Rightarrow> 'm list \<Rightarrow> 's \<Rightarrow> ('a \<times> 's) option" where
  "run_thread (Ended x) = (\<lambda>held s. if held = [] then Some (x, s) else None)"
| "run_thread (Acquire m t) = (\<lambda>held. if m \<in> set held then (\<lambda>_. None) else run_thread t (m # held))"
| "run_thread (Release m t) = (\<lambda>held. if m \<in> set held then run_thread t (removeAll m held) else (\<lambda>_. None))"
| "run_thread (Act f) = (\<lambda>held s. (\<lambda>(rest, s'). rest held s') ((map_prod run_thread id \<circ> f) s))"

lemma run_thread_Act [simp]: "run_thread (Act f) held s = (case f s of (t, s') \<Rightarrow> run_thread t held s')"
  by (simp split: prod.split)

declare run_thread.simps(4) [simp del]

text \<open>A program that runs under one guard, with the early return of the \<open>?\<close> operator.\<close>

definition guarded ::
  "'m \<Rightarrow> ('s, 'e, 'x) prog \<Rightarrow> ('x \<Rightarrow> ('m, 's, ('e, 'a) outcome) thread) \<Rightarrow> ('m, 's, ('e, 'a) outcome) thread"
  where
  "guarded m p k =
     Acquire m (Act (\<lambda>s. case p s of
       (Ok x, s') \<Rightarrow> (Release m (k x), s')
     | (Err e, s') \<Rightarrow> (Release m (Ended (Err e)), s')
     | (Panic, s') \<Rightarrow> (Release m (Ended Panic), s')))"

lemma run_guarded [simp]:
  "m \<notin> set held \<Longrightarrow> run_thread (guarded m p k) held s =
     (case p s of
        (Ok x, s') \<Rightarrow> run_thread (k x) held s'
      | (Err e, s') \<Rightarrow> run_thread (Ended (Err e)) held s'
      | (Panic, s') \<Rightarrow> run_thread (Ended Panic) held s')"
  by (simp add: guarded_def removeAll_id split: prod.split outcome.split)

lemma run_thread_map: "run_thread (map_thread id g t) held s = map_option (map_prod g id) (run_thread t held s)"
proof (induction t arbitrary: held s)
  case (Act f)
  obtain u s' where u: "f s = (u, s')" by (metis surj_pair)
  then have "run_thread (map_thread id g u) held s' = map_option (map_prod g id) (run_thread u held s')"
    using Act.IH [of "f s" u held s'] rangeI [of f s] by (simp add: id_def)
  with u show ?case by (simp add: id_def)
qed simp_all

section \<open>The discipline\<close>

inductive ordered :: "'m :: linorder set \<Rightarrow> nat \<Rightarrow> ('m, 's, 'a) thread \<Rightarrow> bool" where
  ordered_Ended: "ordered {} n (Ended x)"
| ordered_Acquire: "\<forall>h\<in>H. h < m \<Longrightarrow> ordered (insert m H) n t \<Longrightarrow> ordered H (Suc n) (Acquire m t)"
| ordered_Release: "m \<in> H \<Longrightarrow> ordered (H - {m}) n t \<Longrightarrow> ordered H (Suc n) (Release m t)"
| ordered_Act: "(\<And>s. ordered H n (fst (f s))) \<Longrightarrow> ordered H (Suc n) (Act f)"

inductive_cases ordered_EndedE: "ordered H n (Ended x)"
inductive_cases ordered_AcquireE: "ordered H n (Acquire m t)"
inductive_cases ordered_ReleaseE: "ordered H n (Release m t)"
inductive_cases ordered_ActE: "ordered H n (Act f)"

lemma ordered_more: "ordered H n t \<Longrightarrow> n \<le> k \<Longrightarrow> ordered H k t"
proof (induction arbitrary: k rule: ordered.induct)
  case (ordered_Acquire H m n t)
  then show ?case by (cases k) (auto intro: ordered.ordered_Acquire)
next
  case (ordered_Release m H n t)
  then show ?case by (cases k) (auto intro: ordered.ordered_Release)
next
  case (ordered_Act H n f)
  then show ?case by (cases k) (auto intro: ordered.ordered_Act)
qed (rule ordered_Ended)

text \<open>A guard of a thread that holds nothing takes three steps: the mutex, the program and the release.\<close>

lemma ordered_guarded:
  assumes "\<And>x. ordered {} n (k x)"
  shows "ordered {} (3 + n) (guarded m p k)"
proof -
  have "ordered {m} (Suc (Suc n)) (Act (\<lambda>s. case p s of
       (Ok x, s') \<Rightarrow> (Release m (k x), s')
     | (Err e, s') \<Rightarrow> (Release m (Ended (Err e)), s')
     | (Panic, s') \<Rightarrow> (Release m (Ended Panic), s')))"
    by (intro ordered_Act)
      (auto split: prod.split outcome.split intro!: ordered_Release ordered_Ended assms)
  then show ?thesis
    unfolding guarded_def eval_nat_numeral by (auto intro: ordered_Acquire)
qed

lemma ordered_map: "ordered H n t \<Longrightarrow> ordered H n (map_thread id g t)"
proof (induction rule: ordered.induct)
  case (ordered_Act H n f)
  have "ordered H (Suc n) (Act (map_prod (map_thread id g) id \<circ> f))"
    by (rule ordered.ordered_Act) (use ordered_Act.IH in \<open>simp add: id_def\<close>)
  then show ?case by (simp add: id_def comp_def)
qed (auto intro: ordered.intros)

section \<open>The machine\<close>

record ('m, 's, 'a) machine =
  memory :: 's
  threads :: "('m set \<times> ('m, 's, 'a) thread) list"

text \<open>A mutex can be taken when no thread holds it, not even the one that wants it.\<close>

inductive work :: "('m, 's, 'a) machine \<Rightarrow> ('m, 's, 'a) machine \<Rightarrow> bool" where
  work_acquire:
    "i < length (threads p) \<Longrightarrow> threads p ! i = (H, Acquire m t) \<Longrightarrow> \<forall>x\<in>set (threads p). m \<notin> fst x \<Longrightarrow>
     work p (p\<lparr>threads := (threads p)[i := (insert m H, t)]\<rparr>)"
| work_release:
    "i < length (threads p) \<Longrightarrow> threads p ! i = (H, Release m t) \<Longrightarrow>
     work p (p\<lparr>threads := (threads p)[i := (H - {m}, t)]\<rparr>)"
| work_act:
    "i < length (threads p) \<Longrightarrow> threads p ! i = (H, Act f) \<Longrightarrow> f (memory p) = (t, s) \<Longrightarrow>
     work p \<lparr>memory = s, threads = (threads p)[i := (H, t)]\<rparr>"

inductive machine_step ::
  "(('m, 's, 'a) thread \<Rightarrow> bool) \<Rightarrow> ('s \<Rightarrow> 's \<Rightarrow> bool) \<Rightarrow> ('m, 's, 'a) machine \<Rightarrow> ('m, 's, 'a) machine \<Rightarrow> bool"
  for request :: "('m, 's, 'a) thread \<Rightarrow> bool" and outside :: "'s \<Rightarrow> 's \<Rightarrow> bool" where
  machine_spawn: "request t \<Longrightarrow> machine_step request outside p (p\<lparr>threads := threads p @ [({}, t)]\<rparr>)"
| machine_work: "work p q \<Longrightarrow> machine_step request outside p q"
| machine_outside: "outside (memory p) s \<Longrightarrow> machine_step request outside p (p\<lparr>memory := s\<rparr>)"

definition machine_init :: "('s \<Rightarrow> bool) \<Rightarrow> ('m, 's, 'a) machine \<Rightarrow> bool" where
  "machine_init init p \<longleftrightarrow> init (memory p) \<and> threads p = []"

text \<open>Runs without new requests, by the number of steps the threads make.\<close>

inductive working :: "('s \<Rightarrow> 's \<Rightarrow> bool) \<Rightarrow> nat \<Rightarrow> ('m, 's, 'a) machine \<Rightarrow> ('m, 's, 'a) machine \<Rightarrow> bool"
  for outside :: "'s \<Rightarrow> 's \<Rightarrow> bool" where
  working_none: "working outside 0 p p"
| working_step: "working outside k p q \<Longrightarrow> work q r \<Longrightarrow> working outside (Suc k) p r"
| working_outside: "working outside k p q \<Longrightarrow> outside (memory q) s \<Longrightarrow> working outside k p (q\<lparr>memory := s\<rparr>)"

fun has_ended :: "('m, 's, 'a) thread \<Rightarrow> bool" where
  "has_ended (Ended x) = True"
| "has_ended _ = False"

section \<open>No deadlock\<close>

definition disciplined :: "nat list \<Rightarrow> ('m :: linorder, 's, 'a) machine \<Rightarrow> bool" where
  "disciplined ns p \<longleftrightarrow> list_all2 (\<lambda>n (H, t). ordered H n t) ns (threads p)"

lemma disciplined_nth:
  "disciplined ns p \<Longrightarrow> i < length (threads p) \<Longrightarrow> threads p ! i = (H, t) \<Longrightarrow> i < length ns \<and> ordered H (ns ! i) t"
  unfolding disciplined_def by (auto simp: list_all2_conv_all_nth)

lemma disciplined_update:
  assumes "disciplined ns p" and "i < length (threads p)" and "ordered H n t" and "threads q = (threads p)[i := (H, t)]"
  shows "disciplined (ns[i := n]) q"
  using assms unfolding disciplined_def by (auto intro: list_all2_update_cong)

lemma sum_list_use: "i < length ns \<Longrightarrow> ns ! i = Suc n \<Longrightarrow> Suc (sum_list (ns[i := n])) = sum_list ns"
  using member_le_sum_list [of "ns ! i" ns] nth_mem [of i ns] by (simp add: sum_list_update)

text \<open>Each step of a thread uses up one of the steps it has left.\<close>

lemma work_uses:
  assumes "work p q" and "disciplined ns p"
  shows "\<exists>ms. disciplined ms q \<and> Suc (sum_list ms) = sum_list ns"
  using assms(1)
proof cases
  case (work_acquire i H m t)
  then obtain n where n: "i < length ns" "ns ! i = Suc n" "ordered (insert m H) n t"
    using disciplined_nth [OF assms(2)] by (metis ordered_AcquireE)
  with work_acquire show ?thesis
    by (intro exI [of _ "ns[i := n]"] conjI disciplined_update [OF assms(2)]) (auto simp: sum_list_use)
next
  case (work_release i H m t)
  then obtain n where n: "i < length ns" "ns ! i = Suc n" "ordered (H - {m}) n t"
    using disciplined_nth [OF assms(2)] by (metis ordered_ReleaseE)
  with work_release show ?thesis
    by (intro exI [of _ "ns[i := n]"] conjI disciplined_update [OF assms(2)]) (auto simp: sum_list_use)
next
  case (work_act i H f t s)
  then obtain n where n: "i < length ns" "ns ! i = Suc n" "ordered H n t"
    using disciplined_nth [OF assms(2)] by (metis ordered_ActE fst_conv)
  with work_act show ?thesis
    by (intro exI [of _ "ns[i := n]"] conjI disciplined_update [OF assms(2)]) (auto simp: sum_list_use)
qed

lemma working_bound: "working outside k p q \<Longrightarrow> disciplined ns p \<Longrightarrow> \<exists>ms. disciplined ms q \<and> k + sum_list ms = sum_list ns"
proof (induction rule: working.induct)
  case (working_step k p q r)
  then show ?case using work_uses by fastforce
next
  case (working_outside k p q s)
  then show ?case by (auto simp: disciplined_def)
qed auto

text \<open>
  Some thread can go on: a thread that is stopped waits for a mutex of another, and the one that waits
  for the greatest waits for a thread that is not stopped.
\<close>

lemma not_stuck:
  assumes "disciplined ns p" and "\<exists>x\<in>set (threads p). \<not> has_ended (snd x)"
  shows "\<exists>q. work p q"
proof (rule ccontr)
  assume stuck: "\<nexists>q. work p q"
  let ?W = "{m. \<exists>i < length (threads p). \<exists>H t. threads p ! i = (H, Acquire m t)}"
  have waits: "\<exists>m t. u = Acquire m t" if i: "i < length (threads p)" "threads p ! i = (H, u)" "\<not> has_ended u" for i H u
  proof (cases u)
    case (Act f)
    obtain t s where "f (memory p) = (t, s)" by (metis surj_pair)
    with work_act [of i p H f t s] i(1,2) Act stuck show ?thesis by blast
  next
    case (Release m t)
    from work_release [OF i(1)] i(2) Release stuck show ?thesis by blast
  qed (use i in auto)
  obtain i H u where i: "i < length (threads p)" "threads p ! i = (H, u)" "\<not> has_ended u"
    using assms(2) by (metis in_set_conv_nth prod.collapse)
  have fin: "finite ?W"
  proof -
    have "?W \<subseteq> (\<lambda>x. case snd x of Acquire m t \<Rightarrow> m) ` set (threads p)"
    proof
      fix m assume "m \<in> ?W"
      then obtain i H t where "i < length (threads p)" "threads p ! i = (H, Acquire m t)" by blast
      then have "(H, Acquire m t) \<in> set (threads p)" by (metis nth_mem)
      then show "m \<in> (\<lambda>x. case snd x of Acquire m t \<Rightarrow> m) ` set (threads p)" by (rule rev_image_eqI) simp
    qed
    then show ?thesis by (rule finite_subset) simp
  qed
  moreover have ne: "?W \<noteq> {}" using waits [OF i] i(1,2) by blast
  define m where "m = Max ?W"
  have "m \<in> ?W" unfolding m_def using fin ne by (rule Max_in)
  then obtain j H' t where j: "j < length (threads p)" "threads p ! j = (H', Acquire m t)" by blast
  from work_acquire [OF this] stuck obtain x where "x \<in> set (threads p)" "m \<in> fst x" by blast
  then obtain k H'' u' where k: "k < length (threads p)" "threads p ! k = (H'', u')" "m \<in> H''"
    by (metis in_set_conv_nth prod.collapse)
  have o: "ordered H'' (ns ! k) u'" using disciplined_nth [OF assms(1) k(1,2)] by blast
  with k(3) have "\<not> has_ended u'" by (cases u') (auto elim: ordered_EndedE)
  with waits [OF k(1,2)] obtain m' t' where u': "u' = Acquire m' t'" by blast
  with o k(3) have "m < m'" by (auto elim: ordered_AcquireE)
  moreover have "m' \<le> m" unfolding m_def using k(1,2) u' fin by (intro Max_ge) auto
  ultimately show False by simp
qed

text \<open>
  The interface between a service and this result: each of its requests keeps the discipline and takes
  at most \<open>bound\<close> steps.
\<close>

locale orderly_requests =
  fixes init :: "'s \<Rightarrow> bool" and request :: "('m :: linorder, 's, 'a) thread \<Rightarrow> bool"
    and outside :: "'s \<Rightarrow> 's \<Rightarrow> bool" and bound :: nat
  assumes request_ordered: "request t \<Longrightarrow> ordered {} bound t"
begin

definition orderly :: "('m, 's, 'a) machine \<Rightarrow> bool" where
  "orderly p \<longleftrightarrow> (\<exists>ns. disciplined ns p \<and> sum_list ns \<le> bound * length (threads p))"

lemma orderly_step: "machine_step request outside p q \<Longrightarrow> orderly p \<Longrightarrow> orderly q"
proof (induction rule: machine_step.induct)
  case (machine_spawn t p)
  then obtain ns where "disciplined ns p" "sum_list ns \<le> bound * length (threads p)" by (auto simp: orderly_def)
  then show ?case using request_ordered [OF machine_spawn.hyps]
    by (auto simp: orderly_def disciplined_def intro!: exI [of _ "ns @ [bound]"] list_all2_appendI)
next
  case (machine_work p q)
  then obtain ns where ns: "disciplined ns p" "sum_list ns \<le> bound * length (threads p)" by (auto simp: orderly_def)
  moreover from machine_work.hyps have "length (threads q) = length (threads p)" by cases auto
  ultimately show ?case using work_uses [OF machine_work.hyps ns(1)] unfolding orderly_def by fastforce
qed (auto simp: orderly_def disciplined_def)

end

sublocale orderly_requests \<subseteq> invariant_of "machine_init init" "machine_step request outside" orderly
proof unfold_locales
  show "machine_init init p \<Longrightarrow> orderly p" for p
    by (simp add: machine_init_def orderly_def disciplined_def)
qed (rule orderly_step)

context orderly_requests
begin

lemma always_returns:
  assumes "reachable (machine_init init) (machine_step request outside) p"
  shows "((\<exists>x\<in>set (threads p). \<not> has_ended (snd x)) \<longrightarrow> (\<exists>q. work p q))
    \<and> (\<forall>k q. working outside k p q \<longrightarrow> k \<le> bound * length (threads p))"
proof -
  obtain ns where ns: "disciplined ns p" "sum_list ns \<le> bound * length (threads p)"
    using inv_reachable [OF assms] by (auto simp: orderly_def)
  then show ?thesis using not_stuck [OF ns(1)] working_bound [OF _ ns(1)] by fastforce
qed

end

end
