(* ===== verification/Auth_Returns.thy ===== *)
theory Auth_Returns
  imports Auth_Race Locking
begin

text \<open>
  The requests of \<open>src/src/auth.rs\<close> as threads that lock, wait and unlock: one \<open>Acquire\<close> for each
  \<open>lock()\<close> of the code, the guard released where it is dropped, \<open>register_finish\<close> holding the store while it
  looks up the session. Alone such a thread does what its handler does; with any others none of
  them waits for ever.
\<close>

section \<open>The mutexes\<close>

datatype mutex_id = StoreMutex | RegMutex | AuthMutex | SessionsMutex | BootstrapMutex

text \<open>The order in which a thread may take them.\<close>

fun rank :: "mutex_id \<Rightarrow> nat" where
  "rank StoreMutex = 0"
| "rank RegMutex = 1"
| "rank AuthMutex = 2"
| "rank SessionsMutex = 3"
| "rank BootstrapMutex = 4"

instantiation mutex_id :: linorder
begin

definition less_eq_mutex_id :: "mutex_id \<Rightarrow> mutex_id \<Rightarrow> bool" where
  "less_eq_mutex_id m n \<longleftrightarrow> rank m \<le> rank n"

definition less_mutex_id :: "mutex_id \<Rightarrow> mutex_id \<Rightarrow> bool" where
  "less_mutex_id m n \<longleftrightarrow> rank m < rank n"

instance
proof
  fix m n k :: mutex_id
  show "m \<le> n \<Longrightarrow> n \<le> m \<Longrightarrow> m = n" by (cases m; cases n) (simp_all add: less_eq_mutex_id_def)
qed (auto simp: less_eq_mutex_id_def less_mutex_id_def)

end

type_synonym ('w, 'a) locker = "(mutex_id, 'w auth_state, (http_error, 'a) outcome) thread"

section \<open>The handlers\<close>

text \<open>Without a session cookie nothing is locked.\<close>

definition session_thread :: "time \<Rightarrow> jar \<Rightarrow> (bool \<Rightarrow> ('w, 'a) locker) \<Rightarrow> ('w, 'a) locker" where
  "session_thread now jar k =
     (case jar SESSION_COOKIE of None \<Rightarrow> k False | Some tok \<Rightarrow> guarded SessionsMutex (session_valid now jar) k)"

definition new_session_thread :: "env \<Rightarrow> nat \<Rightarrow> string \<Rightarrow> ('w, jar_op list \<times> status_code) locker" where
  "new_session_thread e i name =
     guarded SessionsMutex (new_session (clk e i) (clk e (Suc i)) (rand32 e)) (\<lambda>session.
     Ended (Ok ([JarRemove (clear_cookie name), JarAdd session], OK)))"

fun calls_thread ::
  "(nat \<Rightarrow> bool) \<Rightarrow> nat \<Rightarrow> sys_op list \<Rightarrow> handle option \<Rightarrow> (bool \<Rightarrow> ('w, 'a) locker) \<Rightarrow> ('w, 'a) locker" where
  "calls_thread ok i [] h k = k True"
| "calls_thread ok i (op # ops) h k =
     Act (\<lambda>a.
       if \<not> ok i then (k False, a)
       else case sys_call op (h, a_disk a) of
              None \<Rightarrow> (k False, a)
            | Some (h', d) \<Rightarrow> (calls_thread ok (Suc i) ops h' k, a\<lparr>a_disk := d\<rparr>))"

text \<open>\<open>persist\<close> gives the store back before it writes.\<close>

definition persist_thread :: "'w codec \<Rightarrow> env \<Rightarrow> (bool \<Rightarrow> ('w, 'a) locker) \<Rightarrow> ('w, 'a) locker" where
  "persist_thread c e k =
     Acquire StoreMutex (Act (\<lambda>a.
       (Release StoreMutex
         (case lock (a_store a) of
            None \<Rightarrow> k False
          | Some s \<Rightarrow>
              (case to_json c s of
                 None \<Rightarrow> k False
               | Some json \<Rightarrow>
                   calls_thread (io_ok e) 0 (replace_ops (tmp_path (a_path a)) (a_path a) (io_split e json)) None k)),
        a)))"

definition register_start_thread ::
  "'w webauthn \<Rightarrow> env \<Rightarrow> jar \<Rightarrow> string option option \<Rightarrow> ('w, jar_op list \<times> 'w) locker" where
  "register_start_thread w e jar body =
     session_thread (clk e 0) jar (\<lambda>signed_in.
     guarded StoreMutex (reg_mode_of signed_in) (\<lambda>mode.
     (if mode = Bootstrap then guarded BootstrapMutex (check_code mode body) else (\<lambda>k. k ())) (\<lambda>_.
     guarded StoreMutex (intended_user w e) (\<lambda>(uid, exclude).
       case start_reg w (wa_seed e) uid ''admin'' ''admin'' exclude of
         Inl err \<Rightarrow> Ended (Err (INTERNAL_SERVER_ERROR, Library err))
       | Inr (ccr, reg_state) \<Rightarrow>
           guarded StoreMutex (remember_user uid) (\<lambda>_.
           guarded RegMutex (park_reg e reg_state mode) (\<lambda>_.
           Ended (Ok ([JarAdd (build_cookie REG_COOKIE (hex32 (rand32 e)))], ccr))))))))"

text \<open>
  The section of \<open>register_finish\<close> on the store: the guard is held while the session is looked up, and
  dropped at the end of the block or by an early return.
\<close>

definition push_checked :: "'w webauthn \<Rightarrow> 'w \<Rightarrow> 'w cred_store \<Rightarrow> bool \<Rightarrow> ('w, unit) handler" where
  "push_checked w pk s allowed =
     (if \<not> allowed then throw (FORBIDDEN, AdminExists)
      else if cred_id w pk \<in> set (map (cred_id w) (passkeys s)) then throw (BAD_REQUEST, AlreadyEnrolled)
      else (\<lambda>a. (Ok (), a\<lparr>a_store := put (s\<lparr>passkeys := passkeys s @ [pk]\<rparr>) (a_store a)\<rparr>)))"

definition enrol_thread ::
  "'w webauthn \<Rightarrow> time \<Rightarrow> jar \<Rightarrow> reg_mode \<Rightarrow> 'w \<Rightarrow> ('w, 'a) locker \<Rightarrow> ('w, 'a) locker" where
  "enrol_thread w now jar mode pk rest =
     Acquire StoreMutex (Act (\<lambda>a.
       (case lock (a_store a) of
          None \<Rightarrow> Release StoreMutex (Ended Panic)
        | Some s \<Rightarrow>
            (let push = (\<lambda>allowed. Act (\<lambda>a. case push_checked w pk s allowed a of
                   (Ok _, a') \<Rightarrow> (Release StoreMutex rest, a')
                 | (Err x, a') \<Rightarrow> (Release StoreMutex (Ended (Err x)), a')
                 | (Panic, a') \<Rightarrow> (Release StoreMutex (Ended Panic), a')))
             in case (mode, jar SESSION_COOKIE) of
                  (Bootstrap, _) \<Rightarrow> push (passkeys s = [])
                | (AddDevice, None) \<Rightarrow> push False
                | (AddDevice, Some tok) \<Rightarrow>
                    Acquire SessionsMutex (Act (\<lambda>a. case session_valid now jar a of
                        (Ok valid, a') \<Rightarrow> (Release SessionsMutex (push valid), a')
                      | (Err x, a') \<Rightarrow> (Release SessionsMutex (Release StoreMutex (Ended (Err x))), a')
                      | (Panic, a') \<Rightarrow> (Release SessionsMutex (Release StoreMutex (Ended Panic)), a')))),
        a)))"

definition close_thread :: "reg_mode \<Rightarrow> ('w, 'a) locker \<Rightarrow> ('w, 'a) locker" where
  "close_thread mode t =
     (if mode = Bootstrap
      then guarded RegMutex (with_lock a_reg (\<lambda>m a. (Ok (), a\<lparr>a_reg := put [] (a_reg a)\<rparr>))) (\<lambda>_.
           guarded BootstrapMutex (with_lock a_bootstrap (\<lambda>u a. (Ok (), a\<lparr>a_bootstrap := put None (a_bootstrap a)\<rparr>))) (\<lambda>_. t))
      else t)"

definition register_finish_thread ::
  "'w webauthn \<Rightarrow> 'w codec \<Rightarrow> env \<Rightarrow> jar \<Rightarrow> 'w \<Rightarrow> ('w, jar_op list \<times> status_code) locker" where
  "register_finish_thread w c e jar cred =
     (case jar REG_COOKIE of
        None \<Rightarrow> Ended (Err (BAD_REQUEST, NoCeremony))
      | Some rid \<Rightarrow>
          guarded RegMutex (take_reg (clk e 0) rid) (\<lambda>(reg_state, mode).
          case finish_reg w cred reg_state of
            Inl err \<Rightarrow> Ended (Err (BAD_REQUEST, Library err))
          | Inr pk \<Rightarrow>
              enrol_thread w (clk e 1) jar mode pk
                (persist_thread c e (\<lambda>ok.
                   if ok then close_thread mode (new_session_thread e 2 REG_COOKIE)
                   else guarded StoreMutex undo_push (\<lambda>_. Ended (Err (INTERNAL_SERVER_ERROR, SaveFailed)))))))"

definition login_start_thread :: "'w webauthn \<Rightarrow> env \<Rightarrow> ('w, jar_op list \<times> 'w) locker" where
  "login_start_thread w e =
     guarded StoreMutex (with_lock a_store (\<lambda>s. ret (passkeys s))) (\<lambda>pks.
     if pks = [] then Ended (Err (BAD_REQUEST, NoAccount))
     else case start_auth w (wa_seed e) pks of
            Inl err \<Rightarrow> Ended (Err (INTERNAL_SERVER_ERROR, Library err))
          | Inr (rcr, auth_state) \<Rightarrow>
              guarded AuthMutex (with_lock a_auth (\<lambda>m a.
                     (Ok (),
                      a\<lparr>a_auth := put (insert_capped auth_exp (clk e 1) (hex32 (rand32 e))
                          (auth_state, clk e 0 + CEREMONY_TTL) m) (a_auth a)\<rparr>))) (\<lambda>_.
              Ended (Ok ([JarAdd (build_cookie AUTH_COOKIE (hex32 (rand32 e)))], rcr))))"

definition login_finish_thread ::
  "'w webauthn \<Rightarrow> 'w codec \<Rightarrow> env \<Rightarrow> jar \<Rightarrow> 'w \<Rightarrow> ('w, jar_op list \<times> status_code) locker" where
  "login_finish_thread w c e jar cred =
     (case jar AUTH_COOKIE of
        None \<Rightarrow> Ended (Err (BAD_REQUEST, NoCeremony))
      | Some aid \<Rightarrow>
          guarded AuthMutex (take_auth (clk e 0) aid) (\<lambda>auth_state.
          case finish_auth w cred auth_state of
            Inl err \<Rightarrow> Ended (Err (UNAUTHORIZED, Library err))
          | Inr result \<Rightarrow>
              guarded StoreMutex (bump_counters w result) (\<lambda>_.
              persist_thread c e (\<lambda>_. new_session_thread e 1 AUTH_COOKIE))))"

definition logout_thread :: "jar \<Rightarrow> ('w, unit) locker" where
  "logout_thread jar =
     (case jar SESSION_COOKIE of
        None \<Rightarrow> Ended (Ok ())
      | Some tok \<Rightarrow> guarded SessionsMutex (logout_section jar) (\<lambda>_. Ended (Ok ())))"

text \<open>\<open>/auth/status\<close>: the store first, then the sessions.\<close>

definition status_thread :: "time \<Rightarrow> jar \<Rightarrow> ('w, bool \<times> bool) locker" where
  "status_thread now jar =
     guarded StoreMutex (\<lambda>a. (Ok (registered a), a)) (\<lambda>r.
     session_thread now jar (\<lambda>s. Ended (Ok (r, s))))"

definition sweep_thread :: "time \<Rightarrow> ('w, unit) locker" where
  "sweep_thread now =
     guarded RegMutex (\<lambda>a. (Ok (), a\<lparr>a_reg := retain_mutex (\<lambda>v. now < reg_exp v) (a_reg a)\<rparr>)) (\<lambda>_.
     guarded AuthMutex (\<lambda>a. (Ok (), a\<lparr>a_auth := retain_mutex (\<lambda>v. now < auth_exp v) (a_auth a)\<rparr>)) (\<lambda>_.
     guarded SessionsMutex (\<lambda>a. (Ok (), a\<lparr>a_sessions := retain_mutex (\<lambda>v. now < v) (a_sessions a)\<rparr>)) (\<lambda>_.
     Ended (Ok ()))))"

definition thread_of :: "'w webauthn \<Rightarrow> 'w codec \<Rightarrow> 'w action \<Rightarrow> (mutex_id, 'w auth_state, bool) thread" where
  "thread_of w c act =
     (case act of
        RegStart e jar body \<Rightarrow> map_thread id is_ok (register_start_thread w e jar body)
      | RegFinish e jar cred \<Rightarrow> map_thread id is_ok (register_finish_thread w c e jar cred)
      | LoginStart e \<Rightarrow> map_thread id is_ok (login_start_thread w e)
      | LoginFinish e jar cred \<Rightarrow> map_thread id is_ok (login_finish_thread w c e jar cred)
      | Logout jar \<Rightarrow> map_thread id is_ok (logout_thread jar)
      | CheckSession now jar \<Rightarrow>
          map_thread id (\<lambda>x. x = Ok True) (session_thread now jar (\<lambda>ok. Ended (Ok ok)) :: ('w, bool) locker)
      | Sweep now \<Rightarrow> map_thread id is_ok (sweep_thread now))"

section \<open>A thread that runs alone is the handler\<close>

lemma run_calls_thread:
  "run_thread (calls_thread ok i ops h k) held a =
     (case sys_calls ok i ops (h, a_disk a) of (r, _, d) \<Rightarrow> run_thread (k r) held (a\<lparr>a_disk := d\<rparr>))"
  by (induction ops arbitrary: i h a) (auto split: prod.split option.split)

lemma run_persist_thread:
  "run_thread (persist_thread c e k) [] a = (case persist c e a of (r, a') \<Rightarrow> run_thread (k (is_ok r)) [] a')"
  by (simp add: persist_thread_def persist_def run_calls_thread replace_file_def is_ok_def
      split: option.split prod.split)

text \<open>\<open>alone t h\<close>: run without interruption, the thread takes all its mutexes and does what the program does.\<close>

definition alone :: "('w, 'a) locker \<Rightarrow> ('w, 'a) handler \<Rightarrow> bool" where
  "alone t h \<longleftrightarrow> (\<forall>a. run_thread t [] a = Some (h a))"

lemma alone_Ok: "alone (Ended (Ok x)) (ret x)"
  by (simp add: alone_def ret_def)

lemma alone_Err: "alone (Ended (Err x)) (throw x)"
  by (simp add: alone_def throw_def)

lemma alone_guarded: "(\<And>x. alone (k x) (h x)) \<Longrightarrow> alone (guarded m p k) (bind p h)"
  by (simp add: alone_def bind_def split: prod.split outcome.split)

lemma alone_session: "(\<And>x. alone (k x) (h x)) \<Longrightarrow> alone (session_thread now jar k) (bind (session_valid now jar) h)"
  unfolding session_thread_def
  by (cases "jar SESSION_COOKIE") (simp_all add: alone_guarded session_valid_def bind_def ret_def alone_def split: prod.split outcome.split)

lemma alone_persist:
  "(\<And>b. alone (k b) (h b)) \<Longrightarrow> alone (persist_thread c e k) (\<lambda>a. case persist c e a of (r, a') \<Rightarrow> h (is_ok r) a')"
  by (simp add: alone_def run_persist_thread split: prod.split)

lemma alone_enrol: "alone rest h \<Longrightarrow> alone (enrol_thread w now jar mode pk rest) (bind (enrol w now jar mode pk) (\<lambda>_. h))"
  unfolding alone_def enrol_thread_def enrol_def
  by (cases mode; cases "jar SESSION_COOKIE")
    (auto simp: Let_def with_lock_def bind_def push_checked_def session_valid_def ret_def throw_def
      split: option.split prod.split outcome.split)

lemma alone_save:
  assumes "alone t h"
  shows "alone (persist_thread c e (\<lambda>ok. if ok then t else guarded m undo_push (\<lambda>_. Ended (Err x))))
    (bind (\<lambda>a. case persist c e a of
         (Ok _, a') \<Rightarrow> (Ok (), a') | (Err _, a') \<Rightarrow> bind undo_push (\<lambda>_. throw x) a' | (Panic, a') \<Rightarrow> (Panic, a')) (\<lambda>_. h))"
    (is "alone ?t ?h")
proof -
  have "alone ?t (\<lambda>a. case persist c e a of (r, a') \<Rightarrow> (if is_ok r then h else bind undo_push (\<lambda>_. throw x)) a')"
    by (rule alone_persist) (simp add: assms alone_guarded alone_Err)
  moreover have "(case persist c e a of (r, a') \<Rightarrow> (if is_ok r then h else bind undo_push (\<lambda>_. throw x)) a') = ?h a" for a
  proof -
    obtain r a' where "persist c e a = (r, a')" by (metis surj_pair)
    moreover from this have "r \<noteq> Panic" using persist_never_panics [of c e a] by auto
    ultimately show ?thesis
      by (cases r) (auto simp: is_ok_def bind_def throw_def split: prod.split outcome.split)
  qed
  ultimately show ?thesis by (simp add: alone_def)
qed

lemma alone_close: "alone t h \<Longrightarrow> alone (close_thread mode t) (bind (close_bootstrap mode) (\<lambda>_. h))"
  unfolding close_thread_def close_bootstrap_def
  by (auto simp: bind_assoc intro!: alone_guarded)

lemmas alone_intros = alone_Ok alone_Err alone_guarded alone_session alone_enrol alone_close

lemma alone_check_code:
  assumes "\<And>x. alone (k x) (h x)"
  shows "alone ((if mode = Bootstrap then guarded BootstrapMutex (check_code mode body) else (\<lambda>k. k ())) k)
    (bind (check_code mode body) h)"
proof (cases mode)
  case Bootstrap
  with assms show ?thesis by (simp add: alone_guarded)
next
  case AddDevice
  then have "bind (check_code mode body) h = h ()" by (simp add: check_code_def bind_def fun_eq_iff)
  with assms AddDevice show ?thesis by simp
qed

lemma alone_best_effort:
  assumes "alone t h"
  shows "alone (persist_thread c e (\<lambda>_. t)) (bind (persist_best_effort c e) (\<lambda>_. h))"
proof -
  have "(case persist c e a of (r, a') \<Rightarrow> h a') = bind (persist_best_effort c e) (\<lambda>_. h) a" for a
    using persist_never_panics [of c e a]
    by (auto simp: persist_best_effort_def bind_def split: prod.split outcome.split)
  with alone_persist [of "\<lambda>_. t" "\<lambda>_. h", OF assms] show ?thesis by (simp add: alone_def)
qed

lemma alone_register_start: "alone (register_start_thread w e jar body) (register_start w e jar body)"
  unfolding register_start_thread_def register_start_def
  by (intro alone_intros alone_check_code) (auto intro!: alone_intros split: sum.split prod.split)

lemma alone_register_finish: "alone (register_finish_thread w c e jar cred) (register_finish w c e jar cred)"
proof -
  have "alone (new_session_thread e 2 REG_COOKIE)
      (bind (new_session (clk e 2) (clk e 3) (rand32 e)) (\<lambda>session. ret ([JarRemove (clear_cookie REG_COOKIE), JarAdd session], OK)))"
    unfolding new_session_thread_def eval_nat_numeral by (intro alone_intros)
  then show ?thesis
    unfolding register_finish_thread_def register_finish_def persist_or_undo_def [abs_def]
    by (auto intro!: alone_intros alone_save split: sum.split prod.split option.split)
qed

lemma alone_login_start: "alone (login_start_thread w e) (login_start w e)"
  unfolding login_start_thread_def login_start_def
  by (auto intro!: alone_intros split: sum.split prod.split)

lemma alone_login_finish: "alone (login_finish_thread w c e jar cred) (login_finish w c e jar cred)"
proof -
  have "alone (new_session_thread e 1 AUTH_COOKIE)
      (bind (new_session (clk e 1) (clk e 2) (rand32 e)) (\<lambda>session. ret ([JarRemove (clear_cookie AUTH_COOKIE), JarAdd session], OK)))"
    unfolding new_session_thread_def numeral_2_eq_2 One_nat_def by (intro alone_intros)
  then show ?thesis
    unfolding login_finish_thread_def login_finish_def
    by (auto intro!: alone_intros alone_best_effort split: sum.split prod.split option.split)
qed

lemmas alone_handlers = alone_register_start alone_register_finish alone_login_start alone_login_finish

text \<open>The threads are the handlers of the machine of requests.\<close>

theorem thread_alone_is_handler:
  assumes "clean a"
  shows "run_thread (thread_of w c act) [] a = Some (exec w c act a)"
proof (cases act)
  case (Logout jar)
  with assms show ?thesis
    by (auto simp: thread_of_def run_thread_map logout_thread_def logout_section_def logout_eq is_ok_def clean_def
        split: option.split)
next
  case (CheckSession now jar)
  have "alone (session_thread now jar (\<lambda>ok. Ended (Ok ok)) :: ('a, bool) locker) (bind (session_valid now jar) ret)"
    by (intro alone_intros)
  with CheckSession assms show ?thesis
    by (simp add: thread_of_def run_thread_map alone_def session_valid_eq bind_def ret_def)
next
  case (Sweep now)
  then show ?thesis by (simp add: thread_of_def run_thread_map sweep_thread_def sweep_def is_ok_def)
qed (simp_all add: thread_of_def run_thread_map alone_handlers [unfolded alone_def, rule_format])

section \<open>The order of the mutexes\<close>

text \<open>\<open>write_all\<close> takes at most \<open>k\<close> chunks for one file.\<close>

fun chunks_within :: "nat \<Rightarrow> 'w action \<Rightarrow> bool" where
  "chunks_within k (RegFinish e jar cred) = (\<forall>s. length (io_split e s) \<le> k)"
| "chunks_within k (LoginFinish e jar cred) = (\<forall>s. length (io_split e s) \<le> k)"
| "chunks_within k act = True"

lemma ordered_session: "(\<And>x. ordered {} n (k x)) \<Longrightarrow> ordered {} (3 + n) (session_thread now jar k)"
  unfolding session_thread_def
  by (cases "jar SESSION_COOKIE") (auto intro: ordered_guarded ordered_more [where n = n])

lemma ordered_new_session: "ordered {} 3 (new_session_thread e i name)"
  unfolding new_session_thread_def
  using ordered_guarded [where n = 0, OF ordered_Ended] by simp

lemma ordered_calls:
  "(\<And>b. ordered {} n (k b)) \<Longrightarrow> ordered {} (length ops + n) (calls_thread ok i ops h k)"
proof (induction ops arbitrary: i h)
  case (Cons op ops)
  have "ordered {} (length ops + n) (k b)" for b by (rule ordered_more [OF Cons.prems]) simp
  with Cons show ?case by (auto intro!: ordered_Act split: option.split)
qed simp

lemma ordered_persist:
  fixes k :: "bool \<Rightarrow> ('w, 'a) locker"
  assumes "\<And>s. length (io_split e s) \<le> m" and "\<And>b. ordered {} n (k b)"
  shows "ordered {} (6 + m + n) (persist_thread c e k)"
proof -
  have "ordered {} (3 + m + n) (calls_thread ok 0 (replace_ops tmp path (io_split e j)) None k)" for ok tmp path j
  proof (rule ordered_more)
    show "ordered {} (length (replace_ops tmp path (io_split e j)) + n)
        (calls_thread ok 0 (replace_ops tmp path (io_split e j)) None k)"
      using assms(2) by (rule ordered_calls)
    show "length (replace_ops tmp path (io_split e j)) + n \<le> 3 + m + n"
      using assms(1) by (simp add: replace_ops_def)
  qed
  moreover have "ordered {} (3 + m + n) (k b)" for b by (rule ordered_more [OF assms(2)]) simp
  moreover define p where "p = 3 + m + n"
  ultimately have p: "\<And>b. ordered {} p (k b)"
    "\<And>ok tmp path j. ordered {} p (calls_thread ok 0 (replace_ops tmp path (io_split e j)) None k)"
    by simp_all
  have "ordered {StoreMutex} (Suc p) (Release StoreMutex t)" if "ordered {} p t" for t :: "('w, 'a) locker"
    using that by (auto intro: ordered_Release)
  with p have "ordered {} (Suc (Suc (Suc p))) (persist_thread c e k)"
    unfolding persist_thread_def
    by (intro ordered_Acquire ordered_Act) (auto split: option.split)
  then show ?thesis by (simp add: numeral_eq_Suc p_def)
qed

text \<open>The one place where a thread holds two: the sessions come after the store.\<close>

lemma ordered_enrol:
  fixes rest :: "('w, 'a) locker"
  assumes "ordered {} n rest"
  shows "ordered {} (Suc (Suc (Suc (Suc (Suc (Suc (Suc n))))))) (enrol_thread w now jar mode pk rest)"
proof -
  have later: "StoreMutex < SessionsMutex" by (simp add: less_mutex_id_def)
  have diff: "insert StoreMutex {} - {StoreMutex} = {}"
    "insert SessionsMutex (insert StoreMutex {}) - {SessionsMutex} = insert StoreMutex {}" by auto
  have push: "ordered {StoreMutex} (Suc (Suc n)) (Act (\<lambda>a. case push_checked w pk s allowed a of
                   (Ok _, a') \<Rightarrow> (Release StoreMutex rest, a')
                 | (Err x, a') \<Rightarrow> (Release StoreMutex (Ended (Err x)), a')
                 | (Panic, a') \<Rightarrow> (Release StoreMutex (Ended Panic), a')))" for s allowed
    using assms by (intro ordered_Act) (auto split: prod.split outcome.split intro!: ordered_Release ordered_Ended)
  have stop: "ordered {StoreMutex} (Suc k) (Release StoreMutex (Ended x) :: ('w, 'a) locker)" for k x
    by (auto intro!: ordered_Release ordered_Ended)
  have push': "ordered {StoreMutex} (Suc (Suc (Suc (Suc (Suc n))))) (Act (\<lambda>a. case push_checked w pk s allowed a of
                   (Ok _, a') \<Rightarrow> (Release StoreMutex rest, a')
                 | (Err x, a') \<Rightarrow> (Release StoreMutex (Ended (Err x)), a')
                 | (Panic, a') \<Rightarrow> (Release StoreMutex (Ended Panic), a')))" for s allowed
    using push by (rule ordered_more) simp
  have lookup: "ordered {StoreMutex} (Suc (Suc (Suc (Suc (Suc n))))) (Acquire SessionsMutex (Act (\<lambda>a.
      case session_valid now jar a of
        (Ok valid, a') \<Rightarrow> (Release SessionsMutex (push valid), a')
      | (Err x, a') \<Rightarrow> (Release SessionsMutex (Release StoreMutex (Ended (Err x))), a')
      | (Panic, a') \<Rightarrow> (Release SessionsMutex (Release StoreMutex (Ended Panic)), a'))))"
    if "\<And>valid. ordered {StoreMutex} (Suc (Suc n)) (push valid)" for push :: "bool \<Rightarrow> ('w, 'a) locker"
  proof (intro ordered_Acquire ordered_Act)
    have "ordered {SessionsMutex, StoreMutex} (Suc (Suc (Suc n))) (Release SessionsMutex t)"
      if "ordered {StoreMutex} (Suc (Suc n)) t" for t :: "('w, 'a) locker"
      using that by (auto intro!: ordered_Release simp: diff)
    then show "ordered {SessionsMutex, StoreMutex} (Suc (Suc (Suc n))) (fst (case session_valid now jar a of
        (Ok valid, a') \<Rightarrow> (Release SessionsMutex (push valid), a')
      | (Err x, a') \<Rightarrow> (Release SessionsMutex (Release StoreMutex (Ended (Err x))), a')
      | (Panic, a') \<Rightarrow> (Release SessionsMutex (Release StoreMutex (Ended Panic)), a')))" for a
      using that stop by (auto split: prod.split outcome.split)
  qed (use later in simp)
  show ?thesis
    unfolding enrol_thread_def
    by (intro ordered_Acquire ordered_Act)
      (auto simp: Let_def intro!: stop push' lookup push split: option.split reg_mode.split)
qed

text \<open>The rule with the steps as successors, so that it can be chained.\<close>

lemmas ordered_guards = ordered_guarded [unfolded numeral_3_eq_3 add_Suc add_0]

lemma ordered_register_start: "ordered {} 18 (register_start_thread w e jar body)"
proof -
  have code: "ordered {} (3 + n) ((if mode = Bootstrap then guarded BootstrapMutex (check_code mode body) else (\<lambda>k. k ())) k)"
    if "\<And>x. ordered {} n (k x)" for n mode and k :: "unit \<Rightarrow> ('a, jar_op list \<times> 'a) locker"
    using that by (auto intro: ordered_guarded ordered_more [where n = n])
  have "ordered {} (3 + (3 + (3 + (3 + Suc (Suc (Suc (Suc (Suc (Suc 0))))))))) (register_start_thread w e jar body)"
    unfolding register_start_thread_def
    by (intro ordered_session ordered_guarded code) (auto split: sum.split intro!: ordered_Ended ordered_guards)
  then show ?thesis by simp
qed

lemma ordered_register_finish:
  assumes "\<And>s. length (io_split e s) \<le> m"
  shows "ordered {} (25 + m) (register_finish_thread w c e jar cred)"
proof -
  have close: "ordered {} 9 (close_thread mode (new_session_thread e i name))" for mode i name
  proof (cases mode)
    case Bootstrap
    have "ordered {} (3 + (3 + 3)) (close_thread mode (new_session_thread e i name))"
      unfolding close_thread_def using Bootstrap by (simp only: if_True simp_thms) (intro ordered_guarded ordered_new_session)
    then show ?thesis by simp
  qed (simp add: close_thread_def ordered_more [OF ordered_new_session])
  have undo: "ordered {} 9 (guarded StoreMutex undo_push (\<lambda>_. Ended x))" for x
    by (rule ordered_more [OF ordered_guarded [where n = 0]]) (simp_all add: ordered_Ended)
  define p where "p = 6 + m + 9"
  have "ordered {} p (persist_thread c e (\<lambda>ok. if ok then close_thread mode (new_session_thread e 2 REG_COOKIE)
      else guarded StoreMutex undo_push (\<lambda>_. Ended (Err (INTERNAL_SERVER_ERROR, SaveFailed)))))" for mode
    unfolding p_def using assms by (rule ordered_persist) (simp add: close undo)
  then have "ordered {} (Suc (Suc (Suc (Suc (Suc (Suc (Suc (Suc (Suc (Suc (p))))))))))) (register_finish_thread w c e jar cred)"
    unfolding register_finish_thread_def
    by (auto split: option.split sum.split intro!: ordered_Ended ordered_guards ordered_enrol)
  then show ?thesis by (simp add: p_def)
qed

lemma ordered_login_start: "ordered {} 6 (login_start_thread w e)"
proof -
  have "ordered {} (Suc (Suc (Suc (Suc (Suc (Suc (0))))))) (login_start_thread w e)"
    unfolding login_start_thread_def
    by (rule ordered_guards) (auto split: sum.split prod.split intro!: ordered_Ended ordered_guards)
  then show ?thesis by (simp add: numeral_eq_Suc)
qed

lemma ordered_login_finish:
  assumes "\<And>s. length (io_split e s) \<le> m"
  shows "ordered {} (15 + m) (login_finish_thread w c e jar cred)"
proof -
  define p where "p = 6 + m + 3"
  have "ordered {} p (persist_thread c e (\<lambda>_. new_session_thread e i AUTH_COOKIE))" for i
    unfolding p_def by (rule ordered_persist [OF assms ordered_new_session])
  then have "ordered {} (Suc (Suc (Suc (Suc (Suc (Suc p)))))) (login_finish_thread w c e jar cred)"
    unfolding login_finish_thread_def
    by (auto split: option.split sum.split intro!: ordered_Ended ordered_guards)
  then show ?thesis by (simp add: p_def)
qed

lemma ordered_short:
  "ordered {} 3 (logout_thread jar)" "ordered {} 6 (status_thread now jar)" "ordered {} 9 (sweep_thread now)"
proof -
  show "ordered {} 3 (logout_thread jar)"
    unfolding logout_thread_def using ordered_guarded [where n = 0, OF ordered_Ended]
    by (auto split: option.split intro: ordered_Ended)
  have "ordered {} (3 + (3 + 0)) (status_thread now jar)"
    unfolding status_thread_def by (intro ordered_guarded ordered_session ordered_Ended)
  then show "ordered {} 6 (status_thread now jar)" by simp
  have "ordered {} (3 + (3 + (3 + 0))) (sweep_thread now)"
    unfolding sweep_thread_def by (intro ordered_guarded ordered_Ended)
  then show "ordered {} 9 (sweep_thread now)" by simp
qed

lemma ordered_thread_of:
  assumes "chunks_within m act"
  shows "ordered {} (25 + m) (thread_of w c act)"
proof -
  have session: "ordered {} (3 + 0) (session_thread now jar (\<lambda>ok. Ended (Ok ok)) :: ('a, bool) locker)" for now jar
    by (intro ordered_session ordered_Ended)
  have more: "ordered {} (25 + m) t" if "ordered {} n t" "n \<le> 25" for n and t :: "(mutex_id, 'a auth_state, bool) thread"
    using that by (auto intro: ordered_more)
  show ?thesis
  proof (cases act)
    case (RegFinish e jar cred)
    with assms show ?thesis by (simp add: thread_of_def ordered_map ordered_register_finish)
  next
    case (LoginFinish e jar cred)
    with assms have "ordered {} (15 + m) (thread_of w c act)"
      by (simp add: thread_of_def ordered_map ordered_login_finish)
    then show ?thesis by (rule ordered_more) simp
  qed (auto simp: thread_of_def intro: more [OF ordered_map [OF ordered_register_start]]
      more [OF ordered_map [OF ordered_login_start]] more [OF ordered_map [OF ordered_short(1)]]
      more [OF ordered_map [OF ordered_short(3)]] more [OF ordered_map [OF session]])
qed

section \<open>Every request returns\<close>

text \<open>The requests of the service and its sweeper; \<open>index\<close> and the gate of the API only check the session.\<close>

definition auth_thread :: "'w webauthn \<Rightarrow> 'w codec \<Rightarrow> nat \<Rightarrow> (mutex_id, 'w auth_state, bool) thread \<Rightarrow> bool" where
  "auth_thread w c m t \<longleftrightarrow>
     (\<exists>act. chunks_within m act \<and> t = thread_of w c act)
     \<or> (\<exists>now jar. t = map_thread id is_ok (status_thread now jar))"

interpretation auth_threads: orderly_requests "\<lambda>_. True" "auth_thread w c m" permuted "25 + m"
  for w :: "'w webauthn" and c :: "'w codec" and m :: nat
  by unfold_locales
    (auto simp: auth_thread_def intro: ordered_thread_of ordered_more [OF ordered_map [OF ordered_short(2)]])

text \<open>
  C24. No request waits for ever. Threads lock, wait for and unlock the mutexes of the code, the
  store held while the session is looked up; a mutex is not reentrant. Whatever requests run at the
  same time, from whatever state, as long as one has not returned some thread can make a step, and
  without new requests the threads make at most \<open>25 + m\<close> steps each, where \<open>m\<close> bounds the chunks of
  one save; so all of them return. A thread that meets no other does what its handler does.
\<close>

theorem every_request_returns:
  assumes "reachable (machine_init (\<lambda>_. True)) (machine_step (auth_thread w c m) permuted) p"
  shows "((\<exists>x\<in>set (threads p). \<not> has_ended (snd x)) \<longrightarrow> (\<exists>q. work p q))
    \<and> (\<forall>k q. working permuted k p q \<longrightarrow> k \<le> (25 + m) * length (threads p))
    \<and> (\<forall>act a. clean a \<longrightarrow> run_thread (thread_of w c act) [] a = Some (exec w c act a))"
  using auth_threads.always_returns [OF assms] thread_alone_is_handler by blast

theorem every_request_returns_witness:
  "let p = \<lparr>memory = snd ex_start,
            threads = [({}, thread_of ex_w ex_c (RegFinish (ex_env 20 2) (ex_jar REG_COOKIE 1) 1)),
                       ({}, thread_of ex_w ex_c (Sweep 5))]\<rparr>
   in (\<exists>q. work p q) \<and> (\<forall>k q. working permuted k p q \<longrightarrow> k \<le> 52)"
proof -
  let ?t = "thread_of ex_w ex_c (RegFinish (ex_env 20 2) (ex_jar REG_COOKIE 1) 1)" and ?u = "thread_of ex_w ex_c (Sweep 5)"
  let ?p = "\<lambda>ts. \<lparr>memory = snd ex_start, threads = ts\<rparr>"
  have ok: "auth_thread ex_w ex_c 1 ?t" "auth_thread ex_w ex_c 1 ?u"
    unfolding auth_thread_def by (rule disjI1, rule exI, rule conjI [OF _ refl], simp add: ex_env_def)+
  have "reachable (machine_init (\<lambda>_. True)) (machine_step (auth_thread ex_w ex_c 1) permuted) (?p [])"
    by (rule reachable_init) (simp add: machine_init_def)
  moreover have "machine_step (auth_thread ex_w ex_c 1) permuted (?p []) (?p [({}, ?t)])"
    "machine_step (auth_thread ex_w ex_c 1) permuted (?p [({}, ?t)]) (?p [({}, ?t), ({}, ?u)])"
    using machine_spawn [of "auth_thread ex_w ex_c 1" ?t permuted "?p []"]
      machine_spawn [of "auth_thread ex_w ex_c 1" ?u permuted "?p [({}, ?t)]"] ok by simp_all
  ultimately have "reachable (machine_init (\<lambda>_. True)) (machine_step (auth_thread ex_w ex_c 1) permuted) (?p [({}, ?t), ({}, ?u)])"
    by (meson reachable_step)
  moreover have "\<not> has_ended ?u" by (simp add: thread_of_def sweep_thread_def guarded_def)
  ultimately show ?thesis
    using every_request_returns [of ex_w ex_c 1 "?p [({}, ?t), ({}, ?u)]"] by (simp add: Let_def)
qed

end
