(* ===== verification/Race_Saves.thy ===== *)
theory Race_Saves
  imports Auth_Race
begin

text \<open>
  Runs of the interleaved service in which two requests save the credentials at the same time:
  \<open>persist\<close> writes the file after it has released the lock of the store, and always through the same
  temporary file. Each run starts from a service that is claimed and in use.
\<close>

section \<open>Slices of the handlers\<close>

text \<open>A sign-in up to and including the serialisation of the store.\<close>

lemma slice_login:
  assumes "jar AUTH_COOKIE = Some aid" and "take_auth (clk e 0) aid a = (Ok st, a1)"
    and "finish_auth w cred st = Inr v" and "bump_counters w v a1 = (Ok u, a2)"
    and "\<not> poisoned (a_store a2)" and "to_json c (inner (a_store a2)) = Some json"
  shows "slice 3 (task_of w c (LoginFinish e jar cred)) a =
    (map_task is_ok (calls_task (io_ok e) 0 (replace_ops (tmp_path (a_path a2)) (a_path a2) (io_split e json)) None
       (\<lambda>_. finish_session e 1 AUTH_COOKIE)), a2)"
  using assms
  by (simp add: task_of_def slice_map login_finish_task_def eval_nat_numeral slice_sect persist_task_def)

text \<open>A registration up to and including the push.\<close>

lemma slice_enrol:
  assumes "jar REG_COOKIE = Some rid" and "take_reg (clk e 0) rid a = (Ok (st, m), a1)"
    and "finish_reg w cred st = Inr pk" and "enrol w (clk e 1) jar m pk a1 = (Ok u, a2)"
  shows "slice 2 (task_of w c (RegFinish e jar cred)) a = (map_task is_ok (save_task c e m), a2)"
  using assms
  by (simp add: task_of_def slice_map register_finish_task_def eval_nat_numeral slice_sect)

text \<open>Some of the calls of a save.\<close>

lemma slice_calls:
  "n \<le> length ops \<Longrightarrow> sys_calls (\<lambda>_. True) i (take n ops) (h, a_disk a) = (True, h', d) \<Longrightarrow>
   slice n (calls_task (\<lambda>_. True) i ops h k) a = (calls_task (\<lambda>_. True) (i + n) (drop n ops) h' k, a\<lparr>a_disk := d\<rparr>)"
proof (induction n arbitrary: i ops h a)
  case 0
  then show ?case by simp
next
  case (Suc n)
  obtain op rest where ops: "ops = op # rest" using Suc.prems(1) by (cases ops) auto
  with Suc.prems(2) obtain h1 d1 where call: "sys_call op (h, a_disk a) = Some (h1, d1)"
    by (cases "sys_call op (h, a_disk a)") auto
  with Suc.prems ops Suc.IH [of rest "Suc i" h1 "a\<lparr>a_disk := d1\<rparr>"] show ?case by simp
qed

section \<open>The claimed service of the examples\<close>

text \<open>
  One credential, a pending sign-in and two pending registrations of the signed-in owner; every run
  of whole handlers is also a run of the interleaved service.
\<close>

definition ex_starts :: "nat action list" where
  "ex_starts =
     [LoginStart (ex_env 30 3), RegStart (ex_env 40 6) (ex_jar SESSION_COOKIE 2) None,
      RegStart (ex_env 40 7) (ex_jar SESSION_COOKIE 2) None]"

definition ex_busy :: "nat action list" where
  "ex_busy = ex_claim @ ex_starts"

definition ex_base :: "nat auth_state" where
  "ex_base = ex_a ex_busy"

definition ex_finish_jar :: "nat \<Rightarrow> jar" where
  "ex_finish_jar k = [REG_COOKIE \<mapsto> hex32 (ex_token k), SESSION_COOKIE \<mapsto> hex32 (ex_token 2)]"

definition any_action :: "'w action \<Rightarrow> bool" where
  "any_action act \<longleftrightarrow> act \<in> UNIV"

lemma any_action_UNIV: "any_action = (\<lambda>act. act \<in> UNIV)"
  by (simp add: fun_eq_iff any_action_def)

lemma race_clean: "race_reachable w c code ids any_action p \<Longrightarrow> clean (shared p)"
  using racing.shared_inv [of w c code ids UNIV p] by (simp only: any_action_UNIV race_ok_def)

lemma any_request: "action_ok act \<Longrightarrow> auth_request w c any_action (task_of w c act)"
  by (auto simp: auth_request_def any_action_def)

lemma run_races:
  fixes w :: "'w webauthn"
  assumes "race_reachable w c code ids any_action \<lparr>shared = a, tasks = ts\<rparr>"
    and "list_all action_ok acts"
  shows "\<exists>ts. race_reachable w c code ids any_action \<lparr>shared = snd (run w c acts (h, a)), tasks = ts\<rparr>"
  using assms
proof (induction acts arbitrary: h a ts)
  case Nil
  then show ?case by auto
next
  case (Cons act acts)
  let ?t = "task_of w c act"
  obtain ok a' where ex: "exec w c act a = (ok, a')" by (metis surj_pair)
  have "clean a" using race_clean [OF Cons.prems(1)] by simp
  then have "run_alone ?t a = (ok, a')" using ex by (simp add: run_alone_task)
  moreover have "race_reachable w c code ids any_action \<lparr>shared = a, tasks = ts @ [?t]\<rparr>"
    using Cons.prems(2) by (intro reach_spawn [OF Cons.prems(1)] any_request) simp
  ultimately have "race_reachable w c code ids any_action
      \<lparr>shared = a', tasks = (ts @ [?t])[length ts := Returned ok]\<rparr>"
    by (intro reach_alone [of _ _ _ a "ts @ [?t]" "length ts" ?t]) simp_all
  from Cons.IH [OF this] Cons.prems(2) ex show ?case by simp
qed

lemma ex_base_races:
  "\<exists>ts. race_reachable ex_w ex_c ex_code [] any_action \<lparr>shared = ex_base, tasks = ts\<rparr>"
proof -
  have "list_all action_ok ex_busy" by (simp add: ex_busy_def ex_starts_def)
  with ex_start_pool show ?thesis
    unfolding ex_base_def ex_a_def using run_races [of ex_w ex_c ex_code "[]" "snd ex_start" "[]" ex_busy "fst ex_start"]
    by fastforce
qed

text \<open>
  Two more requests: \<open>n\<close> sections of the first, a part or all of the second, the rest of the first.
\<close>

lemma ex_first:
  assumes "action_ok act1" and "action_ok act2" and "slice n (task_of ex_w ex_c act1) ex_base = (u1, a1)"
  shows "\<exists>ts. race_reachable ex_w ex_c ex_code [] any_action
    \<lparr>shared = a1, tasks = ts @ [u1, task_of ex_w ex_c act2]\<rparr>"
proof -
  let ?t1 = "task_of ex_w ex_c act1" and ?t2 = "task_of ex_w ex_c act2"
  obtain ts where "race_reachable ex_w ex_c ex_code [] any_action \<lparr>shared = ex_base, tasks = ts\<rparr>"
    using ex_base_races by blast
  then have "race_reachable ex_w ex_c ex_code [] any_action \<lparr>shared = ex_base, tasks = (ts @ [?t1]) @ [?t2]\<rparr>"
    using assms(1,2) by (intro reach_spawn any_request)
  from reach_slice [OF this, of "length ts" n u1 a1] assms(3) show ?thesis
    by (auto simp: nth_append list_update_append)
qed

lemma ex_crossed:
  assumes "action_ok act1" and "action_ok act2"
    and "slice n (task_of ex_w ex_c act1) ex_base = (u1, a1)" and "slice m (task_of ex_w ex_c act2) a1 = (u2, a2)"
    and "run_alone u1 a2 = (x1, a3)"
  shows "\<exists>ts. race_reachable ex_w ex_c ex_code [] any_action \<lparr>shared = a3, tasks = ts @ [Returned x1, u2]\<rparr>"
proof -
  obtain ts where "race_reachable ex_w ex_c ex_code [] any_action
      \<lparr>shared = a1, tasks = ts @ [u1, task_of ex_w ex_c act2]\<rparr>"
    using ex_first [OF assms(1-3)] by blast
  from reach_slice [OF this, of "Suc (length ts)" m u2 a2] assms(4)
  have "race_reachable ex_w ex_c ex_code [] any_action \<lparr>shared = a2, tasks = ts @ [u1, u2]\<rparr>"
    by (simp add: nth_append list_update_append)
  from reach_alone [OF this, of "length ts" u1 x1 a3] assms(5)
  have "race_reachable ex_w ex_c ex_code [] any_action \<lparr>shared = a3, tasks = ts @ [Returned x1, u2]\<rparr>"
    by simp
  then show ?thesis by blast
qed

lemma ex_nested:
  assumes "action_ok act1" and "action_ok act2"
    and "slice n (task_of ex_w ex_c act1) ex_base = (u1, a1)" and "exec ex_w ex_c act2 a1 = (x2, a2)"
    and "run_alone u1 a2 = (x1, a3)"
  shows "\<exists>ts. race_reachable ex_w ex_c ex_code [] any_action \<lparr>shared = a3, tasks = ts @ [Returned x1, Returned x2]\<rparr>"
proof -
  obtain ts where r: "race_reachable ex_w ex_c ex_code [] any_action
      \<lparr>shared = a1, tasks = ts @ [u1, task_of ex_w ex_c act2]\<rparr>"
    using ex_first [OF assms(1-3)] by blast
  have "run_alone (task_of ex_w ex_c act2) a1 = (x2, a2)"
    using race_clean [OF r] assms(4) by (simp add: run_alone_task)
  with reach_alone [OF r, of "Suc (length ts)" _ x2 a2]
  have "race_reachable ex_w ex_c ex_code [] any_action \<lparr>shared = a2, tasks = ts @ [u1, Returned x2]\<rparr>"
    by (simp add: nth_append list_update_append)
  from reach_alone [OF this, of "length ts" u1 x1 a3] assms(5)
  have "race_reachable ex_w ex_c ex_code [] any_action \<lparr>shared = a3, tasks = ts @ [Returned x1, Returned x2]\<rparr>"
    by simp
  then show ?thesis by blast
qed

section \<open>Requests that succeed\<close>

text \<open>The whole of a save without faults.\<close>

lemma saved_file:
  assumes "wf_fs d" and "tmp \<noteq> path"
  obtains h d' where "sys_calls (\<lambda>_. True) 0 (replace_ops tmp path chunks) (None, d) = (True, h, d')"
    and "wf_fs d'" and "file_at d' path = Some (concat chunks)"
proof -
  obtain ok h d' where c: "sys_calls (\<lambda>_. True) 0 (replace_ops tmp path chunks) (None, d) = (ok, h, d')"
    by (metis prod_cases3)
  then have r: "replace_file (\<lambda>_. True) tmp path chunks d = (ok, d')" by (simp add: replace_file_def)
  have ok using replace_file_no_fault [of tmp path chunks d] r by simp
  with replace_file_result [OF assms r] c show ?thesis by (intro that) auto
qed

text \<open>A registration by a signed-in owner, in any state with clean mutexes and a sound disk.\<close>

lemma device_finish:
  assumes a: "clean a" "wf_fs (a_disk a)" "tmp_path (a_path a) \<noteq> a_path a"
    and e: "env_ok e" "io_ok e = (\<lambda>_. True)"
    and reg: "jar REG_COOKIE = Some rid" "hget (inner (a_reg a)) rid = Some (st, AddDevice, expiry)" "clk e 0 < expiry"
      "finish_reg w cred st = Inr pk"
    and new: "live_session (clk e 1) jar a" "cred_id w pk \<notin> set (cred_ids w a)"
    and json: "to_json c ((inner (a_store a))\<lparr>passkeys := creds a @ [pk]\<rparr>) = Some j"
  obtains d sessions where "exec w c (RegFinish e jar cred) a =
      (True, a\<lparr>a_reg := put (hremove rid (inner (a_reg a))) (a_reg a),
         a_store := put ((inner (a_store a))\<lparr>passkeys := creds a @ [pk]\<rparr>) (a_store a), a_disk := d,
         a_sessions := put sessions (a_sessions a)\<rparr>)"
    and "wf_fs d" and "file_at d (a_path a) = Some j"
proof -
  let ?a1 = "a\<lparr>a_reg := put (hremove rid (inner (a_reg a))) (a_reg a)\<rparr>"
  let ?a2 = "?a1\<lparr>a_store := put ((inner (a_store a))\<lparr>passkeys := creds a @ [pk]\<rparr>) (a_store a)\<rparr>"
  obtain h d where save: "sys_calls (\<lambda>_. True) 0 (replace_ops (tmp_path (a_path a)) (a_path a) (io_split e j))
      (None, a_disk a) = (True, h, d)" "wf_fs d" "file_at d (a_path a) = Some (concat (io_split e j))"
    using saved_file [OF a(2,3)] by blast
  have "take_reg (clk e 0) rid a = (Ok (st, AddDevice), ?a1)"
    using a(1) reg by (simp add: take_reg_def clean_def Let_def)
  moreover have "live_session (clk e 1) jar ?a1" using new(1) by (simp add: live_session_def)
  then have "(session_valid (clk e 1) jar :: ('a, bool) handler) ?a1 = (Ok True, ?a1)"
    using a(1) by (intro session_valid_live) (simp_all add: clean_def)
  then have "enrol w (clk e 1) jar AddDevice pk ?a1 = (Ok (), ?a2)"
    using a(1) new(2) by (simp add: enrol_def clean_def creds_def cred_ids_def bind_def)
  moreover have "persist c e ?a2 = (Ok (), ?a2\<lparr>a_disk := d\<rparr>)"
    using a(1) json e(2) save(1) by (simp add: persist_def clean_def replace_file_def)
  then have "persist_or_undo c e ?a2 = (Ok (), ?a2\<lparr>a_disk := d\<rparr>)" by (simp add: persist_or_undo_def)
  ultimately show ?thesis
    using reg(1,4) a(1) save(2,3) e(1)
    by (intro that [of "session_insert (clk e 2) (hex32 (rand32 e)) (clk e 3 + SESSION_TTL) (inner (a_sessions a))" d])
      (simp_all add: register_finish_def bind_def close_bootstrap_def new_session_def clean_def Let_def ret_def
        is_ok_def env_ok_def)
qed

text \<open>The end of a request that has saved the store.\<close>

lemma finish_session_alone:
  assumes "clean a"
  obtains sessions where
    "run_alone (map_task is_ok (finish_session e i name)) a = (True, a\<lparr>a_sessions := put sessions (a_sessions a)\<rparr>)"
  using assms
  by (intro that) (simp add: run_alone_map run_alone_finish new_session_def Let_def bind_def ret_def clean_def is_ok_def)

section \<open>A stale save\<close>

text \<open>The state of a sign-in that has updated the counters.\<close>

definition bumped :: "'w webauthn \<Rightarrow> 'w \<Rightarrow> string \<Rightarrow> 'w auth_state \<Rightarrow> 'w auth_state" where
  "bumped w v aid a =
     a\<lparr>a_auth := put (hremove aid (inner (a_auth a))) (a_auth a),
       a_store := put ((inner (a_store a))\<lparr>passkeys := map (update_credential w v) (creds a)\<rparr>) (a_store a)\<rparr>"

lemma slice_bumped:
  assumes "clean a" and "jar AUTH_COOKIE = Some aid" and "hget (inner (a_auth a)) aid = Some (st, expiry)"
    and "clk e 0 < expiry" and "finish_auth w cred st = Inr v" and "to_json c (inner (a_store (bumped w v aid a))) = Some j"
    and "io_ok e = (\<lambda>_. True)"
  shows "slice 3 (task_of w c (LoginFinish e jar cred)) a =
    (map_task is_ok (calls_task (\<lambda>_. True) 0 (replace_ops (tmp_path (a_path a)) (a_path a) (io_split e j)) None
       (\<lambda>_. finish_session e 1 AUTH_COOKIE)), bumped w v aid a)"
proof -
  let ?a1 = "a\<lparr>a_auth := put (hremove aid (inner (a_auth a))) (a_auth a)\<rparr>"
  have "take_auth (clk e 0) aid a = (Ok st, ?a1)"
    using assms(1,3,4) by (simp add: take_auth_def clean_def Let_def)
  moreover have "bump_counters w v ?a1 = (Ok (), bumped w v aid a)"
    using assms(1) by (simp add: bump_counters_def bumped_def clean_def creds_def)
  moreover have "\<not> poisoned (a_store (bumped w v aid a))" "a_path (bumped w v aid a) = a_path a"
    using assms(1) by (simp_all add: bumped_def clean_def)
  ultimately show ?thesis
    using slice_login [of jar aid e a st ?a1 w cred v "()" "bumped w v aid a" c j] assms(2,5-7) by simp
qed

lemma bumped_simps:
  assumes "wa_ok w"
  shows "cred_ids w (bumped w v aid a) = cred_ids w a"
    and "a_reg (bumped w v aid a) = a_reg a" "a_sessions (bumped w v aid a) = a_sessions a"
    and "a_path (bumped w v aid a) = a_path a" "a_disk (bumped w v aid a) = a_disk a"
    and "clean (bumped w v aid a) = clean a"
  using assms by (auto simp: bumped_def cred_ids_def creds_def wa_ok_def clean_def)

text \<open>
  A sign-in serialises the store, a registration runs from its start to its end, and the sign-in
  writes what it had serialised.
\<close>

lemma stale_save:
  assumes a: "clean a" "wf_fs (a_disk a)" "tmp_path (a_path a) \<noteq> a_path a" and w: "wa_ok w" "codec_ok c"
    and e1: "env_ok e1" "io_ok e1 = (\<lambda>_. True)" and e2: "env_ok e2" "io_ok e2 = (\<lambda>_. True)"
    and login: "jar1 AUTH_COOKIE = Some aid" "hget (inner (a_auth a)) aid = Some (st1, x1)" "clk e1 0 < x1"
      "finish_auth w cred1 st1 = Inr v" "to_json c (inner (a_store (bumped w v aid a))) \<noteq> None"
    and reg: "jar2 REG_COOKIE = Some rid" "hget (inner (a_reg a)) rid = Some (st2, AddDevice, x2)" "clk e2 0 < x2"
      "finish_reg w cred2 st2 = Inr pk" "live_session (clk e2 1) jar2 a" "cred_id w pk \<notin> set (cred_ids w a)"
      "to_json c ((inner (a_store a))\<lparr>passkeys := map (update_credential w v) (creds a) @ [pk]\<rparr>) \<noteq> None"
  obtains u a1 a2 a3 where "slice 3 (task_of w c (LoginFinish e1 jar1 cred1)) a = (u, a1)"
    and "exec w c (RegFinish e2 jar2 cred2) a1 = (True, a2)" and "run_alone u a2 = (True, a3)"
    and "cred_ids w a3 = cred_ids w a @ [cred_id w pk]" and "disk_has w c (a_disk a3) (a_path a3) (cred_ids w a)"
proof -
  let ?b = "bumped w v aid a"
  note b = bumped_simps [OF w(1), of v aid a]
  obtain j where j: "to_json c (inner (a_store ?b)) = Some j" using login(5) by blast
  have store_b: "inner (a_store ?b) = (inner (a_store a))\<lparr>passkeys := map (update_credential w v) (creds a)\<rparr>"
    "creds ?b = map (update_credential w v) (creds a)"
    by (simp_all add: bumped_def creds_def)
  obtain j2 where j2: "to_json c ((inner (a_store ?b))\<lparr>passkeys := creds ?b @ [pk]\<rparr>) = Some j2"
    using reg(7) unfolding store_b by auto
  have live: "live_session (clk e2 1) jar2 ?b" using reg(5) by (simp add: live_session_def b)
  obtain d sessions where fin: "exec w c (RegFinish e2 jar2 cred2) ?b =
      (True, ?b\<lparr>a_reg := put (hremove rid (inner (a_reg ?b))) (a_reg ?b),
         a_store := put ((inner (a_store ?b))\<lparr>passkeys := creds ?b @ [pk]\<rparr>) (a_store ?b), a_disk := d,
         a_sessions := put sessions (a_sessions ?b)\<rparr>)" and d: "wf_fs d"
    by (rule device_finish [of ?b e2 jar2 rid st2 x2 w cred2 pk c j2])
      (use a b e2 reg live j2 in simp_all)
  define a2 where "a2 = ?b\<lparr>a_reg := put (hremove rid (inner (a_reg ?b))) (a_reg ?b),
         a_store := put ((inner (a_store ?b))\<lparr>passkeys := creds ?b @ [pk]\<rparr>) (a_store ?b), a_disk := d,
         a_sessions := put sessions (a_sessions ?b)\<rparr>"
  have clean2: "clean a2" using a(1) by (simp add: a2_def b clean_def bumped_def)
  obtain h d3 where save: "sys_calls (\<lambda>_. True) 0 (replace_ops (tmp_path (a_path a)) (a_path a) (io_split e1 j))
      (None, d) = (True, h, d3)" "file_at d3 (a_path a) = Some (concat (io_split e1 j))"
    using saved_file [OF d a(3)] by blast
  obtain s3 where s3: "run_alone (map_task is_ok (finish_session e1 1 AUTH_COOKIE)) (a2\<lparr>a_disk := d3\<rparr>) =
      (True, a2\<lparr>a_disk := d3\<rparr>\<lparr>a_sessions := put s3 (a_sessions (a2\<lparr>a_disk := d3\<rparr>))\<rparr>)"
    using finish_session_alone [of "a2\<lparr>a_disk := d3\<rparr>" e1 1 AUTH_COOKIE] clean2 by (auto simp: clean_def)
  show ?thesis
  proof (rule that)
    show "slice 3 (task_of w c (LoginFinish e1 jar1 cred1)) a =
        (map_task is_ok (calls_task (\<lambda>_. True) 0 (replace_ops (tmp_path (a_path a)) (a_path a) (io_split e1 j)) None
          (\<lambda>_. finish_session e1 1 AUTH_COOKIE)), ?b)"
      by (rule slice_bumped) (use a(1) login j e1 in simp_all)
    show "exec w c (RegFinish e2 jar2 cred2) ?b = (True, a2)" using fin by (simp add: a2_def)
    show "run_alone (map_task is_ok (calls_task (\<lambda>_. True) 0 (replace_ops (tmp_path (a_path a)) (a_path a) (io_split e1 j)) None
          (\<lambda>_. finish_session e1 1 AUTH_COOKIE))) a2 = (True, a2\<lparr>a_disk := d3, a_sessions := put s3 (a_sessions a2)\<rparr>)"
      using s3 save(1) by (simp add: run_alone_map run_alone_calls a2_def)
    show "cred_ids w (a2\<lparr>a_disk := d3, a_sessions := put s3 (a_sessions a2)\<rparr>) = cred_ids w a @ [cred_id w pk]"
      using b(1) by (simp add: a2_def cred_ids_def creds_def)
    have "from_json c j = Some (inner (a_store ?b))" using w(2) j by (simp add: codec_ok_def)
    then show "disk_has w c (a_disk (a2\<lparr>a_disk := d3, a_sessions := put s3 (a_sessions a2)\<rparr>))
        (a_path (a2\<lparr>a_disk := d3, a_sessions := put s3 (a_sessions a2)\<rparr>)) (cred_ids w a)"
      using save(2) e1(1) b(1,4) by (simp add: a2_def disk_has_def env_ok_def cred_ids_def creds_def)
  qed
qed

section \<open>An undo that takes back the credential of another\<close>

text \<open>The state of a registration that has pushed its credential.\<close>

definition pushed :: "'w \<Rightarrow> string \<Rightarrow> 'w auth_state \<Rightarrow> 'w auth_state" where
  "pushed pk rid a =
     a\<lparr>a_reg := put (hremove rid (inner (a_reg a))) (a_reg a),
       a_store := put ((inner (a_store a))\<lparr>passkeys := creds a @ [pk]\<rparr>) (a_store a)\<rparr>"

lemma pushed_simps:
  "creds (pushed pk rid a) = creds a @ [pk]" "cred_ids w (pushed pk rid a) = cred_ids w a @ [cred_id w pk]"
  "inner (a_reg (pushed pk rid a)) = hremove rid (inner (a_reg a))"
  "a_sessions (pushed pk rid a) = a_sessions a" "a_path (pushed pk rid a) = a_path a"
  "a_disk (pushed pk rid a) = a_disk a" "clean (pushed pk rid a) = clean a"
  by (simp_all add: pushed_def creds_def cred_ids_def clean_def)

lemma slice_pushed:
  assumes "clean a" and "jar REG_COOKIE = Some rid" and "hget (inner (a_reg a)) rid = Some (st, AddDevice, expiry)"
    and "clk e 0 < expiry" and "finish_reg w cred st = Inr pk" and "live_session (clk e 1) jar a"
    and "cred_id w pk \<notin> set (cred_ids w a)"
  shows "slice 2 (task_of w c (RegFinish e jar cred)) a = (map_task is_ok (save_task c e AddDevice), pushed pk rid a)"
proof -
  let ?a1 = "a\<lparr>a_reg := put (hremove rid (inner (a_reg a))) (a_reg a)\<rparr>"
  have "take_reg (clk e 0) rid a = (Ok (st, AddDevice), ?a1)"
    using assms(1,3,4) by (simp add: take_reg_def clean_def Let_def)
  moreover have "live_session (clk e 1) jar ?a1" using assms(6) by (simp add: live_session_def)
  then have "(session_valid (clk e 1) jar :: ('a, bool) handler) ?a1 = (Ok True, ?a1)"
    using assms(1) by (intro session_valid_live) (simp_all add: clean_def)
  then have "enrol w (clk e 1) jar AddDevice pk ?a1 = (Ok (), pushed pk rid a)"
    using assms(1,7) by (simp add: enrol_def clean_def creds_def cred_ids_def bind_def pushed_def)
  ultimately show ?thesis
    using slice_enrol [of jar rid e a st AddDevice ?a1 w cred pk "()" "pushed pk rid a" c] assms(2,5) by simp
qed

text \<open>A save whose first call fails, and the undo after it.\<close>

lemma failed_save_alone:
  assumes "clean a" and "io_ok e 0 = False"
  shows "run_alone (map_task is_ok (save_task c e m)) a =
    (False, a\<lparr>a_store := put ((inner (a_store a))\<lparr>passkeys := butlast (creds a)\<rparr>) (a_store a)\<rparr>)"
proof -
  have "\<exists>x. persist c e a = (Err x, a)"
    using assms by (auto simp: persist_def clean_def replace_file_def replace_ops_def split: option.split)
  then show ?thesis
    using assms(1)
    by (auto simp: save_task_def run_alone_map run_alone_persist is_ok_def undo_push_def bind_def clean_def creds_def)
qed

text \<open>
  A registration pushes its credential, a second registration runs from its start to its end, and
  the save of the first fails.
\<close>

lemma wrong_undo:
  assumes a: "clean a" "wf_fs (a_disk a)" "tmp_path (a_path a) \<noteq> a_path a" and c: "codec_ok c"
    and e: "io_ok e1 0 = False" "env_ok e2" "io_ok e2 = (\<lambda>_. True)"
    and first: "jar1 REG_COOKIE = Some rid1" "hget (inner (a_reg a)) rid1 = Some (st1, AddDevice, x1)" "clk e1 0 < x1"
      "finish_reg w cred1 st1 = Inr pk1" "live_session (clk e1 1) jar1 a" "cred_id w pk1 \<notin> set (cred_ids w a)"
    and second: "jar2 REG_COOKIE = Some rid2" "rid2 \<noteq> rid1"
      "hget (inner (a_reg a)) rid2 = Some (st2, AddDevice, x2)" "clk e2 0 < x2"
      "finish_reg w cred2 st2 = Inr pk2" "live_session (clk e2 1) jar2 a"
      "cred_id w pk2 \<notin> insert (cred_id w pk1) (set (cred_ids w a))"
      "to_json c ((inner (a_store a))\<lparr>passkeys := creds a @ [pk1, pk2]\<rparr>) \<noteq> None"
  obtains u a1 a2 a3 where "slice 2 (task_of w c (RegFinish e1 jar1 cred1)) a = (u, a1)"
    and "exec w c (RegFinish e2 jar2 cred2) a1 = (True, a2)" and "run_alone u a2 = (False, a3)"
    and "cred_ids w a3 = cred_ids w a @ [cred_id w pk1]"
    and "disk_has w c (a_disk a3) (a_path a3) (cred_ids w a @ [cred_id w pk1, cred_id w pk2])"
proof -
  let ?b = "pushed pk1 rid1 a"
  have store_b: "inner (a_store ?b) = (inner (a_store a))\<lparr>passkeys := creds a @ [pk1]\<rparr>" by (simp add: pushed_def)
  obtain j where j: "to_json c ((inner (a_store ?b))\<lparr>passkeys := creds ?b @ [pk2]\<rparr>) = Some j"
    using second(8) by (auto simp: store_b pushed_simps)
  have get: "hget (inner (a_reg ?b)) rid2 = Some (st2, AddDevice, x2)"
    using second(2,3) by (simp add: pushed_simps hmap_simps)
  have live: "live_session (clk e2 1) jar2 ?b" using second(6) by (simp add: live_session_def pushed_simps)
  obtain d sessions where fin: "exec w c (RegFinish e2 jar2 cred2) ?b =
      (True, ?b\<lparr>a_reg := put (hremove rid2 (inner (a_reg ?b))) (a_reg ?b),
         a_store := put ((inner (a_store ?b))\<lparr>passkeys := creds ?b @ [pk2]\<rparr>) (a_store ?b), a_disk := d,
         a_sessions := put sessions (a_sessions ?b)\<rparr>)" and d: "file_at d (a_path ?b) = Some j"
    by (rule device_finish [of ?b e2 jar2 rid2 st2 x2 w cred2 pk2 c j])
      (use a e second get live j in \<open>simp_all add: pushed_simps\<close>)
  define a2 where "a2 = ?b\<lparr>a_reg := put (hremove rid2 (inner (a_reg ?b))) (a_reg ?b),
         a_store := put ((inner (a_store ?b))\<lparr>passkeys := creds ?b @ [pk2]\<rparr>) (a_store ?b), a_disk := d,
         a_sessions := put sessions (a_sessions ?b)\<rparr>"
  have clean2: "clean a2" using a(1) by (simp add: a2_def clean_def pushed_def)
  have creds2: "creds a2 = creds a @ [pk1, pk2]" by (simp add: a2_def creds_def pushed_def)
  show ?thesis
  proof (rule that)
    show "slice 2 (task_of w c (RegFinish e1 jar1 cred1)) a = (map_task is_ok (save_task c e1 AddDevice), ?b)"
      by (rule slice_pushed) (use a(1) first in simp_all)
    show "exec w c (RegFinish e2 jar2 cred2) ?b = (True, a2)" using fin by (simp add: a2_def)
    show "run_alone (map_task is_ok (save_task c e1 AddDevice)) a2 =
        (False, a2\<lparr>a_store := put ((inner (a_store a2))\<lparr>passkeys := butlast (creds a2)\<rparr>) (a_store a2)\<rparr>)"
      by (rule failed_save_alone [OF clean2 e(1)])
    show "cred_ids w (a2\<lparr>a_store := put ((inner (a_store a2))\<lparr>passkeys := butlast (creds a2)\<rparr>) (a_store a2)\<rparr>)
        = cred_ids w a @ [cred_id w pk1]"
      by (simp add: creds2 cred_ids_def) (simp add: creds_def butlast_append)
    have "from_json c j = Some ((inner (a_store ?b))\<lparr>passkeys := creds ?b @ [pk2]\<rparr>)"
      using c j by (simp add: codec_ok_def)
    then show "disk_has w c (a_disk (a2\<lparr>a_store := put ((inner (a_store a2))\<lparr>passkeys := butlast (creds a2)\<rparr>) (a_store a2)\<rparr>))
        (a_path (a2\<lparr>a_store := put ((inner (a_store a2))\<lparr>passkeys := butlast (creds a2)\<rparr>) (a_store a2)\<rparr>))
        (cred_ids w a @ [cred_id w pk1, cred_id w pk2])"
      using d by (simp add: a2_def disk_has_def pushed_simps cred_ids_def)
  qed
qed

section \<open>A temporary file that two saves share\<close>

text \<open>Everything but the rename.\<close>

lemma written:
  "writing d0 tmp path sofar h d \<Longrightarrow>
   \<exists>h' d'. sys_calls (\<lambda>_. True) i (map Write chunks @ [Fsync]) (Some h, d) = (True, Some h', d')
     \<and> writing d0 tmp path (sofar @ concat chunks) h' d'"
proof (induction chunks arbitrary: sofar h d i)
  case Nil
  then show ?case using writing_fsync by simp
next
  case (Cons c chunks)
  from Cons.IH [OF writing_write [OF Cons.prems, of c], of "Suc i"] show ?case by (simp add: case_prod_beta)
qed

lemma all_but_rename:
  assumes "wf_fs d" and "tmp \<noteq> path"
  obtains h d' where
    "sys_calls (\<lambda>_. True) 0 (take (length chunks + 2) (replace_ops tmp path chunks)) (None, d) = (True, Some h, d')"
    and "writing d tmp path (concat chunks) h d'"
proof -
  obtain h1 d1 where "open_private tmp d = (h1, d1)" by (metis surj_pair)
  moreover from this have "writing d tmp path [] h1 d1"
    using writing_open [OF assms] by simp
  from written [OF this, of 1 chunks] obtain h' d' where
    "sys_calls (\<lambda>_. True) 1 (map Write chunks @ [Fsync]) (Some h1, d1) = (True, Some h', d')"
    "writing d tmp path (concat chunks) h' d'" by auto
  ultimately show ?thesis by (intro that [of h' d']) (simp_all add: replace_ops_def)
qed

text \<open>Another save opens the same file, and the rename publishes what it has truncated.\<close>

lemma truncated:
  assumes "writing d0 tmp path s h d"
  obtains h2 d2 d3 where "open_private tmp d = (h2, d2)" and "rename tmp path d2 = Some d3"
    and "file_at d3 path = Some []"
proof -
  let ?d2 = "d\<lparr>content := (content d)(h_inode h := [])\<rparr>"
  have "entry d tmp = Some (h_inode h)" using assms by (simp add: writing_def)
  then have "open_private tmp d = (\<lparr>h_inode = h_inode h, h_offset = 0\<rparr>, ?d2)" by (simp add: open_private_def)
  moreover have "rename tmp path ?d2 = Some (?d2\<lparr>entry := (entry ?d2)(tmp := None, path := Some (h_inode h))\<rparr>)"
    using \<open>entry d tmp = Some (h_inode h)\<close> by (simp add: rename_def)
  ultimately show ?thesis by (rule that) (simp add: file_at_def)
qed

lemma slice_opened:
  assumes "clean a" and "to_json c (inner (a_store a)) = Some j" and "io_ok e = (\<lambda>_. True)"
    and "open_private (tmp_path (a_path a)) (a_disk a) = (h, d)"
  shows "\<exists>u. slice 2 (save_task c e m) a = (u, a\<lparr>a_disk := d\<rparr>)"
  using assms
  by (simp add: save_task_def persist_task_def clean_def eval_nat_numeral replace_ops_def)

text \<open>
  A sign-in has written and synchronised the temporary file; a registration opens it, which
  truncates it; the sign-in renames it over the credentials and reports success.
\<close>

lemma torn_save:
  assumes a: "clean a" "wf_fs (a_disk a)" "tmp_path (a_path a) \<noteq> a_path a" and w: "wa_ok w"
    and e: "io_ok e1 = (\<lambda>_. True)" "io_ok e2 = (\<lambda>_. True)"
    and login: "jar1 AUTH_COOKIE = Some aid" "hget (inner (a_auth a)) aid = Some (st1, x1)" "clk e1 0 < x1"
      "finish_auth w cred1 st1 = Inr v" "to_json c (inner (a_store (bumped w v aid a))) = Some j"
    and reg: "jar2 REG_COOKIE = Some rid" "hget (inner (a_reg a)) rid = Some (st2, AddDevice, x2)" "clk e2 0 < x2"
      "finish_reg w cred2 st2 = Inr pk" "live_session (clk e2 1) jar2 a" "cred_id w pk \<notin> set (cred_ids w a)"
      "to_json c ((inner (a_store a))\<lparr>passkeys := map (update_credential w v) (creds a) @ [pk]\<rparr>) \<noteq> None"
  obtains n u1 a1 u2 a2 a3 where "slice n (task_of w c (LoginFinish e1 jar1 cred1)) a = (u1, a1)"
    and "slice 4 (task_of w c (RegFinish e2 jar2 cred2)) a1 = (u2, a2)" and "run_alone u1 a2 = (True, a3)"
    and "file_at (a_disk a3) (a_path a3) = Some []"
proof -
  let ?b = "bumped w v aid a" and ?tmp = "tmp_path (a_path a)" and ?path = "a_path a"
  let ?ops = "replace_ops ?tmp ?path (io_split e1 j)" 
  let ?k = "\<lambda>_::bool. finish_session e1 1 AUTH_COOKIE :: ('a, jar_op list \<times> status_code) auth_task"
  define n where "n = length (io_split e1 j) + 2"
  note b = bumped_simps [OF w, of v aid a]
  obtain h d1 where calls: "sys_calls (\<lambda>_. True) 0 (take n ?ops) (None, a_disk a) = (True, Some h, d1)"
    and wr: "writing (a_disk a) ?tmp ?path (concat (io_split e1 j)) h d1"
    using all_but_rename [OF a(2,3)] unfolding n_def by blast
  obtain h2 d2 d3 where o: "open_private ?tmp d1 = (h2, d2)" and r: "rename ?tmp ?path d2 = Some d3"
    and empty: "file_at d3 ?path = Some []"
    using truncated [OF wr] by blast
  have ops: "n \<le> length ?ops" "drop n ?ops = [Rename ?tmp ?path]" by (simp_all add: replace_ops_def n_def)
  let ?u1 = "map_task is_ok (calls_task (\<lambda>_. True) n [Rename ?tmp ?path] (Some h) ?k)"
  let ?a1 = "?b\<lparr>a_disk := d1\<rparr>"
  have first: "slice (3 + n) (task_of w c (LoginFinish e1 jar1 cred1)) a = (?u1, ?a1)"
  proof -
    have "slice 3 (task_of w c (LoginFinish e1 jar1 cred1)) a =
        (map_task is_ok (calls_task (\<lambda>_. True) 0 ?ops None ?k), ?b)"
      by (rule slice_bumped) (use a(1) login e in simp_all)
    moreover have "slice n (calls_task (\<lambda>_. True) 0 ?ops None ?k) ?b =
        (calls_task (\<lambda>_. True) n [Rename ?tmp ?path] (Some h) ?k, ?a1)"
      using slice_calls [OF ops(1), of 0 None ?b "Some h" d1 ?k] calls ops(2) by (simp add: b del: calls_task.simps)
    ultimately show ?thesis unfolding slice_add by (simp add: slice_map del: calls_task.simps)
  qed
  let ?p = "pushed pk rid ?a1"
  have "slice 2 (task_of w c (RegFinish e2 jar2 cred2)) ?a1 = (map_task is_ok (save_task c e2 AddDevice), ?p)"
  proof (rule slice_pushed)
    show "live_session (clk e2 1) jar2 ?a1" using reg(5) by (simp add: live_session_def b)
    show "cred_id w pk \<notin> set (cred_ids w ?a1)" using reg(6) b(1) by (simp add: cred_ids_def creds_def)
  qed (use a(1) reg b in \<open>simp_all add: clean_def bumped_def\<close>)
  moreover obtain u2 where "slice 2 (save_task c e2 AddDevice) ?p = (u2, ?p\<lparr>a_disk := d2\<rparr>)"
  proof -
    have "clean ?p" using a(1) by (simp add: clean_def pushed_def bumped_def)
    moreover obtain j2 where "to_json c (inner (a_store ?p)) = Some j2"
      using reg(7) by (auto simp: pushed_def bumped_def creds_def)
    moreover have "open_private (tmp_path (a_path ?p)) (a_disk ?p) = (h2, d2)"
      using o by (simp add: pushed_def bumped_def)
    ultimately show ?thesis using slice_opened [OF _ _ e(2)] that by blast
  qed
  ultimately have second: "slice 4 (task_of w c (RegFinish e2 jar2 cred2)) ?a1 =
      (map_task is_ok u2, ?p\<lparr>a_disk := d2\<rparr>)"
    using slice_add [of 2 2 "task_of w c (RegFinish e2 jar2 cred2)" ?a1] by (simp add: slice_map)
  have clean3: "clean (?p\<lparr>a_disk := d3\<rparr>)" using a(1) by (simp add: clean_def pushed_def bumped_def)
  obtain s3 where s3: "run_alone (map_task is_ok (finish_session e1 1 AUTH_COOKIE)) (?p\<lparr>a_disk := d3\<rparr>) =
      (True, ?p\<lparr>a_disk := d3\<rparr>\<lparr>a_sessions := put s3 (a_sessions (?p\<lparr>a_disk := d3\<rparr>))\<rparr>)"
    using finish_session_alone [OF clean3] by blast
  then have "run_alone ?u1 (?p\<lparr>a_disk := d2\<rparr>) = (True, ?p\<lparr>a_disk := d3, a_sessions := put s3 (a_sessions ?p)\<rparr>)"
    using r by (simp add: run_alone_map)
  with first second show ?thesis
    by (rule that) (simp add: empty pushed_simps b)
qed

section \<open>Three runs\<close>

lemma restart_ids:
  assumes "disk_has w c d p ids" and "ids \<noteq> []" and "stat_ok b" and "read_ok b"
  shows "\<exists>s. load_store c b d p = Inr s \<and> map (cred_id w) (passkeys s) = ids"
  using assms
  by (auto simp: disk_has_def load_store_def path_exists_def file_at_def split: option.splits)

text \<open>The claimed service; its starts do not look at the disk.\<close>

definition ex_claimed :: "fs \<Rightarrow> nat auth_state" where
  "ex_claimed d =
     \<lparr>a_path = ex_path, a_store = new_mutex \<lparr>user_id = Some 7, passkeys = [1]\<rparr>, a_reg = new_mutex [],
      a_auth = new_mutex [], a_sessions = new_mutex [(hex32 (ex_token 2), from_secs 20 + SESSION_TTL)],
      a_bootstrap = new_mutex None, a_disk = d\<rparr>"

lemma ex_user: "user_id (inner (a_store (ex_a ex_claim))) = Some 7"
  by code_simp

lemma clean_new: "\<not> poisoned m \<Longrightarrow> m = new_mutex (inner m)"
  by (cases m) (simp add: new_mutex_def)

lemma ex_claim_state: "ex_a ex_claim = ex_claimed (a_disk (ex_a ex_claim))"
proof -
  let ?a = "ex_a ex_claim"
  have "auth_reachable ex_w ex_c ex_code [] (ex_h ex_claim) ?a"
    by (rule ex_reachable) simp
  then have "clean ?a" using reachable_inv auth_inv_clean by blast
  then have "a_store ?a = new_mutex (inner (a_store ?a))" "a_reg ?a = new_mutex (inner (a_reg ?a))"
    "a_auth ?a = new_mutex (inner (a_auth ?a))" "a_sessions ?a = new_mutex (inner (a_sessions ?a))"
    "a_bootstrap ?a = new_mutex (inner (a_bootstrap ?a))"
    by (simp_all add: clean_def clean_new [symmetric])
  moreover have "inner (a_store ?a) = \<lparr>user_id = Some 7, passkeys = [1]\<rparr>"
    using ex_user ex_view_claim by (simp add: ex_view_def creds_def)
  moreover have "?a = \<lparr>a_path = a_path ?a, a_store = a_store ?a, a_reg = a_reg ?a, a_auth = a_auth ?a,
      a_sessions = a_sessions ?a, a_bootstrap = a_bootstrap ?a, a_disk = a_disk ?a\<rparr>"
    by simp
  ultimately show ?thesis
    using ex_view_claim ex_path_run unfolding ex_claimed_def ex_view_def by (metis Pair_inject)
qed

lemma ex_tokens_differ: "hex32 (ex_token 7) \<noteq> hex32 (ex_token 6)"
  by code_simp

lemma ex_starts_view:
  "(inner (a_store (snd (run ex_w ex_c ex_starts (h, ex_claimed d)))), ex_view (snd (run ex_w ex_c ex_starts (h, ex_claimed d)))) =
     (\<lparr>user_id = Some 7, passkeys = [1]\<rparr>,
      [1],
      [(hex32 (ex_token 7), 7, AddDevice, from_secs 40 + CEREMONY_TTL), (hex32 (ex_token 6), 6, AddDevice, from_secs 40 + CEREMONY_TTL)],
      [(hex32 (ex_token 3), 3, from_secs 30 + CEREMONY_TTL)],
      [(hex32 (ex_token 2), from_secs 20 + SESSION_TTL)], None)"
  using ex_tokens_differ
  by (auto simp: ex_starts_def ex_claimed_def login_start_eq register_start_eq clean_def Let_def insert_capped_def
      hretain_def hinsert_def hremove_def evict_while_full.simps MAX_CEREMONIES_def drop_expired_def creds_def ex_env_def
      ex_w_def ex_jar_def live_session_def hget_def start_user_def ex_view_def from_secs_def SESSION_TTL_def
      CEREMONY_TTL_def reg_exp_def)

lemma run_append: "run w c (xs @ ys) s = run w c ys (run w c xs s)"
  by (induction w c xs s rule: run.induct) (auto split: prod.split)

lemma ex_base_view:
  "(inner (a_store ex_base), ex_view ex_base) =
     (\<lparr>user_id = Some 7, passkeys = [1]\<rparr>,
      [1],
      [(hex32 (ex_token 7), 7, AddDevice, from_secs 40 + CEREMONY_TTL), (hex32 (ex_token 6), 6, AddDevice, from_secs 40 + CEREMONY_TTL)],
      [(hex32 (ex_token 3), 3, from_secs 30 + CEREMONY_TTL)],
      [(hex32 (ex_token 2), from_secs 20 + SESSION_TTL)], None)"
proof -
  have "run ex_w ex_c ex_claim ex_start = (ex_h ex_claim, ex_claimed (a_disk (ex_a ex_claim)))"
    using ex_claim_state by (simp add: ex_h_def ex_a_def prod_eq_iff)
  then have e: "ex_base = snd (run ex_w ex_c ex_starts (ex_h ex_claim, ex_claimed (a_disk (ex_a ex_claim))))"
    by (simp add: ex_base_def ex_a_def ex_busy_def run_append)
  show ?thesis unfolding e by (rule ex_starts_view)
qed

definition ex_login :: "nat action" where
  "ex_login = LoginFinish (ex_env 50 8) (ex_jar AUTH_COOKIE 3) 3"

definition ex_register :: "nat \<Rightarrow> env \<Rightarrow> nat action" where
  "ex_register k e = RegFinish e (ex_finish_jar k) k"

definition ex_broken :: env where
  "ex_broken = (ex_env 50 8)\<lparr>io_ok := (\<lambda>_. False)\<rparr>"

lemma ex_base_ok:
  "clean ex_base" "wf_fs (a_disk ex_base)" "tmp_path (a_path ex_base) \<noteq> a_path ex_base"
proof -
  have "auth_reachable ex_w ex_c ex_code [] (ex_h ex_busy) (ex_a ex_busy)"
    by (rule ex_reachable) (simp add: ex_busy_def ex_starts_def)
  then have "auth_inv ex_w ex_c ex_base" unfolding ex_base_def using reachable_inv by blast
  then show "clean ex_base" "wf_fs (a_disk ex_base)" "tmp_path (a_path ex_base) \<noteq> a_path ex_base"
    by (simp_all add: auth_inv_def disk_ok_def)
qed

lemma ex_inputs:
  "clk (ex_env t k) i = from_secs t" "io_ok (ex_env t k) = (\<lambda>_. True)"
  "ex_finish_jar k REG_COOKIE = Some (hex32 (ex_token k))" "ex_jar name k name = Some (hex32 (ex_token k))"
  "clk ex_broken i = from_secs 50" "io_ok ex_broken = (\<lambda>_. False)" "env_ok ex_broken"
  by (simp_all add: ex_env_def ex_finish_jar_def ex_jar_def ex_broken_def env_ok_def)

lemma ex_packages:
  "cred_id ex_w p = p" "update_credential ex_w r p = p" "finish_auth ex_w p p = Inr p" "finish_reg ex_w p p = Inr p"
  "list_all (\<lambda>p. p < 256) ps \<Longrightarrow> \<exists>j. to_json ex_c \<lparr>user_id = Some 7, passkeys = ps\<rparr> = Some j"
  by (simp_all add: ex_w_def ex_c_def)

lemma ex_bumped_store:
  "inner (a_store (bumped ex_w v aid ex_base)) = \<lparr>user_id = Some 7, passkeys = [1]\<rparr>"
  using ex_base_view by (simp add: bumped_def ex_view_def ex_packages)

text \<open>What the three runs need of that state.\<close>

lemma ex_base_facts:
  "cred_ids ex_w ex_base = [1]" "creds ex_base = [1]"
  "inner (a_store ex_base) = \<lparr>user_id = Some 7, passkeys = [1]\<rparr>"
  "hget (inner (a_auth ex_base)) (hex32 (ex_token 3)) = Some (3, from_secs 30 + CEREMONY_TTL)"
  "hget (inner (a_reg ex_base)) (hex32 (ex_token 6)) = Some (6, AddDevice, from_secs 40 + CEREMONY_TTL)"
  "hget (inner (a_reg ex_base)) (hex32 (ex_token 7)) = Some (7, AddDevice, from_secs 40 + CEREMONY_TTL)"
  "live_session (from_secs 50) (ex_finish_jar k) ex_base"
  using ex_base_view ex_tokens_differ cookie_names_distinct
  by (auto simp: ex_view_def cred_ids_def creds_def ex_w_def live_session_def ex_finish_jar_def hget_def
      from_secs_def SESSION_TTL_def)


text \<open>
  C16. A save may write what is no longer current: a sign-in serialises the store, a registration runs
  from its start to its end and is told that its credential is saved, then the sign-in writes the
  older contents over it, also with success. The credential is enrolled, and gone after a restart.
\<close>

theorem stale_save_loses_credential:
  "\<exists>u a1 a2 a3 ts s.
     slice 3 (task_of ex_w ex_c ex_login) ex_base = (u, a1)
     \<and> exec ex_w ex_c (ex_register 6 (ex_env 50 9)) a1 = (True, a2)
     \<and> run_alone u a2 = (True, a3)
     \<and> race_reachable ex_w ex_c ex_code [] any_action \<lparr>shared = a3, tasks = ts @ [Returned True, Returned True]\<rparr>
     \<and> cred_ids ex_w a3 = [1, 6]
     \<and> load_store ex_c ex_boot (a_disk a3) (a_path a3) = Inr s \<and> map (cred_id ex_w) (passkeys s) = [1]"
proof -
  obtain u a1 a2 a3 where run: "slice 3 (task_of ex_w ex_c ex_login) ex_base = (u, a1)"
    "exec ex_w ex_c (ex_register 6 (ex_env 50 9)) a1 = (True, a2)" "run_alone u a2 = (True, a3)"
    and ids: "cred_ids ex_w a3 = cred_ids ex_w ex_base @ [cred_id ex_w 6]"
    and disk: "disk_has ex_w ex_c (a_disk a3) (a_path a3) (cred_ids ex_w ex_base)"
    unfolding ex_login_def ex_register_def
    by (rule stale_save [of ex_base ex_w ex_c "ex_env 50 8" "ex_env 50 9" "ex_jar AUTH_COOKIE 3" "hex32 (ex_token 3)" 3
          "from_secs 30 + CEREMONY_TTL" 3 3 "ex_finish_jar 6" "hex32 (ex_token 6)" 6 "from_secs 40 + CEREMONY_TTL" 6 6])
      (use ex_base_ok ex_base_facts in \<open>simp_all add: ex_w_ok ex_c_ok ex_inputs ex_packages ex_bumped_store
        from_secs_def CEREMONY_TTL_def\<close>)
  obtain ts where "race_reachable ex_w ex_c ex_code [] any_action
      \<lparr>shared = a3, tasks = ts @ [Returned True, Returned True]\<rparr>"
    using ex_nested [OF _ _ run] by (auto simp: ex_login_def ex_register_def)
  moreover obtain s where "load_store ex_c ex_boot (a_disk a3) (a_path a3) = Inr s"
    "map (cred_id ex_w) (passkeys s) = [1]"
    using restart_ids [OF disk, of ex_boot] ex_base_facts(1) by (auto simp: ex_boot_def)
  ultimately show ?thesis
    using run ids ex_base_facts(1) by (intro exI conjI) (assumption | simp add: ex_packages)+
qed

text \<open>
  C18. The undo takes back whatever is last: a registration pushes its credential, another registration
  runs from its start to its end and is told that its credential is saved, then the save of the
  first fails. The second credential is no longer accepted although it was reported as saved, the
  first stays enrolled although it was reported as not saved, and both are on the disk.
\<close>

theorem undo_drops_other_credential:
  "\<exists>u a1 a2 a3 ts s.
     slice 2 (task_of ex_w ex_c (ex_register 6 ex_broken)) ex_base = (u, a1)
     \<and> exec ex_w ex_c (ex_register 7 (ex_env 50 9)) a1 = (True, a2)
     \<and> run_alone u a2 = (False, a3)
     \<and> race_reachable ex_w ex_c ex_code [] any_action \<lparr>shared = a3, tasks = ts @ [Returned False, Returned True]\<rparr>
     \<and> cred_ids ex_w a3 = [1, 6]
     \<and> load_store ex_c ex_boot (a_disk a3) (a_path a3) = Inr s \<and> map (cred_id ex_w) (passkeys s) = [1, 6, 7]"
proof -
  obtain u a1 a2 a3 where run: "slice 2 (task_of ex_w ex_c (ex_register 6 ex_broken)) ex_base = (u, a1)"
    "exec ex_w ex_c (ex_register 7 (ex_env 50 9)) a1 = (True, a2)" "run_alone u a2 = (False, a3)"
    and ids: "cred_ids ex_w a3 = cred_ids ex_w ex_base @ [cred_id ex_w 6]"
    and disk: "disk_has ex_w ex_c (a_disk a3) (a_path a3) (cred_ids ex_w ex_base @ [cred_id ex_w 6, cred_id ex_w 7])"
    unfolding ex_register_def
    by (rule wrong_undo [of ex_base ex_c ex_broken "ex_env 50 9" "ex_finish_jar 6" "hex32 (ex_token 6)" 6
          "from_secs 40 + CEREMONY_TTL" ex_w 6 6 "ex_finish_jar 7" "hex32 (ex_token 7)" 7 "from_secs 40 + CEREMONY_TTL" 7 7])
      (use ex_base_ok ex_base_facts ex_tokens_differ in \<open>simp_all add: ex_c_ok ex_inputs ex_packages
        from_secs_def CEREMONY_TTL_def\<close>)
  obtain ts where "race_reachable ex_w ex_c ex_code [] any_action
      \<lparr>shared = a3, tasks = ts @ [Returned False, Returned True]\<rparr>"
    using ex_nested [OF _ _ run] by (auto simp: ex_register_def ex_inputs)
  moreover obtain s where "load_store ex_c ex_boot (a_disk a3) (a_path a3) = Inr s"
    "map (cred_id ex_w) (passkeys s) = [1, 6, 7]"
    using restart_ids [OF disk, of ex_boot] ex_base_facts(1) by (auto simp: ex_boot_def ex_packages)
  ultimately show ?thesis
    using run ids ex_base_facts(1) by (intro exI conjI) (assumption | simp add: ex_packages)+
qed

text \<open>
  C17. All saves share one temporary file: a sign-in has written and synchronised it, a registration
  opens it and so truncates it, and the sign-in renames it over the credentials and reports success.
  A process that ends at this point leaves an empty credential file, with which it does not start
  again.
\<close>

theorem shared_temp_file_is_torn:
  "\<exists>n u1 a1 u2 a2 a3 ts.
     slice n (task_of ex_w ex_c ex_login) ex_base = (u1, a1)
     \<and> slice 4 (task_of ex_w ex_c (ex_register 6 (ex_env 50 9))) a1 = (u2, a2)
     \<and> run_alone u1 a2 = (True, a3)
     \<and> race_reachable ex_w ex_c ex_code [] any_action \<lparr>shared = a3, tasks = ts @ [Returned True, u2]\<rparr>
     \<and> file_at (a_disk a3) (a_path a3) = Some [] \<and> load_store ex_c ex_boot (a_disk a3) (a_path a3) = Inl ''parsing''"
proof -
  obtain j where j: "to_json ex_c (inner (a_store (bumped ex_w 3 (hex32 (ex_token 3)) ex_base))) = Some j"
    using ex_packages(5) [of "[1]"] by (auto simp: ex_bumped_store)
  obtain n u1 a1 u2 a2 a3 where run: "slice n (task_of ex_w ex_c ex_login) ex_base = (u1, a1)"
    "slice 4 (task_of ex_w ex_c (ex_register 6 (ex_env 50 9))) a1 = (u2, a2)" "run_alone u1 a2 = (True, a3)"
    and torn: "file_at (a_disk a3) (a_path a3) = Some []"
    unfolding ex_login_def ex_register_def
    by (rule torn_save [of ex_base ex_w "ex_env 50 8" "ex_env 50 9" "ex_jar AUTH_COOKIE 3" "hex32 (ex_token 3)" 3
          "from_secs 30 + CEREMONY_TTL" 3 3 ex_c j "ex_finish_jar 6" "hex32 (ex_token 6)" 6 "from_secs 40 + CEREMONY_TTL" 6 6])
      (use ex_base_ok ex_base_facts j in \<open>simp_all add: ex_w_ok ex_inputs ex_packages from_secs_def CEREMONY_TTL_def\<close>)
  obtain ts where "race_reachable ex_w ex_c ex_code [] any_action \<lparr>shared = a3, tasks = ts @ [Returned True, u2]\<rparr>"
    using ex_crossed [OF _ _ run] by (auto simp: ex_login_def ex_register_def)
  moreover have "load_store ex_c ex_boot (a_disk a3) (a_path a3) = Inl ''parsing''"
    using torn by (auto simp: load_store_def path_exists_def file_at_def ex_boot_def ex_c_def)
  ultimately show ?thesis
    using run torn by (intro exI conjI) assumption+
qed

end
