(* ===== verification/Sql_Tables.thy ===== *)
theory Sql_Tables
  imports Rust_Int "HOL-Library.Multiset"
begin

text \<open>
  The tables of \<open>src/src/store.rs\<close> and the SQL statements it runs on them. The table \<open>samples\<close> is
  \<open>WITHOUT ROWID\<close> with the key \<open>(res, ts, mid)\<close>: a list of rows in strictly increasing key
  order. Values of type \<open>REAL\<close> are exact rationals; the rounding of SQLite's sums is not
  modelled. The choice of a new row id in \<open>metric\<close> belongs to SQLite and is a parameter.
\<close>

section \<open>Keys and rows\<close>

datatype key = Key (k_res: i64) (k_ts: i64) (k_mid: i64)

instantiation key :: linorder
begin

definition less_eq_key :: "key \<Rightarrow> key \<Rightarrow> bool" where
  "less_eq_key a b \<longleftrightarrow>
     k_res a < k_res b \<or> k_res a = k_res b \<and>
       (k_ts a < k_ts b \<or> k_ts a = k_ts b \<and> k_mid a \<le> k_mid b)"

definition less_key :: "key \<Rightarrow> key \<Rightarrow> bool" where
  "less_key a b \<longleftrightarrow> a \<le> b \<and> \<not> b \<le> (a :: key)"

instance
  by standard (auto simp: less_eq_key_def less_key_def intro: key.expand)

end

lemma less_key_iff:
  "Key r t m < Key r' t' m' \<longleftrightarrow> r < r' \<or> r = r' \<and> (t < t' \<or> t = t' \<and> m < m')"
  by (auto simp: less_key_def less_eq_key_def)

record sample =
  s_avg :: rat
  s_min :: rat
  s_max :: rat
  s_n :: i64

type_synonym samples = "(key \<times> sample) list"

definition sorted_table :: "samples \<Rightarrow> bool" where
  "sorted_table t \<longleftrightarrow> sorted_wrt (<) (map fst t)"

definition row_at :: "samples \<Rightarrow> key \<Rightarrow> sample option" where
  "row_at t k = map_of t k"

section \<open>\<open>INSERT OR REPLACE\<close>\<close>

fun upsert :: "key \<Rightarrow> sample \<Rightarrow> samples \<Rightarrow> samples" where
  "upsert k v [] = [(k, v)]"
| "upsert k v ((k', v') # t) =
     (if k < k' then (k, v) # (k', v') # t
      else if k = k' then (k, v) # t
      else (k', v') # upsert k v t)"

lemma set_keys_upsert [simp]: "fst ` set (upsert k v t) = insert k (fst ` set t)"
  by (induction k v t rule: upsert.induct) auto

lemma sorted_upsert [simp]: "sorted_table t \<Longrightarrow> sorted_table (upsert k v t)"
proof (induction k v t rule: upsert.induct)
  case (1 k v)
  then show ?case by (simp add: sorted_table_def)
next
  case (2 k v k' v' t)
  then show ?case by (auto simp: sorted_table_def image_iff dest: less_trans)
qed

lemma row_at_upsert: "sorted_table t \<Longrightarrow> row_at (upsert k v t) k' = (if k' = k then Some v else row_at t k')"
proof (induction k v t rule: upsert.induct)
  case (1 k v)
  then show ?case by (simp add: row_at_def)
next
  case (2 k v j u t)
  then show ?case by (auto simp: row_at_def sorted_table_def)
qed

definition upsert_all :: "(key \<times> sample) list \<Rightarrow> samples \<Rightarrow> samples" where
  "upsert_all rows t = fold (\<lambda>(k, v). upsert k v) rows t"

lemma sorted_upsert_all [simp]: "sorted_table t \<Longrightarrow> sorted_table (upsert_all rows t)"
  unfolding upsert_all_def by (induction rows arbitrary: t) auto

lemma row_at_upsert_all:
  "sorted_table t \<Longrightarrow> distinct (map fst rows) \<Longrightarrow>
   row_at (upsert_all rows t) k = (case map_of rows k of Some v \<Rightarrow> Some v | None \<Rightarrow> row_at t k)"
proof (induction rows arbitrary: t)
  case Nil
  then show ?case by (simp add: upsert_all_def)
next
  case (Cons r rows)
  obtain k' v where r: "r = (k', v)" by (cases r)
  have "upsert_all (r # rows) t = upsert_all rows (upsert k' v t)"
    by (simp add: upsert_all_def r)
  moreover have "k' \<notin> fst ` set rows" using Cons.prems(2) r by simp
  then have "map_of rows k' = None" by (simp add: map_of_eq_None_iff)
  ultimately show ?case
    using Cons r by (auto simp: row_at_upsert split: option.split)
qed

section \<open>Selections\<close>

definition select :: "(key \<times> sample \<Rightarrow> bool) \<Rightarrow> samples \<Rightarrow> samples" where
  "select p t = filter p t"

lemma sorted_select [simp]: "sorted_table t \<Longrightarrow> sorted_table (select p t)"
  unfolding sorted_table_def select_def
  by (induction t) (auto simp: image_iff)

lemma row_at_in_set: "sorted_table t \<Longrightarrow> row_at t k = Some v \<longleftrightarrow> (k, v) \<in> set t"
  unfolding row_at_def sorted_table_def
  by (rule map_of_eq_Some_iff) (auto dest: strict_sorted_imp_sorted simp: strict_sorted_iff)

lemma row_at_select:
  assumes "sorted_table t"
  shows "row_at (select p t) k =
    (case row_at t k of None \<Rightarrow> None | Some v \<Rightarrow> if p (k, v) then Some v else None)"
proof -
  have iff: "row_at (select p t) k = Some v \<longleftrightarrow> row_at t k = Some v \<and> p (k, v)" for v
    using assms by (simp add: row_at_in_set) (simp add: select_def)
  show ?thesis
    by (cases "row_at (select p t) k"; cases "row_at t k") (use iff in auto)
qed

section \<open>Roll-up\<close>

text \<open>\<open>ts/?1\<close> and \<open>(ts/?1)*?1\<close>\<close>

definition bucket_of :: "i64 \<Rightarrow> i64 \<Rightarrow> i64" where
  "bucket_of w ts = tdiv ts w * w"

text \<open>
  One row of \<open>SELECT .. sum(avg*n)/sum(n), min(min), max(max), sum(n)\<close>. An integer sum that
  overflows is an error of SQLite; a zero sum of \<open>n\<close> gives a \<open>NULL\<close> average, which the \<open>NOT NULL\<close>
  column refuses.
\<close>

definition agg :: "samples \<Rightarrow> sample option" where
  "agg rows =
     (let n = sum_list (map (\<lambda>(_, v). s_n v) rows)
      in if in_i64 n \<and> n \<noteq> 0
         then Some \<lparr>s_avg = sum_list (map (\<lambda>(_, v). s_avg v * of_int (s_n v)) rows) / of_int n,
                    s_min = Min (set (map (\<lambda>(_, v). s_min v) rows)),
                    s_max = Max (set (map (\<lambda>(_, v). s_max v) rows)), s_n = n\<rparr>
         else None)"

definition group_of :: "i64 \<Rightarrow> key \<times> sample \<Rightarrow> i64 \<times> i64" where
  "group_of w r = (k_mid (fst r), tdiv (k_ts (fst r)) w)"

definition rollup_rows :: "i64 \<Rightarrow> i64 \<Rightarrow> i64 \<Rightarrow> samples \<Rightarrow> (key \<times> sample) list option" where
  "rollup_rows w src lo t =
     (let rows = select (\<lambda>(k, _). k_res k = src \<and> lo \<le> k_ts k) t
      in those (map (\<lambda>g. map_option (Pair (Key w (snd g * w) (fst g)))
                           (agg (select (\<lambda>r. group_of w r = g) rows)))
                    (remdups (map (group_of w) rows))))"

definition rollup :: "i64 \<Rightarrow> i64 \<Rightarrow> i64 \<Rightarrow> samples \<Rightarrow> samples option" where
  "rollup w src lo t = map_option (\<lambda>rows. upsert_all rows t) (rollup_rows w src lo t)"

definition prune :: "i64 \<Rightarrow> i64 \<Rightarrow> samples \<Rightarrow> samples" where
  "prune res old t = select (\<lambda>(k, _). \<not> (k_res k = res \<and> k_ts k < old)) t"

text \<open>The rows of one group.\<close>

definition bucket_rows :: "i64 \<Rightarrow> i64 \<Rightarrow> i64 \<Rightarrow> samples \<Rightarrow> i64 \<Rightarrow> i64 \<Rightarrow> samples" where
  "bucket_rows w src lo t b m =
     select (\<lambda>(k, _). k_res k = src \<and> lo \<le> k_ts k \<and> k_mid k = m \<and> bucket_of w (k_ts k) = b) t"

lemma map_of_those:
  assumes "those (map (\<lambda>g. map_option (Pair (f g)) (h g)) gs) = Some rows" and "inj_on f (set gs)"
  shows "map_of rows k = (if k \<in> f ` set gs then h (the_inv_into (set gs) f k) else None)"
  using assms
proof (induction gs arbitrary: rows)
  case Nil
  then show ?case by simp
next
  case (Cons g gs)
  then obtain v rows' where g: "h g = Some v" and rest: "those (map (\<lambda>g. map_option (Pair (f g)) (h g)) gs) = Some rows'"
    and rows: "rows = (f g, v) # rows'"
    by (auto split: option.splits)
  have inj: "inj_on f (set gs)" using Cons.prems(2) by simp
  note IH = Cons.IH [OF rest inj]
  show ?case
  proof (cases "k = f g")
    case True
    with rows g Cons.prems(2) show ?thesis by (simp add: the_inv_into_f_f)
  next
    case False
    have "the_inv_into (set (g # gs)) f k = the_inv_into (set gs) f k" if "k \<in> f ` set gs"
      using that Cons.prems(2) inj by (auto simp: the_inv_into_f_f)
    with False rows IH show ?thesis by auto
  qed
qed

lemma those_keys:
  "those (map (\<lambda>g. map_option (Pair (f g)) (h g)) gs) = Some rows \<Longrightarrow> map fst rows = map f gs"
  by (induction gs arbitrary: rows) (auto split: option.splits)

text \<open>
  What a roll-up leaves in the table: in the tier \<open>w\<close>, the aggregate of every non-empty group;
  everywhere else, what was there.
\<close>

lemma set_rollup_groups:
  "(m, q) \<in> set (map (group_of w) (select (\<lambda>(k, _). k_res k = src \<and> lo \<le> k_ts k) t)) \<longleftrightarrow>
   select (\<lambda>r. group_of w r = (m, q)) (select (\<lambda>(k, _). k_res k = src \<and> lo \<le> k_ts k) t) \<noteq> []"
  by (force simp: select_def filter_empty_conv)

lemma group_rows_eq:
  "w \<noteq> 0 \<Longrightarrow>
   select (\<lambda>r. group_of w r = (m, q)) (select (\<lambda>(k, _). k_res k = src \<and> lo \<le> k_ts k) t) =
   bucket_rows w src lo t (q * w) m"
  unfolding select_def bucket_rows_def filter_filter group_of_def bucket_of_def
  by (rule filter_cong) auto

lemma sorted_rollup: "sorted_table t \<Longrightarrow> rollup w src lo t = Some t' \<Longrightarrow> sorted_table t'"
  by (auto simp: rollup_def)

lemma row_at_rollup:
  assumes t: "sorted_table t" and w: "w \<noteq> 0" and roll: "rollup w src lo t = Some t'"
  shows "row_at t' (Key r b m) =
    (if r = w \<and> bucket_rows w src lo t b m \<noteq> [] then agg (bucket_rows w src lo t b m)
     else row_at t (Key r b m))"
proof -
  let ?rows = "select (\<lambda>(k, _). k_res k = src \<and> lo \<le> k_ts k) t"
  let ?gs = "remdups (map (group_of w) ?rows)"
  let ?f = "\<lambda>g. Key w (snd g * w) (fst g)"
  let ?h = "\<lambda>g. agg (select (\<lambda>r. group_of w r = g) ?rows)"
  obtain new where new: "those (map (\<lambda>g. map_option (Pair (?f g)) (?h g)) ?gs) = Some new"
    and t': "t' = upsert_all new t"
    using roll by (auto simp: rollup_def rollup_rows_def Let_def)
  have inj: "inj_on ?f (set ?gs)" using w by (auto simp: inj_on_def prod_eq_iff)
  note lookup = map_of_those [OF new inj]
  have keys: "map fst new = map ?f ?gs" by (rule those_keys [OF new])
  then have "distinct (map fst new)" using inj by (simp only: distinct_map distinct_remdups)
  with t t' have at: "row_at t' k = (case map_of new k of Some v \<Rightarrow> Some v | None \<Rightarrow> row_at t k)" for k
    by (simp add: row_at_upsert_all)
  show ?thesis
  proof (cases "r = w \<and> bucket_rows w src lo t b m \<noteq> []")
    case True
    then obtain q where b: "b = q * w"
      by (auto simp: bucket_rows_def select_def filter_empty_conv bucket_of_def)
    with True have "(m, q) \<in> set ?gs"
      using set_rollup_groups [of m q w src lo t] by (simp add: group_rows_eq [OF w])
    then have mem: "?f (m, q) \<in> ?f ` set ?gs" by (rule imageI)
    have "map_of new (?f (m, q)) = ?h (m, q)"
      using mem \<open>(m, q) \<in> set ?gs\<close> by (simp only: lookup the_inv_into_f_f [OF inj] if_True)
    moreover have "map_of new (?f (m, q)) \<noteq> None"
      using mem keys by (metis image_set map_of_eq_None_iff set_map)
    ultimately show ?thesis
      using True b at [of "Key r b m"] by (auto simp: group_rows_eq [OF w])
  next
    case False
    have "Key r b m \<notin> ?f ` set ?gs"
    proof
      assume "Key r b m \<in> ?f ` set ?gs"
      then obtain g where g: "g \<in> set ?gs" and "Key r b m = ?f g" by blast
      then have "(m, snd g) \<in> set ?gs" "r = w" "b = snd g * w" by simp_all
      with False set_rollup_groups [of m "snd g" w src lo t] show False by (simp add: group_rows_eq [OF w])
    qed
    then have "map_of new (Key r b m) = None" by (simp only: lookup if_False)
    with at [of "Key r b m"] show ?thesis using False by auto
  qed
qed

end
