(* ===== verification/Store.thy ===== *)
theory Store
  imports Sql_Tables "HOL-Library.AList"
begin

text \<open>
  \<open>src/src/store.rs\<close>: the time-series store. Writing and compacting are programs on a transaction,
  one \<open>stmt\<close> per SQL statement in the order of the code, any of which may fail; the transaction
  is committed at the end or rolled back, while the memo of metric ids lives outside it.
\<close>

definition RAW :: i64 where "RAW = 15"
definition FIVE_MIN :: i64 where "FIVE_MIN = 300"
definition HOUR :: i64 where "HOUR = 3600"
definition RAW_RETENTION :: i64 where "RAW_RETENTION = 172800"
definition FIVE_MIN_RETENTION :: i64 where "FIVE_MIN_RETENTION = 2592000"
definition HOUR_RETENTION :: i64 where "HOUR_RETENTION = 15552000"
definition SCHEMA_VERSION :: i64 where "SCHEMA_VERSION = 1"

text \<open>
  The file: the tables, each present or not, and \<open>user_version\<close>. \<open>metric\<close> has unique ids and
  unique names; of \<open>meta\<close> only the key \<open>last_compact\<close> is used.
\<close>

record db =
  d_version :: i64
  d_metric :: "(i64 \<times> string) list option"
  d_samples :: "samples option"
  d_meta :: "(string \<times> i64) list option"

definition empty_db :: db where
  "empty_db = \<lparr>d_version = 0, d_metric = None, d_samples = None, d_meta = None\<rparr>"

record store =
  st_write :: "unit mutex"
  st_read :: "unit mutex"
  st_ids :: "i64 hmap mutex"
  st_db :: db

section \<open>Opening\<close>

text \<open>\<open>migrate\<close>: tables of another schema version are dropped, missing tables are created.\<close>

definition migrate :: "db \<Rightarrow> db" where
  "migrate d =
     (let d1 = (if (d_samples d \<noteq> None \<or> d_metric d \<noteq> None) \<and> d_version d \<noteq> SCHEMA_VERSION
                then d\<lparr>d_samples := None, d_metric := None\<rparr> else d);
          d2 = d1\<lparr>d_metric := Some (case d_metric d1 of None \<Rightarrow> [] | Some m \<Rightarrow> m),
                  d_samples := Some (case d_samples d1 of None \<Rightarrow> [] | Some s \<Rightarrow> s),
                  d_meta := Some (case d_meta d1 of None \<Rightarrow> [] | Some m \<Rightarrow> m)\<rparr>
      in d2\<lparr>d_version := SCHEMA_VERSION\<rparr>)"

text \<open>The steps of \<open>open\<close> that can fail: the two connections, the pragmas and the migration.\<close>

definition open_store :: "(nat \<Rightarrow> bool) \<Rightarrow> db \<Rightarrow> string + store" where
  "open_store ok d =
     (if \<not> ok 0 then Inl ''opening''
      else if \<not> ok 1 then Inl ''configure''
      else if \<not> ok 2 then Inl ''migrate''
      else if \<not> ok 3 then Inl ''opening read-only''
      else if \<not> ok 4 then Inl ''configure''
      else Inr \<lparr>st_write = new_mutex (), st_read = new_mutex (), st_ids = new_mutex [], st_db = migrate d\<rparr>)"

section \<open>Statements\<close>

text \<open>
  A transaction in progress: the tables as it sees them, the memo, and the number of statements
  run so far. Statement \<open>i\<close> fails when \<open>ok i\<close> does not hold, or when the tables refuse it.
\<close>

record txn =
  t_db :: db
  t_ids :: "i64 hmap mutex"
  t_step :: nat

type_synonym 'a sql = "(txn, string, 'a) prog"

definition stmt :: "(nat \<Rightarrow> bool) \<Rightarrow> string \<Rightarrow> (db \<Rightarrow> ('a \<times> db) option) \<Rightarrow> 'a sql" where
  "stmt ok ctx f t =
     (let t' = t\<lparr>t_step := Suc (t_step t)\<rparr>
      in if ok (t_step t)
         then case f (t_db t) of
                None \<Rightarrow> (Err ctx, t')
              | Some (x, d) \<Rightarrow> (Ok x, t'\<lparr>t_db := d\<rparr>)
         else (Err ctx, t'))"

definition metrics :: "db \<Rightarrow> (i64 \<times> string) list" where
  "metrics d = (case d_metric d of None \<Rightarrow> [] | Some m \<Rightarrow> m)"

definition rows :: "db \<Rightarrow> samples" where
  "rows d = (case d_samples d of None \<Rightarrow> [] | Some s \<Rightarrow> s)"

definition id_of_name :: "db \<Rightarrow> string \<Rightarrow> i64 option" where
  "id_of_name d name = map_of (map (\<lambda>(i, n). (n, i)) (metrics d)) name"

text \<open>
  \<open>INSERT OR IGNORE INTO metric(name)\<close>: a name that is there is ignored, another gets the id that
  SQLite chooses.
\<close>

definition intern :: "(i64 list \<Rightarrow> i64) \<Rightarrow> string \<Rightarrow> db \<Rightarrow> (unit \<times> db) option" where
  "intern rowid name d =
     (case d_metric d of
        None \<Rightarrow> None
      | Some m \<Rightarrow> if name \<in> set (map snd m) then Some ((), d)
                  else Some ((), d\<lparr>d_metric := Some (m @ [(rowid (map fst m), name)])\<rparr>))"

definition metric_id :: "(nat \<Rightarrow> bool) \<Rightarrow> (i64 list \<Rightarrow> i64) \<Rightarrow> string \<Rightarrow> i64 sql" where
  "metric_id ok rowid name =
     with_lock t_ids (\<lambda>m.
       case hget m name of
         Some i \<Rightarrow> ret i
       | None \<Rightarrow>
           bind (stmt ok name (intern rowid name)) (\<lambda>_.
           bind (stmt ok name (\<lambda>d. map_option (\<lambda>i. (i, d)) (id_of_name d name))) (\<lambda>i.
           with_lock t_ids (\<lambda>m t. (Ok i, t\<lparr>t_ids := put (hinsert name i m) (t_ids t)\<rparr>)))))"

definition put_sample :: "key \<Rightarrow> sample \<Rightarrow> db \<Rightarrow> (unit \<times> db) option" where
  "put_sample k v d = map_option (\<lambda>s. ((), d\<lparr>d_samples := Some (upsert k v s)\<rparr>)) (d_samples d)"

definition raw_sample :: "rat \<Rightarrow> sample" where
  "raw_sample v = \<lparr>s_avg = v, s_min = v, s_max = v, s_n = 1\<rparr>"

section \<open>Writing\<close>

type_synonym points = "(string \<times> float_val) list"

fun write_points :: "(nat \<Rightarrow> bool) \<Rightarrow> (i64 list \<Rightarrow> i64) \<Rightarrow> u64 \<Rightarrow> points \<Rightarrow> unit sql" where
  "write_points ok rowid ts [] = ret ()"
| "write_points ok rowid ts ((m, v) # pts) =
     (case v of
        Finite x \<Rightarrow>
          bind (metric_id ok rowid m) (\<lambda>mid.
          bind (stmt ok ''insert'' (put_sample (Key RAW (as_i64 ts) mid) (raw_sample x))) (\<lambda>_.
          write_points ok rowid ts pts))
      | _ \<Rightarrow> write_points ok rowid ts pts)"

text \<open>
  A transaction on the writer's connection: its tables replace the database when the program
  ends well, and are dropped otherwise; the memo is kept either way. A panic unwinds through
  the guard and poisons the writer's mutex.
\<close>

definition transact :: "'a sql \<Rightarrow> (store, string, 'a) prog" where
  "transact m s =
     (case lock (st_write s) of
        None \<Rightarrow> (Err ''write lock poisoned'', s)
      | Some _ \<Rightarrow>
          (case m \<lparr>t_db = st_db s, t_ids = st_ids s, t_step = 0\<rparr> of
             (Ok x, t) \<Rightarrow> (Ok x, s\<lparr>st_db := t_db t, st_ids := t_ids t\<rparr>)
           | (Err e, t) \<Rightarrow> (Err e, s\<lparr>st_ids := t_ids t\<rparr>)
           | (Panic, t) \<Rightarrow> (Panic, s\<lparr>st_ids := t_ids t, st_write := Mutex True ()\<rparr>)))"

definition nop :: "db \<Rightarrow> (unit \<times> db) option" where
  "nop d = Some ((), d)"

definition try_write ::
  "(nat \<Rightarrow> bool) \<Rightarrow> (i64 list \<Rightarrow> i64) \<Rightarrow> u64 \<Rightarrow> points \<Rightarrow> (store, string, unit) prog" where
  "try_write ok rowid ts pts =
     transact
       (bind (stmt ok ''begin'' nop) (\<lambda>_.
        bind (stmt ok ''prepare insert'' nop) (\<lambda>_.
        bind (write_points ok rowid ts pts) (\<lambda>_.
        stmt ok ''commit'' nop))))"

text \<open>\<open>write\<close> logs an error and goes on.\<close>

definition write_samples :: "(nat \<Rightarrow> bool) \<Rightarrow> (i64 list \<Rightarrow> i64) \<Rightarrow> u64 \<Rightarrow> points \<Rightarrow> store \<Rightarrow> store" where
  "write_samples ok rowid ts pts s = snd (try_write ok rowid ts pts s)"

section \<open>Reading\<close>

record series =
  y_t :: "i64 list"
  y_avg :: "rat list"
  y_min :: "rat list"
  y_max :: "rat list"

definition empty_series :: series where
  "empty_series = \<lparr>y_t = [], y_avg = [], y_min = [], y_max = []\<rparr>"

text \<open>A negative \<open>LIMIT\<close> is no limit.\<close>

definition sql_limit :: "i64 \<Rightarrow> 'a list \<Rightarrow> 'a list" where
  "sql_limit n xs = (if n < 0 then xs else take (nat n) xs)"

definition query_rows :: "db \<Rightarrow> i64 \<Rightarrow> i64 \<Rightarrow> i64 \<Rightarrow> i64 \<Rightarrow> i64 \<Rightarrow> samples" where
  "query_rows d mid res from to limit =
     sql_limit limit
       (sort_key (\<lambda>r. k_ts (fst r))
         (select (\<lambda>(k, _). k_mid k = mid \<and> k_res k = res \<and> from \<le> k_ts k \<and> k_ts k \<le> to) (rows d)))"

text \<open>
  The guard of the reader and the lookup of the name: statement 0 prepares it, statement 1 runs it,
  and a lookup that fails while it runs is treated like an unknown name (\<open>.ok()\<close>).
\<close>

definition find_metric :: "(nat \<Rightarrow> bool) \<Rightarrow> string \<Rightarrow> (store, string, i64 option) prog" where
  "find_metric ok metric s =
     (case lock (st_read s) of
        None \<Rightarrow> (Err ''read lock poisoned'', s)
      | Some _ \<Rightarrow>
          if \<not> ok 0 then (Err ''prepare'', s)
          else (Ok (if ok 1 then id_of_name (st_db s) metric else None), s))"

text \<open>Statement 2 is the query.\<close>

definition read_rows ::
  "(nat \<Rightarrow> bool) \<Rightarrow> i64 \<Rightarrow> i64 \<Rightarrow> i64 \<Rightarrow> i64 \<Rightarrow> u64 \<Rightarrow> (store, string, series) prog" where
  "read_rows ok mid from to res limit s =
     (if \<not> ok 2 then (Err ''query'', s)
      else let r = query_rows (st_db s) mid res from to (as_i64 limit)
           in (Ok \<lparr>y_t = map (\<lambda>(k, _). k_ts k) r, y_avg = map (\<lambda>(_, v). s_avg v) r,
                   y_min = map (\<lambda>(_, v). s_min v) r, y_max = map (\<lambda>(_, v). s_max v) r\<rparr>, s))"

definition series_of ::
  "(nat \<Rightarrow> bool) \<Rightarrow> string \<Rightarrow> i64 \<Rightarrow> i64 \<Rightarrow> i64 \<Rightarrow> u64 \<Rightarrow> (store, string, series) prog" where
  "series_of ok metric from to res limit =
     bind (find_metric ok metric) (\<lambda>found.
       case found of
         None \<Rightarrow> ret empty_series
       | Some mid \<Rightarrow> read_rows ok mid from to res limit)"

lemmas series_of_defs = series_of_def find_metric_def read_rows_def bind_def ret_def Let_def

section \<open>Compacting\<close>

definition ceil_bucket :: "i64 \<Rightarrow> i64 \<Rightarrow> i64" where
  "ceil_bucket t width =
     (if t \<le> 0 then 0
      else wrap_i64 (tdiv (wrap_i64 (wrap_i64 (t + width) - 1)) width * width))"

definition last_compact :: "bool \<Rightarrow> db \<Rightarrow> i64" where
  "last_compact ok d =
     (if ok
      then case d_meta d of
             None \<Rightarrow> 0
           | Some m \<Rightarrow> (case map_of m ''last_compact'' of None \<Rightarrow> 0 | Some v \<Rightarrow> v)
      else 0)"

definition raw_cut :: "i64 \<Rightarrow> i64" where
  "raw_cut now = wrap_i64 (now - RAW_RETENTION)"

definition fm_cut :: "i64 \<Rightarrow> i64" where
  "fm_cut now = wrap_i64 (now - FIVE_MIN_RETENTION)"

definition hr_cut :: "i64 \<Rightarrow> i64" where
  "hr_cut now = wrap_i64 (now - HOUR_RETENTION)"

text \<open>The lower bounds of the two roll-ups.\<close>

definition lo5 :: "i64 \<Rightarrow> i64 \<Rightarrow> i64" where
  "lo5 prev now = ceil_bucket (max (min prev (wrap_i64 (now - 2 * FIVE_MIN))) (raw_cut now)) FIVE_MIN"

definition lo60 :: "i64 \<Rightarrow> i64 \<Rightarrow> i64" where
  "lo60 prev now = ceil_bucket (max (min prev (wrap_i64 (now - 2 * HOUR))) (fm_cut now)) HOUR"

definition on_samples :: "(samples \<Rightarrow> samples option) \<Rightarrow> db \<Rightarrow> (unit \<times> db) option" where
  "on_samples f d =
     (case d_samples d of
        None \<Rightarrow> None
      | Some s \<Rightarrow> map_option (\<lambda>s'. ((), d\<lparr>d_samples := Some s'\<rparr>)) (f s))"

definition gc_metrics :: "db \<Rightarrow> (unit \<times> db) option" where
  "gc_metrics d =
     (case d_metric d of
        None \<Rightarrow> None
      | Some m \<Rightarrow> Some ((), d\<lparr>d_metric :=
            Some (filter (\<lambda>(i, _). i \<in> set (map (\<lambda>(k, _). k_mid k) (rows d))) m)\<rparr>))"

definition set_last :: "i64 \<Rightarrow> db \<Rightarrow> (unit \<times> db) option" where
  "set_last now d =
     map_option (\<lambda>m. ((), d\<lparr>d_meta := Some (AList.update ''last_compact'' now m)\<rparr>)) (d_meta d)"

text \<open>The statements between \<open>BEGIN\<close> and \<open>COMMIT\<close>.\<close>

definition compact_stmts :: "(nat \<Rightarrow> bool) \<Rightarrow> i64 \<Rightarrow> i64 \<Rightarrow> unit sql" where
  "compact_stmts ok prev now =
     bind (stmt ok ''rollup 5min'' (on_samples (rollup FIVE_MIN RAW (lo5 prev now)))) (\<lambda>_.
     bind (stmt ok ''rollup hour'' (on_samples (rollup HOUR FIVE_MIN (lo60 prev now)))) (\<lambda>_.
     bind (stmt ok ''prune raw'' (on_samples (\<lambda>s. Some (prune RAW (raw_cut now) s)))) (\<lambda>_.
     bind (stmt ok ''prune 5min'' (on_samples (\<lambda>s. Some (prune FIVE_MIN (fm_cut now) s)))) (\<lambda>_.
     bind (stmt ok ''prune hour'' (on_samples (\<lambda>s. Some (prune HOUR (hr_cut now) s)))) (\<lambda>_.
     bind (stmt ok ''gc'' gc_metrics) (\<lambda>_.
     stmt ok ''meta'' (set_last now)))))))"

text \<open>
  The read of \<open>last_compact\<close> is statement 0, ahead of the transaction, and counts as 0 when it
  fails. The memo is cleared
  after the commit, still under the writer's guard.
\<close>

definition try_compact :: "(nat \<Rightarrow> bool) \<Rightarrow> i64 \<Rightarrow> (store, string, unit) prog" where
  "try_compact ok now s =
     (let prev = last_compact (ok 0) (st_db s)
      in bind
           (transact
             (bind (stmt (ok \<circ> Suc) ''begin'' nop) (\<lambda>_.
              bind (compact_stmts (ok \<circ> Suc) prev now) (\<lambda>_.
              stmt (ok \<circ> Suc) ''commit'' nop))))
           (\<lambda>_ s. case lock (st_ids s) of
                     None \<Rightarrow> (Panic, s\<lparr>st_write := Mutex True ()\<rparr>)
                   | Some _ \<Rightarrow> (Ok (), s\<lparr>st_ids := put [] (st_ids s)\<rparr>)) s)"

definition compact_store :: "(nat \<Rightarrow> bool) \<Rightarrow> i64 \<Rightarrow> store \<Rightarrow> store" where
  "compact_store ok now s = snd (try_compact ok now s)"

section \<open>Resolutions\<close>

definition pick_res :: "i64 \<Rightarrow> i64" where
  "pick_res secs =
     (if secs \<le> 3600 then RAW else if secs \<le> 86400 then FIVE_MIN else HOUR)"

definition is_valid_res :: "i64 \<Rightarrow> bool" where
  "is_valid_res res \<longleftrightarrow> res = RAW \<or> res = FIVE_MIN \<or> res = HOUR"

end
