(* ===== verification/Store_Inv.thy ===== *)
theory Store_Inv
  imports Store
begin

text \<open>
  The invariant of the database under every operation and every fault, the coherence of the memo
  of metric ids, and the store as a state machine.
\<close>

definition sample_ok :: "sample \<Rightarrow> bool" where
  "sample_ok v \<longleftrightarrow> s_min v \<le> s_avg v \<and> s_avg v \<le> s_max v \<and> 1 \<le> s_n v"

definition table_ok :: "samples \<Rightarrow> bool" where
  "table_ok t \<longleftrightarrow> sorted_table t \<and> list_all (\<lambda>(_, v). sample_ok v) t"

definition db_ok :: "db \<Rightarrow> bool" where
  "db_ok d \<longleftrightarrow>
     d_samples d \<noteq> None \<and> d_metric d \<noteq> None \<and> d_meta d \<noteq> None \<and> table_ok (rows d)
     \<and> distinct (map fst (metrics d)) \<and> distinct (map snd (metrics d))"

text \<open>The memo agrees with the table of names.\<close>

definition memo_ok :: "i64 hmap \<Rightarrow> db \<Rightarrow> bool" where
  "memo_ok m d \<longleftrightarrow> (\<forall>name i. hget m name = Some i \<longrightarrow> (i, name) \<in> set (metrics d))"

text \<open>What SQLite documents of a new row id: no row of the table has it.\<close>

definition rowid_ok :: "(i64 list \<Rightarrow> i64) \<Rightarrow> bool" where
  "rowid_ok f \<longleftrightarrow> (\<forall>xs. f xs \<notin> set xs)"

section \<open>Tables\<close>

lemma table_ok_upsert [simp]: "table_ok t \<Longrightarrow> sample_ok v \<Longrightarrow> table_ok (upsert k v t)"
proof -
  have "list_all (\<lambda>(_, v). sample_ok v) t \<Longrightarrow> sample_ok v \<Longrightarrow> list_all (\<lambda>(_, v). sample_ok v) (upsert k v t)"
    by (induction k v t rule: upsert.induct) auto
  then show "table_ok t \<Longrightarrow> sample_ok v \<Longrightarrow> table_ok (upsert k v t)" by (simp add: table_ok_def)
qed

lemma table_ok_select [simp]: "table_ok t \<Longrightarrow> table_ok (select p t)"
  by (auto simp: table_ok_def list_all_iff) (auto simp: select_def)

lemma table_ok_prune [simp]: "table_ok t \<Longrightarrow> table_ok (prune r c t)"
  by (simp add: prune_def)

lemma raw_sample_ok [simp]: "sample_ok (raw_sample x)"
  by (simp add: sample_ok_def raw_sample_def)

lemma sum_weighted:
  assumes "list_all (\<lambda>(_, v). sample_ok v) t" and "\<forall>(_, v)\<in>set t. lo \<le> s_min v \<and> s_max v \<le> hi"
  shows "lo * of_int (sum_list (map (\<lambda>(_, v). s_n v) t)) \<le> sum_list (map (\<lambda>(_, v). s_avg v * of_int (s_n v)) t)
    \<and> sum_list (map (\<lambda>(_, v). s_avg v * of_int (s_n v)) t) \<le> hi * of_int (sum_list (map (\<lambda>(_, v). s_n v) t))
    \<and> int (length t) \<le> sum_list (map (\<lambda>(_, v). s_n v) t)"
  using assms
proof (induction t)
  case Nil
  then show ?case by simp
next
  case (Cons r t)
  obtain k v where r: "r = (k, v)" by (cases r)
  have v: "sample_ok v" "lo \<le> s_min v" "s_max v \<le> hi" using Cons.prems r by auto
  then have n: "0 \<le> (of_int (s_n v) :: rat)" by (simp add: sample_ok_def)
  have "lo * of_int (s_n v) \<le> s_avg v * of_int (s_n v)"
    using v by (intro mult_right_mono [OF _ n]) (auto simp: sample_ok_def)
  moreover have "s_avg v * of_int (s_n v) \<le> hi * of_int (s_n v)"
    using v by (intro mult_right_mono [OF _ n]) (auto simp: sample_ok_def)
  moreover have "lo * of_int (sum_list (map (\<lambda>(_, v). s_n v) t)) \<le> sum_list (map (\<lambda>(_, v). s_avg v * of_int (s_n v)) t)
    \<and> sum_list (map (\<lambda>(_, v). s_avg v * of_int (s_n v)) t) \<le> hi * of_int (sum_list (map (\<lambda>(_, v). s_n v) t))
    \<and> int (length t) \<le> sum_list (map (\<lambda>(_, v). s_n v) t)"
    by (rule Cons.IH) (use Cons.prems in auto)
  moreover have "1 \<le> s_n v" using v(1) by (simp add: sample_ok_def)
  ultimately show ?case
    by (simp add: r distrib_left add_mono)
qed

lemma sample_ok_agg:
  assumes "list_all (\<lambda>(_, v). sample_ok v) t" and "agg t = Some v"
  shows "sample_ok v"
proof -
  let ?n = "sum_list (map (\<lambda>(_, v). s_n v) t)"
  let ?lo = "Min (set (map (\<lambda>(_, v). s_min v) t))" and ?hi = "Max (set (map (\<lambda>(_, v). s_max v) t))"
  have bounds: "\<forall>(_, v)\<in>set t. ?lo \<le> s_min v \<and> s_max v \<le> ?hi"
    by (force intro!: Min_le Max_ge)
  note w = sum_weighted [OF assms(1) bounds]
  have "?n \<noteq> 0" using assms(2) by (simp add: agg_def Let_def split: if_splits)
  moreover have "0 \<le> ?n" using w by linarith
  ultimately have n: "1 \<le> ?n" by linarith
  then have pos: "0 < (of_int ?n :: rat)" by linarith
  show ?thesis
    using assms(2) w n pos
    by (auto simp: agg_def Let_def sample_ok_def pos_le_divide_eq pos_divide_le_eq split: if_splits)
qed

lemma table_ok_upsert_all:
  "table_ok t \<Longrightarrow> list_all (\<lambda>(_, v). sample_ok v) new \<Longrightarrow> table_ok (upsert_all new t)"
  unfolding upsert_all_def by (induction new arbitrary: t) auto

lemma table_ok_rollup:
  assumes "table_ok t" and "rollup w src lo t = Some t'"
  shows "table_ok t'"
proof -
  obtain new where new: "rollup_rows w src lo t = Some new" and t': "t' = upsert_all new t"
    using assms(2) by (auto simp: rollup_def)
  have ok: "list_all (\<lambda>(_, v). sample_ok v) (select p t)" for p
    using table_ok_select [OF assms(1), of p] by (simp add: table_ok_def)
  have those: "those (map (\<lambda>g. map_option (Pair (f g)) (h g)) gs) = Some xs \<Longrightarrow>
      (\<And>g v. h g = Some v \<Longrightarrow> sample_ok v) \<Longrightarrow> list_all (\<lambda>(_, v). sample_ok v) xs"
    for f h and gs :: "(i64 \<times> i64) list" and xs
    by (induction gs arbitrary: xs) (auto split: option.splits)
  have "list_all (\<lambda>(_, v). sample_ok v) new"
    using new unfolding rollup_rows_def Let_def
    by (rule those) (rule sample_ok_agg [rotated], assumption, simp add: select_def filter_filter ok [unfolded select_def])
  with assms(1) t' show ?thesis by (simp add: table_ok_upsert_all)
qed

section \<open>Statements\<close>

text \<open>Every sample belongs to a metric.\<close>

definition refs_ok :: "db \<Rightarrow> bool" where
  "refs_ok d \<longleftrightarrow> k_mid ` fst ` set (rows d) \<subseteq> fst ` set (metrics d)"

abbreviation txn_db :: "(db \<Rightarrow> bool) \<Rightarrow> txn \<Rightarrow> bool" where
  "txn_db P t \<equiv> P (t_db t)"

definition txn_ok :: "txn \<Rightarrow> bool" where
  "txn_ok t \<longleftrightarrow> db_ok (t_db t) \<and> refs_ok (t_db t) \<and> memo_ok (inner (t_ids t)) (t_db t) \<and> \<not> poisoned (t_ids t)"

lemma triple_stmt:
  assumes "\<And>t. P t \<Longrightarrow> E (t\<lparr>t_step := Suc (t_step t)\<rparr>)"
    and "\<And>t x d. P t \<Longrightarrow> f (t_db t) = Some (x, d) \<Longrightarrow> Q x (t\<lparr>t_step := Suc (t_step t), t_db := d\<rparr>)"
  shows "triple P (stmt ok ctx f) Q E"
  by (rule tripleI) (auto simp: stmt_def Let_def assms split: outcome.split option.splits if_splits)

lemma keeps_stmt_db:
  "(\<And>d x d'. P d \<Longrightarrow> f d = Some (x, d') \<Longrightarrow> P d') \<Longrightarrow> keeps (txn_db P) (stmt ok ctx f)"
  by (rule triple_stmt) auto

lemma rows_put: "d_samples d = Some t \<Longrightarrow> rows (d\<lparr>d_samples := Some t'\<rparr>) = t'"
  by (simp add: rows_def)

lemma rows_simps [simp]:
  "rows (d\<lparr>d_metric := q\<rparr>) = rows d" "rows (d\<lparr>d_meta := k\<rparr>) = rows d" "rows (d\<lparr>d_samples := Some t\<rparr>) = t"
  "metrics (d\<lparr>d_samples := s\<rparr>) = metrics d" "metrics (d\<lparr>d_meta := k\<rparr>) = metrics d"
  "metrics (d\<lparr>d_metric := Some m\<rparr>) = m"
  by (simp_all add: rows_def metrics_def)

lemma db_ok_rows: "d_samples d = Some t \<Longrightarrow> db_ok d \<Longrightarrow> table_ok t"
  by (simp add: db_ok_def rows_def)

lemma db_ok_intern:
  "rowid_ok f \<Longrightarrow> db_ok d \<Longrightarrow> intern f name d = Some (u, d') \<Longrightarrow> db_ok d'"
  by (auto simp: intern_def db_ok_def metrics_def rowid_ok_def split: option.splits if_splits)
    (metis fst_conv image_eqI list.set_map)

lemma db_ok_put_sample:
  "db_ok d \<Longrightarrow> sample_ok v \<Longrightarrow> put_sample k v d = Some (u, d') \<Longrightarrow> db_ok d'"
  by (auto simp: put_sample_def db_ok_def rows_def)

lemma db_ok_on_samples:
  "(\<And>t t'. table_ok t \<Longrightarrow> f t = Some t' \<Longrightarrow> table_ok t') \<Longrightarrow> db_ok d \<Longrightarrow>
   on_samples f d = Some (u, d') \<Longrightarrow> db_ok d'"
  by (auto simp: on_samples_def db_ok_def rows_def split: option.splits)

lemma db_ok_gc: "db_ok d \<Longrightarrow> gc_metrics d = Some (u, d') \<Longrightarrow> db_ok d'"
  by (auto simp: gc_metrics_def db_ok_def metrics_def distinct_map_filter split: option.splits)

lemma db_ok_set_last: "db_ok d \<Longrightarrow> set_last now d = Some (u, d') \<Longrightarrow> db_ok d'"
  by (auto simp: set_last_def db_ok_def)

lemma nop_Some: "nop d = Some (u, d') \<longleftrightarrow> d' = d"
  by (auto simp: nop_def)

lemma id_of_name_in: "id_of_name d name = Some i \<Longrightarrow> (i, name) \<in> set (metrics d)"
  unfolding id_of_name_def by (drule map_of_SomeD) auto

lemma id_of_name_iff: "db_ok d \<Longrightarrow> id_of_name d name = Some i \<longleftrightarrow> (i, name) \<in> set (metrics d)"
proof -
  assume ok: "db_ok d"
  have "map fst (map (\<lambda>(i, n). (n, i)) ms) = map snd ms" for ms :: "(i64 \<times> string) list"
    by (induction ms) auto
  with ok have "distinct (map fst (map (\<lambda>(i, n). (n, i)) (metrics d)))" by (simp only: db_ok_def)
  then show ?thesis unfolding id_of_name_def by (subst map_of_eq_Some_iff) auto
qed

section \<open>Writing keeps the invariant\<close>

lemma intern_metrics:
  "intern f name d = Some (u, d') \<Longrightarrow> set (metrics d) \<subseteq> set (metrics d') \<and> name \<in> snd ` set (metrics d') \<and> rows d' = rows d"
  by (force simp: intern_def metrics_def split: option.splits if_splits)

lemma memo_ok_mono: "memo_ok m d \<Longrightarrow> set (metrics d) \<subseteq> set (metrics d') \<Longrightarrow> memo_ok m d'"
  by (auto simp: memo_ok_def)

lemma refs_ok_mono: "refs_ok d \<Longrightarrow> set (metrics d) \<subseteq> set (metrics d') \<Longrightarrow> rows d' = rows d \<Longrightarrow> refs_ok d'"
  unfolding refs_ok_def by (metis image_mono subset_trans)

lemma txn_ok_intern:
  "rowid_ok f \<Longrightarrow> txn_ok t \<Longrightarrow> intern f name (t_db t) = Some (u, d) \<Longrightarrow> txn_ok (t\<lparr>t_step := n, t_db := d\<rparr>)"
  using intern_metrics [of f name "t_db t" u d]
  by (auto simp: txn_ok_def intro: db_ok_intern memo_ok_mono refs_ok_mono)

lemma metric_id_triple:
  assumes "rowid_ok f"
  shows "triple txn_ok (metric_id ok f name) (\<lambda>i t. txn_ok t \<and> (i, name) \<in> set (metrics (t_db t))) txn_ok"
  unfolding metric_id_def
proof (rule triple_with_lock)
  fix s r t
  assume s: "txn_ok s" and run: "(case hget (inner (t_ids s)) name of Some i \<Rightarrow> ret i
     | None \<Rightarrow> bind (stmt ok name (intern f name)) (\<lambda>_.
           bind (stmt ok name (\<lambda>d. map_option (\<lambda>i. (i, d)) (id_of_name d name))) (\<lambda>i.
           with_lock t_ids (\<lambda>m t. (Ok i, t\<lparr>t_ids := put (hinsert name i m) (t_ids t)\<rparr>))))) s = (r, t)"
  have memo: "triple (\<lambda>t. txn_ok t \<and> (i, name) \<in> set (metrics (t_db t)))
      (with_lock t_ids (\<lambda>m t. (Ok i, t\<lparr>t_ids := put (hinsert name i m) (t_ids t)\<rparr>)))
      (\<lambda>i t. txn_ok t \<and> (i, name) \<in> set (metrics (t_db t))) txn_ok" for i
    by (rule triple_with_lock) (auto simp: txn_ok_def memo_ok_def hmap_simps split: if_splits)
  have ins: "triple txn_ok (bind (stmt ok name (intern f name)) (\<lambda>_.
           bind (stmt ok name (\<lambda>d. map_option (\<lambda>i. (i, d)) (id_of_name d name))) (\<lambda>i.
           with_lock t_ids (\<lambda>m t. (Ok i, t\<lparr>t_ids := put (hinsert name i m) (t_ids t)\<rparr>)))))
      (\<lambda>i t. txn_ok t \<and> (i, name) \<in> set (metrics (t_db t))) txn_ok"
  proof (rule triple_bind [where Q = "\<lambda>_. txn_ok"], rule triple_stmt)
    show "triple txn_ok (bind (stmt ok name (\<lambda>d. map_option (\<lambda>i. (i, d)) (id_of_name d name))) (\<lambda>i.
           with_lock t_ids (\<lambda>m t. (Ok i, t\<lparr>t_ids := put (hinsert name i m) (t_ids t)\<rparr>))))
      (\<lambda>i t. txn_ok t \<and> (i, name) \<in> set (metrics (t_db t))) txn_ok" for u :: unit
      by (rule triple_bind [OF triple_stmt memo]) (auto intro: id_of_name_in simp: txn_ok_def)
    show "txn_ok t \<Longrightarrow> txn_ok (t\<lparr>t_step := Suc (t_step t)\<rparr>)" for t by (simp add: txn_ok_def)
    show "txn_ok t \<Longrightarrow> intern f name (t_db t) = Some (u, d) \<Longrightarrow> txn_ok (t\<lparr>t_step := Suc (t_step t), t_db := d\<rparr>)"
      for t u d by (rule txn_ok_intern [OF assms])
  qed
  show "case r of Ok i \<Rightarrow> txn_ok t \<and> (i, name) \<in> set (metrics (t_db t)) | _ \<Rightarrow> txn_ok t"
  proof (cases "hget (inner (t_ids s)) name")
    case None
    with run tripleD [OF ins s] show ?thesis by auto
  next
    case (Some i)
    with run s show ?thesis by (auto simp: ret_def txn_ok_def memo_ok_def)
  qed
qed

lemma set_upsert: "set (upsert k v t) \<subseteq> insert (k, v) (set t)"
  by (induction k v t rule: upsert.induct) auto

lemma txn_ok_put:
  assumes "txn_ok t" and "sample_ok v" and "(k_mid k, name) \<in> set (metrics (t_db t))"
    and "put_sample k v (t_db t) = Some (u, d)"
  shows "txn_ok (t\<lparr>t_step := n, t_db := d\<rparr>)"
proof -
  obtain s where s: "d_samples (t_db t) = Some s" "d = (t_db t)\<lparr>d_samples := Some (upsert k v s)\<rparr>"
    using assms(4) by (auto simp: put_sample_def)
  have "k_mid k \<in> fst ` set (metrics (t_db t))" using assms(3) by force
  with s assms(1) have "refs_ok d"
    by (auto simp: txn_ok_def refs_ok_def rows_def metrics_def simp flip: image_image)
  with s assms show ?thesis
    by (auto simp: txn_ok_def memo_ok_def intro: db_ok_put_sample)
qed

lemma write_points_ok: "rowid_ok f \<Longrightarrow> keeps txn_ok (write_points ok f ts pts)"
proof (induction pts)
  case Nil
  then show ?case by (simp add: triple_ret)
next
  case (Cons p pts)
  obtain m v where p: "p = (m, v)" by (cases p)
  have put: "triple (\<lambda>t. txn_ok t \<and> (i, m) \<in> set (metrics (t_db t)))
      (stmt ok ctx (put_sample (Key RAW (as_i64 ts) i) (raw_sample x))) (\<lambda>_. txn_ok) txn_ok" for i ctx x
    proof (rule triple_stmt)
    show "txn_ok t \<and> (i, m) \<in> set (metrics (t_db t)) \<Longrightarrow> txn_ok (t\<lparr>t_step := Suc (t_step t)\<rparr>)" for t
      by (simp add: txn_ok_def)
    show "txn_ok t \<and> (i, m) \<in> set (metrics (t_db t)) \<Longrightarrow>
        put_sample (Key RAW (as_i64 ts) i) (raw_sample x) (t_db t) = Some (u, d) \<Longrightarrow>
        txn_ok (t\<lparr>t_step := Suc (t_step t), t_db := d\<rparr>)" for t u d
      by (rule txn_ok_put [of t "raw_sample x" "Key RAW (as_i64 ts) i" m]) auto
  qed
  show ?case
    using Cons by (cases v) (auto simp: p intro!: triple_bind [OF metric_id_triple] triple_bind [OF put])
qed

section \<open>Every operation keeps the database\<close>

text \<open>A property of the tables that the two statements of a write keep is kept by the write.\<close>

lemma keeps_db_metric_id:
  assumes "\<And>d name u d'. P d \<Longrightarrow> intern f name d = Some (u, d') \<Longrightarrow> P d'"
  shows "keeps (txn_db P) (metric_id ok f name)"
  unfolding metric_id_def
proof (rule keeps_with_lock)
  fix s r t
  assume s: "txn_db P s"
    and run: "(case hget (inner (t_ids s)) name of Some i \<Rightarrow> ret i
     | None \<Rightarrow> bind (stmt ok name (intern f name)) (\<lambda>_.
           bind (stmt ok name (\<lambda>d. map_option (\<lambda>i. (i, d)) (id_of_name d name))) (\<lambda>i.
           with_lock t_ids (\<lambda>m t. (Ok i, t\<lparr>t_ids := put (hinsert name i m) (t_ids t)\<rparr>))))) s = (r, t)"
  have "keeps (txn_db P) (bind (stmt ok name (intern f name)) (\<lambda>_.
           bind (stmt ok name (\<lambda>d. map_option (\<lambda>i. (i, d)) (id_of_name d name))) (\<lambda>i.
           with_lock t_ids (\<lambda>m t. (Ok i, t\<lparr>t_ids := put (hinsert name i m) (t_ids t)\<rparr>)))))"
    by (intro triple_bind [where Q = "\<lambda>_. txn_db P"] keeps_stmt_db keeps_with_lock) (auto intro: assms)
  from keepsD [OF this s] run s show "txn_db P t"
    by (cases "hget (inner (t_ids s)) name") (auto simp: ret_def)
qed

lemma keeps_db_write_points:
  assumes "\<And>d name u d'. P d \<Longrightarrow> intern f name d = Some (u, d') \<Longrightarrow> P d'"
    and "\<And>d i x u d'. P d \<Longrightarrow> put_sample (Key RAW (as_i64 ts) i) (raw_sample x) d = Some (u, d') \<Longrightarrow> P d'"
  shows "keeps (txn_db P) (write_points ok f ts pts)"
proof (induction pts)
  case Nil
  then show ?case by (simp add: triple_ret)
next
  case (Cons p pts)
  obtain m v where p: "p = (m, v)" by (cases p)
  have "keeps (txn_db P) (metric_id ok f m)" by (rule keeps_db_metric_id) (rule assms(1))
  moreover have "keeps (txn_db P) (stmt ok ctx (put_sample (Key RAW (as_i64 ts) i) (raw_sample x)))" for ctx i x
    by (rule keeps_stmt_db) (auto intro: assms(2))
  ultimately show ?case
    using Cons by (cases v) (auto simp: p intro!: triple_bind [where Q = "\<lambda>_. txn_db P"])
qed

lemma keeps_db_on_samples:
  "(\<And>t t'. table_ok t \<Longrightarrow> f t = Some t' \<Longrightarrow> table_ok t') \<Longrightarrow> keeps (txn_db db_ok) (stmt ok ctx (on_samples f))"
  by (rule keeps_stmt_db) (auto intro: db_ok_on_samples)

lemma keeps_db_nop: "keeps (txn_db P) (stmt ok ctx nop)"
  by (rule keeps_stmt_db) (simp add: nop_Some)

lemma keeps_db_compact: "keeps (txn_db db_ok) (compact_stmts ok prev now)"
  unfolding compact_stmts_def
  by (intro triple_bind [where Q = "\<lambda>_. txn_db db_ok"] keeps_db_on_samples keeps_stmt_db)
    (auto intro: table_ok_rollup db_ok_gc db_ok_set_last)

lemma keeps_ids_stmt: "keeps (\<lambda>t. t_ids t = m) (stmt ok ctx f)"
  by (rule triple_stmt) auto

lemma keeps_ids_compact: "keeps (\<lambda>t. t_ids t = m) (compact_stmts ok prev now)"
  unfolding compact_stmts_def
  by (intro triple_bind [where Q = "\<lambda>_ t. t_ids t = m"] keeps_ids_stmt)

text \<open>A transaction that does not end well leaves the database as it was.\<close>

lemma transact_cases:
  assumes "transact m s = (r, s')"
  obtains (committed) x t where "r = Ok x" and "\<not> poisoned (st_write s)"
      and "m \<lparr>t_db = st_db s, t_ids = st_ids s, t_step = 0\<rparr> = (Ok x, t)"
      and "s' = s\<lparr>st_db := t_db t, st_ids := t_ids t\<rparr>"
  | (rolled_back) "\<forall>x. r \<noteq> Ok x" and "st_db s' = st_db s" and "st_read s' = st_read s"
  using assms
  by (auto simp: transact_def lock_def split: if_splits prod.splits outcome.splits)

lemma transact_db:
  assumes "transact m s = (r, s')" and "keeps (txn_db P) m" and "P (st_db s)"
  shows "P (st_db s')"
proof (cases rule: transact_cases [OF assms(1), case_names committed rolled_back])
  case (committed x t)
  with keepsD [OF assms(2) _ committed(3)] assms(3) show ?thesis by simp
next
  case rolled_back
  with assms(3) show ?thesis by simp
qed

lemma transact_ids:
  assumes "transact m s = (r, s')" and "keeps (\<lambda>t. t_ids t = st_ids s) m"
  shows "st_ids s' = st_ids s"
  using assms(1) keepsD [OF assms(2), of "\<lparr>t_db = st_db s, t_ids = st_ids s, t_step = 0\<rparr>"]
  by (auto simp: transact_def split: option.splits prod.splits outcome.splits)

lemma try_write_keeps:
  assumes "try_write ok f ts pts s = (r, s')" and "P (st_db s)"
    and "\<And>d name u d'. P d \<Longrightarrow> intern f name d = Some (u, d') \<Longrightarrow> P d'"
    and "\<And>d i x u d'. P d \<Longrightarrow> put_sample (Key RAW (as_i64 ts) i) (raw_sample x) d = Some (u, d') \<Longrightarrow> P d'"
  shows "P (st_db s')"
proof (rule transact_db [where P = P, OF assms(1) [unfolded try_write_def] _ assms(2)])
  have "keeps (txn_db P) (write_points ok f ts pts)" by (rule keeps_db_write_points) (fact assms(3), fact assms(4))
  then show "keeps (txn_db P) (bind (stmt ok ''begin'' nop) (\<lambda>_. bind (stmt ok ''prepare insert'' nop)
      (\<lambda>_. bind (write_points ok f ts pts) (\<lambda>_. stmt ok ''commit'' nop))))"
    by (intro triple_bind [where Q = "\<lambda>_. txn_db P"] keeps_db_nop)
qed

lemma try_write_db: "rowid_ok f \<Longrightarrow> db_ok (st_db s) \<Longrightarrow> db_ok (st_db (write_samples ok f ts pts s))"
  unfolding write_samples_def
  by (rule try_write_keeps [OF prod.collapse [symmetric]])
    (auto intro: db_ok_intern db_ok_put_sample [OF _ raw_sample_ok])

text \<open>A write changes raw rows at its own time only.\<close>

definition write_frame :: "i64 \<Rightarrow> db \<Rightarrow> db \<Rightarrow> bool" where
  "write_frame ts d0 d \<longleftrightarrow>
     db_ok d \<and> d_meta d = d_meta d0 \<and> (\<forall>k. row_at (rows d0) k \<noteq> None \<longrightarrow> row_at (rows d) k \<noteq> None)
     \<and> (\<forall>k. k_res k \<noteq> RAW \<or> k_ts k \<noteq> ts \<longrightarrow> row_at (rows d) k = row_at (rows d0) k)"

lemma try_write_frame:
  assumes "rowid_ok f" and "db_ok (st_db s)" and "try_write ok f ts pts s = (r, s')"
  shows "write_frame (as_i64 ts) (st_db s) (st_db s')"
proof (rule try_write_keeps [OF assms(3)])
  show "write_frame (as_i64 ts) (st_db s) (st_db s)" using assms(2) by (simp add: write_frame_def)
next
  fix d name u d'
  assume f: "write_frame (as_i64 ts) (st_db s) d" and i: "intern f name d = Some (u, d')"
  from i have "rows d' = rows d" "d_meta d' = d_meta d"
    by (auto simp: intern_def rows_def split: option.splits if_splits)
  with f i show "write_frame (as_i64 ts) (st_db s) d'"
    by (auto simp: write_frame_def intro: db_ok_intern [OF assms(1)])
next
  fix d i x u d'
  assume f: "write_frame (as_i64 ts) (st_db s) d"
    and p: "put_sample (Key RAW (as_i64 ts) i) (raw_sample x) d = Some (u, d')"
  then obtain t where t: "d_samples d = Some t"
    "d' = d\<lparr>d_samples := Some (upsert (Key RAW (as_i64 ts) i) (raw_sample x) t)\<rparr>"
    by (auto simp: put_sample_def)
  with f have "sorted_table t" by (simp add: write_frame_def db_ok_def table_ok_def rows_def)
  moreover have "db_ok d'" using f db_ok_put_sample [OF _ raw_sample_ok p] by (simp add: write_frame_def)
  ultimately show "write_frame (as_i64 ts) (st_db s) d'"
    using f t by (auto simp: write_frame_def rows_def row_at_upsert)
qed

lemma try_compact_cases:
  assumes "try_compact ok now s = (r, s')"
  obtains (completed) t where "r = Ok ()"
      and "compact_stmts (ok \<circ> Suc) (last_compact (ok 0) (st_db s)) now
             \<lparr>t_db = st_db s, t_ids = st_ids s, t_step = 1\<rparr> = (Ok (), t)"
      and "s' = s\<lparr>st_db := t_db t, st_ids := put [] (t_ids t)\<rparr>"
  | (memo_poisoned) "r = Panic" and "poisoned (st_ids s)" and "db_ok (st_db s) \<longrightarrow> db_ok (st_db s')"
  | (rolled_back) "\<forall>x. r \<noteq> Ok x" and "st_db s' = st_db s" and "st_ids s' = st_ids s"
proof -
  let ?prev = "last_compact (ok 0) (st_db s)"
  let ?m = "bind (stmt (ok \<circ> Suc) ''begin'' nop) (\<lambda>_. bind (compact_stmts (ok \<circ> Suc) ?prev now) (\<lambda>_.
              stmt (ok \<circ> Suc) ''commit'' nop))"
  obtain r1 s1 where tr: "transact ?m s = (r1, s1)" by (metis surj_pair)
  have ids: "st_ids s1 = st_ids s"
    by (rule transact_ids [OF tr]) (intro triple_bind [where Q = "\<lambda>_ t. t_ids t = st_ids s"] keeps_ids_stmt keeps_ids_compact)
  show ?thesis
  proof (cases rule: transact_cases [OF tr, case_names committed rolled_back])
    case (committed x t)
    then obtain t1 where t1: "compact_stmts (ok \<circ> Suc) ?prev now
             \<lparr>t_db = st_db s, t_ids = st_ids s, t_step = 1\<rparr> = (Ok (), t1)"
      and t: "t_db t = t_db t1" "t_ids t = t_ids t1"
      by (auto simp: bind_Ok_iff stmt_def Let_def nop_def split: if_splits)
    show ?thesis
    proof (cases "poisoned (t_ids t)")
      case True
      have "db_ok (st_db s) \<longrightarrow> db_ok (st_db s1)"
        using keepsD [OF keeps_db_compact _ t1] committed(4) t by simp
      with True committed tr assms ids show ?thesis
        by (intro memo_poisoned) (auto simp: try_compact_def Let_def bind_def)
    next
      case False
      with committed tr assms t t1 show ?thesis
        by (intro completed [OF _ t1]) (auto simp: try_compact_def Let_def bind_def)
    qed
  next
    case rolled_back
    with tr assms ids show ?thesis
      by (intro that(3)) (auto simp: try_compact_def Let_def bind_def split: outcome.splits)
  qed
qed

lemma compact_db: "db_ok (st_db s) \<Longrightarrow> db_ok (st_db (compact_store ok now s))"
proof -
  assume ok: "db_ok (st_db s)"
  obtain r s' where run: "try_compact ok now s = (r, s')" by (metis surj_pair)
  have "db_ok (st_db s')"
  proof (cases rule: try_compact_cases [OF run, case_names end_ok memo_poisoned rolled_back])
    case (end_ok t)
    with keepsD [OF keeps_db_compact _ end_ok(2)] ok show ?thesis by simp
  qed (use ok in auto)
  with run show ?thesis by (simp add: compact_store_def)
qed

section \<open>The store as a machine\<close>

text \<open>
  A file that \<open>open\<close> accepts: of another schema version, or with sound tables. The machine writes
  and compacts with any faults and is restarted on the file it left.
\<close>

definition file_ok :: "db \<Rightarrow> bool" where
  "file_ok d \<longleftrightarrow> d_version d \<noteq> SCHEMA_VERSION \<or> db_ok d"

definition store_init :: "(i64 list \<Rightarrow> i64) \<Rightarrow> store \<Rightarrow> bool" where
  "store_init f s \<longleftrightarrow> rowid_ok f \<and> (\<exists>ok d. file_ok d \<and> open_store ok d = Inr s)"

inductive store_step :: "(i64 list \<Rightarrow> i64) \<Rightarrow> store \<Rightarrow> store \<Rightarrow> bool" for f :: "i64 list \<Rightarrow> i64" where
  "store_step f s (write_samples ok f ts pts s)"
| "store_step f s (compact_store ok now s)"
| "open_store ok (st_db s) = Inr s' \<Longrightarrow> store_step f s s'"

definition store_inv :: "(i64 list \<Rightarrow> i64) \<Rightarrow> store \<Rightarrow> bool" where
  "store_inv f s \<longleftrightarrow> rowid_ok f \<and> db_ok (st_db s)"

lemma db_ok_migrate: "file_ok d \<Longrightarrow> db_ok (migrate d)"
  by (auto simp: file_ok_def migrate_def Let_def db_ok_def rows_def metrics_def table_ok_def sorted_table_def
      split: option.splits)

lemma open_store_db: "open_store ok d = Inr s \<Longrightarrow> st_db s = migrate d \<and> st_ids s = new_mutex []"
  by (auto simp: open_store_def split: if_splits)

lemma open_store_ok: "file_ok d \<Longrightarrow> open_store ok d = Inr s \<Longrightarrow> db_ok (st_db s)"
  using open_store_db db_ok_migrate by metis

interpretation store_machine: invariant_of "store_init f" "store_step f" "store_inv f"
  for f :: "i64 list \<Rightarrow> i64"
proof unfold_locales
  fix s
  assume "store_init f s"
  then show "store_inv f s"
    by (auto simp: store_init_def store_inv_def intro: open_store_ok)
next
  fix s t
  assume "store_step f s t" and inv: "store_inv f s"
  then show "store_inv f t"
  proof (cases rule: store_step.cases)
    case (3 ok)
    then show ?thesis using inv open_store_ok [of "st_db s" ok t] by (simp add: store_inv_def file_ok_def)
  qed (use inv in \<open>auto simp: store_inv_def intro: try_write_db compact_db\<close>)
qed

section \<open>Coherence of the memo\<close>

definition coherent :: "store \<Rightarrow> bool" where
  "coherent s \<longleftrightarrow>
     db_ok (st_db s) \<and> refs_ok (st_db s) \<and> memo_ok (inner (st_ids s)) (st_db s) \<and> \<not> poisoned (st_ids s)"

lemma coherent_txn: "coherent s \<longleftrightarrow> txn_ok \<lparr>t_db = st_db s, t_ids = st_ids s, t_step = n\<rparr>"
  by (simp add: coherent_def txn_ok_def)

lemma try_write_committed:
  assumes "try_write ok f ts pts s = (Ok u, s')"
  obtains t where "write_points ok f ts pts \<lparr>t_db = st_db s, t_ids = st_ids s, t_step = 2\<rparr> = (Ok (), t)"
    and "st_db s' = t_db t" and "st_ids s' = t_ids t" and "st_read s' = st_read s"
proof (cases rule: transact_cases [OF assms [unfolded try_write_def], case_names committed rolled_back])
  case (committed x t)
  then show ?thesis
    by (auto simp: bind_Ok_iff stmt_def Let_def nop_def numeral_2_eq_2 split: if_splits intro: that)
next
  case rolled_back
  then show ?thesis by simp
qed

lemma try_write_coherent:
  assumes "rowid_ok f" and "coherent s" and "try_write ok f ts pts s = (Ok u, s')"
  shows "coherent s'"
proof (cases rule: try_write_committed [OF assms(3), case_names run])
  case (run t)
  have "txn_ok t"
    using tripleD [OF write_points_ok [OF assms(1)] assms(2) [unfolded coherent_txn [of _ 2]] run(1)] by simp
  with run show ?thesis by (simp add: coherent_def txn_ok_def)
qed

text \<open>Compaction: the samples keep belonging to metrics, and the memo is cleared or unchanged.\<close>

abbreviation mids :: "samples \<Rightarrow> i64 set" where
  "mids t \<equiv> k_mid ` fst ` set t"

lemma mids_select: "mids (select p t) \<subseteq> mids t"
  by (auto simp: select_def)

lemma mids_upsert_all: "mids (upsert_all new t) = mids new \<union> mids t"
proof -
  have "fst ` set (upsert_all new t) = fst ` set new \<union> fst ` set t"
    unfolding upsert_all_def
  proof (induction new arbitrary: t)
    case Nil
    then show ?case by simp
  next
    case (Cons r new)
    then show ?case using set_keys_upsert [of "fst r" "snd r" t] by (simp add: case_prod_beta)
  qed
  then show ?thesis by (simp only: image_Un)
qed

lemma mids_rollup:
  assumes "rollup w src lo t = Some t'"
  shows "mids t' \<subseteq> mids t"
proof -
  obtain new where new: "rollup_rows w src lo t = Some new" and t': "t' = upsert_all new t"
    using assms by (auto simp: rollup_def)
  let ?rows = "select (\<lambda>(k, _). k_res k = src \<and> lo \<le> k_ts k) t"
  have "map fst new = map (\<lambda>g. Key w (snd g * w) (fst g)) (remdups (map (group_of w) ?rows))"
    using new unfolding rollup_rows_def Let_def by (rule those_keys)
  then have "fst ` set new = (\<lambda>g. Key w (snd g * w) (fst g)) ` set (remdups (map (group_of w) ?rows))"
    by (metis list.set_map)
  then have "mids new \<subseteq> mids ?rows" by (auto simp: group_of_def image_image)
  then have "mids new \<subseteq> mids t" using mids_select by (rule order_trans)
  with t' show ?thesis by (simp only: mids_upsert_all Un_subset_iff subset_refl)
qed

lemma refs_on_samples:
  "(\<And>t t'. f t = Some t' \<Longrightarrow> mids t' \<subseteq> mids t) \<Longrightarrow> refs_ok d \<Longrightarrow> on_samples f d = Some (u, d') \<Longrightarrow> refs_ok d'"
proof -
  assume sub: "\<And>t t'. f t = Some t' \<Longrightarrow> mids t' \<subseteq> mids t" and ok: "refs_ok d"
    and run: "on_samples f d = Some (u, d')"
  then obtain t t' where "d_samples d = Some t" "f t = Some t'" "d' = d\<lparr>d_samples := Some t'\<rparr>"
    by (auto simp: on_samples_def split: option.splits)
  with sub [of t t'] ok show "refs_ok d'" by (simp add: refs_ok_def rows_def metrics_def)
qed

lemma keeps_refs_on_samples:
  "(\<And>t t'. f t = Some t' \<Longrightarrow> mids t' \<subseteq> mids t) \<Longrightarrow> keeps (txn_db refs_ok) (stmt ok ctx (on_samples f))"
proof (rule keeps_stmt_db)
  show "refs_ok d'" if "\<And>t t'. f t = Some t' \<Longrightarrow> mids t' \<subseteq> mids t" "refs_ok d" "on_samples f d = Some (x, d')" for d x d'
    by (rule refs_on_samples [OF that])
qed

lemma refs_gc: "refs_ok d \<Longrightarrow> gc_metrics d = Some (u, d') \<Longrightarrow> refs_ok d'"
  by (force simp: gc_metrics_def refs_ok_def rows_def metrics_def split: option.splits)

lemma refs_set_last: "refs_ok d \<Longrightarrow> set_last now d = Some (u, d') \<Longrightarrow> refs_ok d'"
proof -
  assume ok: "refs_ok d" and "set_last now d = Some (u, d')"
  then obtain z where "d' = d\<lparr>d_meta := z\<rparr>" by (auto simp: set_last_def)
  with ok show ?thesis by (simp add: refs_ok_def)
qed

lemma mids_prune: "Some (prune r c t) = Some t' \<Longrightarrow> mids t' \<subseteq> mids t"
  using mids_select unfolding prune_def option.inject by metis

lemma keeps_refs_compact: "keeps (txn_db refs_ok) (compact_stmts ok prev now)"
  unfolding compact_stmts_def
  by (intro triple_bind [where Q = "\<lambda>_. txn_db refs_ok"] keeps_refs_on_samples keeps_stmt_db)
    (erule mids_rollup mids_prune refs_gc refs_set_last, assumption?)+

lemma memo_ok_Nil [simp]: "memo_ok [] d"
  by (simp add: memo_ok_def)

lemma compact_coherent:
  assumes "coherent s"
  shows "coherent (compact_store ok now s)"
proof -
  obtain r s' where run: "try_compact ok now s = (r, s')" by (metis surj_pair)
  let ?t = "\<lparr>t_db = st_db s, t_ids = st_ids s, t_step = 1\<rparr>"
  have "coherent s'"
  proof (cases rule: try_compact_cases [OF run, case_names completed memo_poisoned rolled_back])
    case (completed t)
    have "db_ok (t_db t)" using keepsD [OF keeps_db_compact _ completed(2)] assms by (simp add: coherent_def)
    moreover have "refs_ok (t_db t)"
      using keepsD [OF keeps_refs_compact _ completed(2)] assms by (simp add: coherent_def)
    moreover have "t_ids t = st_ids s"
      using keepsD [OF keeps_ids_compact [of "st_ids s"] _ completed(2)] by simp
    ultimately show ?thesis using completed(3) assms by (simp add: coherent_def)
  next
    case memo_poisoned
    with assms show ?thesis by (simp add: coherent_def)
  next
    case rolled_back
    with assms show ?thesis by (simp add: coherent_def)
  qed
  with run show ?thesis by (simp add: compact_store_def)
qed

section \<open>What a compaction leaves\<close>

lemma stmt_Ok_iff:
  "stmt ok ctx f t = (Ok x, t') \<longleftrightarrow>
     ok (t_step t) \<and> (\<exists>d. f (t_db t) = Some (x, d) \<and> t' = t\<lparr>t_step := Suc (t_step t), t_db := d\<rparr>)"
  by (auto simp: stmt_def Let_def split: option.splits)

lemma on_samples_Some:
  "on_samples f d = Some (u, d') \<longleftrightarrow>
     (\<exists>x x'. d_samples d = Some x \<and> f x = Some x' \<and> d' = d\<lparr>d_samples := Some x'\<rparr>)"
  by (auto simp: on_samples_def split: option.splits)

lemma gc_metrics_Some:
  "gc_metrics d = Some (u, d') \<longleftrightarrow>
     (\<exists>m. d_metric d = Some m \<and> d' = d\<lparr>d_metric := Some (filter (\<lambda>(i, _). i \<in> mids (rows d)) m)\<rparr>)"
  by (auto simp: gc_metrics_def image_image case_prod_beta split: option.splits)

lemma set_last_Some:
  "set_last now d = Some (u, d') \<longleftrightarrow>
     (\<exists>m. d_meta d = Some m \<and> d' = d\<lparr>d_meta := Some (AList.update ''last_compact'' now m)\<rparr>)"
  by (auto simp: set_last_def)

lemma compact_stmts_Ok:
  assumes "compact_stmts ok prev now t = (Ok u, t')" and "d_samples (t_db t) = Some x"
  obtains x5 x60 where "rollup FIVE_MIN RAW (lo5 prev now) x = Some x5"
    and "rollup HOUR FIVE_MIN (lo60 prev now) x5 = Some x60"
    and "rows (t_db t') = prune HOUR (hr_cut now) (prune FIVE_MIN (fm_cut now) (prune RAW (raw_cut now) x60))"
    and "metrics (t_db t') = filter (\<lambda>(i, _). i \<in> mids (rows (t_db t'))) (metrics (t_db t))"
    and "last_compact True (t_db t') = now"
proof -
  let ?p = "\<lambda>x60. prune HOUR (hr_cut now) (prune FIVE_MIN (fm_cut now) (prune RAW (raw_cut now) x60))"
  from assms obtain x5 x60 m k where roll: "rollup FIVE_MIN RAW (lo5 prev now) x = Some x5"
    "rollup HOUR FIVE_MIN (lo60 prev now) x5 = Some x60"
    and "d_metric (t_db t) = Some m" "d_meta (t_db t) = Some k"
    and "t_db t' = (t_db t)\<lparr>d_samples := Some (?p x60),
      d_metric := Some (filter (\<lambda>(i, _). i \<in> mids (?p x60)) m),
      d_meta := Some (AList.update ''last_compact'' now k)\<rparr>"
    by (auto simp: compact_stmts_def bind_Ok_iff stmt_Ok_iff on_samples_Some gc_metrics_Some set_last_Some)
  then show ?thesis
    by (intro that [OF roll]) (simp_all add: metrics_def rows_def last_compact_def update_conv)
qed

lemma compaction_Ok:
  assumes "try_compact ok now s = (Ok u, s')" and "db_ok (st_db s)"
  obtains x5 x60 where "rollup FIVE_MIN RAW (lo5 (last_compact (ok 0) (st_db s)) now) (rows (st_db s)) = Some x5"
    and "rollup HOUR FIVE_MIN (lo60 (last_compact (ok 0) (st_db s)) now) x5 = Some x60"
    and "rows (st_db s') = prune HOUR (hr_cut now) (prune FIVE_MIN (fm_cut now) (prune RAW (raw_cut now) x60))"
    and "metrics (st_db s') = filter (\<lambda>(i, _). i \<in> mids (rows (st_db s'))) (metrics (st_db s))"
    and "last_compact True (st_db s') = now" and "inner (st_ids s') = []" and "db_ok (st_db s')"
proof (cases rule: try_compact_cases [OF assms(1), case_names completed memo_poisoned rolled_back])
  case (completed t)
  obtain x where x: "d_samples (st_db s) = Some x" using assms(2) by (auto simp: db_ok_def)
  then have "d_samples (t_db \<lparr>t_db = st_db s, t_ids = st_ids s, t_step = 1\<rparr>) = Some x" by simp
  note eff = compact_stmts_Ok [OF completed(2) this]
  have "db_ok (st_db s')" using compact_db [OF assms(2), of ok now] assms(1) by (simp add: compact_store_def)
  moreover have "rows (st_db s) = x" using x by (simp add: rows_def)
  ultimately show ?thesis by (rule_tac eff) (rule that, use completed(3) in simp_all)
qed auto

end
