(* ===== verification/Store_Rollup.thy ===== *)
theory Store_Rollup
  imports Store_Inv
begin

text \<open>
  What compaction computes: the tiers after a compaction as a function of the tiers before it,
  and the machine of a regular schedule (a compaction at most 301 seconds after the last, and
  samples not older than the five-minute bucket of the last compaction), in which every closed
  five-minute bucket is the aggregate of all the samples ever written to it.
\<close>

section \<open>Bucket arithmetic\<close>

text \<open>A time that the clock can show for the next hundred billion years.\<close>

definition time_ok :: "i64 \<Rightarrow> bool" where
  "time_ok t \<longleftrightarrow> 0 \<le> t \<and> t < 2 ^ 62"

lemma bucket_of_eq: "0 \<le> t \<Longrightarrow> 0 < w \<Longrightarrow> bucket_of w t = t div w * w"
  by (simp add: bucket_of_def)

lemma bucket_bounds: "0 \<le> t \<Longrightarrow> 0 < w \<Longrightarrow> bucket_of w t \<le> t \<and> t < bucket_of w t + w \<and> w dvd bucket_of w t"
proof -
  assume "0 \<le> t" "0 < w"
  have "t div w * w + t mod w = t" by (rule div_mult_mod_eq)
  moreover have "0 \<le> t mod w" "t mod w < w" using \<open>0 < w\<close> by simp_all
  ultimately have "t div w * w \<le> t" "t < t div w * w + w" by linarith+
  then show ?thesis using \<open>0 \<le> t\<close> \<open>0 < w\<close> by (simp add: bucket_of_eq)
qed

lemma ceil_bucket_eq:
  assumes "0 < t" and "0 < w" and "t + w \<le> i64_max"
  shows "ceil_bucket t w = (t + w - 1) div w * w"
proof -
  have "0 \<le> t + w - 1" using assms by simp
  moreover have "(t + w - 1) div w * w \<le> t + w - 1" "0 \<le> (t + w - 1) div w * w"
    using assms bucket_bounds [of "t + w - 1" w] by (auto simp: bucket_of_eq pos_imp_zdiv_nonneg_iff)
  ultimately show ?thesis
    using assms by (simp add: ceil_bucket_def in_i64_def i64_bounds)
qed

lemma ceil_bucket_spec:
  assumes "0 < w" and "t + w \<le> i64_max"
  shows "w dvd ceil_bucket t w \<and> 0 \<le> ceil_bucket t w \<and> t \<le> ceil_bucket t w
    \<and> (\<forall>b. w dvd b \<longrightarrow> 0 \<le> b \<longrightarrow> t \<le> b \<longrightarrow> ceil_bucket t w \<le> b)"
proof (cases "0 < t")
  case False
  then show ?thesis by (simp add: ceil_bucket_def)
next
  case True
  note eq = ceil_bucket_eq [OF True assms]
  have "(t + w - 1) div w * w + (t + w - 1) mod w = t + w - 1" by (rule div_mult_mod_eq)
  moreover have "(t + w - 1) mod w < w" using assms by simp
  ultimately have "t \<le> (t + w - 1) div w * w" by linarith
  moreover have "(t + w - 1) div w * w \<le> b" if b: "w dvd b" "t \<le> b" for b
  proof -
    from b(1) obtain q where q: "b = w * q" by (rule dvdE)
    have "t + w - 1 < (q + 1) * w" using b(2) q by (simp add: algebra_simps)
    moreover have "(t + w - 1) div w * w \<le> t + w - 1"
      using bucket_bounds [of "t + w - 1" w] True assms by (simp add: bucket_of_eq)
    ultimately have "(t + w - 1) div w * w < (q + 1) * w" by linarith
    then have "(t + w - 1) div w < q + 1" using assms(1) by (simp only: mult_less_cancel_right_pos)
    then show ?thesis using assms(1) q by (simp add: mult.commute)
  qed
  ultimately show ?thesis
    using True assms by (auto simp: eq pos_imp_zdiv_nonneg_iff)
qed

lemma cuts:
  assumes "time_ok now"
  shows "raw_cut now = now - RAW_RETENTION" "fm_cut now = now - FIVE_MIN_RETENTION"
    "hr_cut now = now - HOUR_RETENTION"
    "wrap_i64 (now - 600) = now - 600" "wrap_i64 (now - 7200) = now - 7200"
  using assms
  by (simp_all add: time_ok_def raw_cut_def fm_cut_def hr_cut_def RAW_RETENTION_def FIVE_MIN_RETENTION_def
      HOUR_RETENTION_def FIVE_MIN_def HOUR_def in_i64_def i64_bounds)

text \<open>
  The roll-ups start inside the retained window, and on a regular schedule not after the bucket
  of the last compaction.
\<close>

lemma lo5_bounds:
  assumes "time_ok now"
  shows "now - RAW_RETENTION \<le> lo5 prev now" and "0 \<le> lo5 prev now" and "300 dvd lo5 prev now"
    and "time_ok prev \<Longrightarrow> now \<le> prev + 301 \<Longrightarrow> lo5 prev now \<le> bucket_of 300 prev"
proof -
  let ?x = "max (min prev (now - 600)) (now - 172800)"
  have x: "lo5 prev now = ceil_bucket ?x 300"
    by (simp add: lo5_def cuts [OF assms] FIVE_MIN_def RAW_RETENTION_def)
  have "?x + 300 \<le> i64_max" using assms by (auto simp: time_ok_def i64_bounds)
  note spec = ceil_bucket_spec [OF _ this, simplified]
  show "now - RAW_RETENTION \<le> lo5 prev now" "0 \<le> lo5 prev now" "300 dvd lo5 prev now"
    using spec by (auto simp: x RAW_RETENTION_def)
  assume prev: "time_ok prev" "now \<le> prev + 301"
  have b: "300 dvd bucket_of 300 prev" "prev - 299 \<le> bucket_of 300 prev" "0 \<le> bucket_of 300 prev"
    using bucket_bounds [of prev 300] prev(1) by (auto simp: time_ok_def bucket_of_eq)
  have "?x \<le> bucket_of 300 prev" using prev(2) b(2) by auto
  with spec b(1,3) have "ceil_bucket ?x 300 \<le> bucket_of 300 prev" by (elim conjE allE impE) simp_all
  then show "lo5 prev now \<le> bucket_of 300 prev" by (simp only: x)
qed

lemma lo60_bounds:
  assumes "time_ok now"
  shows "now - FIVE_MIN_RETENTION \<le> lo60 prev now" and "0 \<le> lo60 prev now" and "3600 dvd lo60 prev now"
    and "3600 dvd h \<Longrightarrow> 0 \<le> h \<Longrightarrow> now - 7200 \<le> h \<Longrightarrow> lo60 prev now \<le> h"
proof -
  let ?x = "max (min prev (now - 7200)) (now - 2592000)"
  have x: "lo60 prev now = ceil_bucket ?x 3600"
    by (simp add: lo60_def cuts [OF assms] HOUR_def FIVE_MIN_RETENTION_def)
  have "?x + 3600 \<le> i64_max" using assms by (auto simp: time_ok_def i64_bounds)
  note spec = ceil_bucket_spec [OF _ this, simplified]
  show "now - FIVE_MIN_RETENTION \<le> lo60 prev now" "0 \<le> lo60 prev now" "3600 dvd lo60 prev now"
    using spec by (auto simp: x FIVE_MIN_RETENTION_def)
  assume h: "3600 dvd h" "0 \<le> h" "now - 7200 \<le> h"
  then have "?x \<le> h" by auto
  with spec h(1,2) have "ceil_bucket ?x 3600 \<le> h" by (elim conjE allE impE) simp_all
  then show "lo60 prev now \<le> h" by (simp only: x)
qed

section \<open>The tiers after a compaction\<close>

lemma sorted_table_ext:
  assumes "sorted_table a" and "sorted_table b" and "\<And>k. row_at a k = row_at b k"
  shows "a = b"
proof -
  have "set a = set b"
  proof (rule set_eqI)
    fix r :: "key \<times> sample"
    show "r \<in> set a \<longleftrightarrow> r \<in> set b"
      using row_at_in_set [OF assms(1), of "fst r" "snd r"] row_at_in_set [OF assms(2), of "fst r" "snd r"] assms(3)
      by simp
  qed
  moreover have "sorted (map fst t) \<and> distinct (map fst t)" if "sorted_table t" for t
    using that by (simp add: sorted_table_def strict_sorted_iff)
  moreover have "inj_on fst (set a)" using calculation(2) [OF assms(1)] by (simp add: distinct_map)
  ultimately show ?thesis using assms(1,2) by (intro map_sorted_distinct_set_unique [of fst]) auto
qed

lemma sorted_by_time:
  assumes "sorted_table t" and "\<forall>r\<in>set t. k_res (fst r) = res \<and> k_mid (fst r) = i"
  shows "sorted_wrt (\<lambda>a b. k_ts (fst a) < k_ts (fst b)) t"
  using assms
proof (induction t)
  case (Cons r t)
  obtain k v where r: "r = (k, v)" by (cases r)
  have "k_ts k < k_ts k'" if "(k', v') \<in> set t" for k' v'
    using that Cons.prems r by (cases k; cases k') (force simp: sorted_table_def less_key_iff)
  with Cons r show ?case by (auto simp: sorted_table_def)
qed simp

lemma sorted_prune [simp]: "sorted_table t \<Longrightarrow> sorted_table (prune r c t)"
  by (simp add: prune_def)

lemma row_at_prune:
  "sorted_table t \<Longrightarrow> row_at (prune r c t) k = (if k_res k = r \<and> k_ts k < c then None else row_at t k)"
  unfolding prune_def by (subst row_at_select) (auto split: option.split)

lemma row_at_bucket_rows:
  "sorted_table t \<Longrightarrow>
   row_at (bucket_rows w src lo t b m) k =
     (if k_res k = src \<and> lo \<le> k_ts k \<and> k_mid k = m \<and> bucket_of w (k_ts k) = b then row_at t k else None)"
  unfolding bucket_rows_def by (subst row_at_select) (auto split: option.split)

lemma sorted_bucket_rows [simp]: "sorted_table t \<Longrightarrow> sorted_table (bucket_rows w src lo t b m)"
  by (simp add: bucket_rows_def)

lemma bucket_rows_cong:
  assumes "sorted_table t" and "sorted_table t'"
    and "\<And>ts. bucket_of w ts = b \<Longrightarrow> (lo \<le> ts \<or> lo' \<le> ts) \<Longrightarrow>
      lo \<le> ts \<and> lo' \<le> ts \<and> row_at t (Key src ts m) = row_at t' (Key src ts m)"
  shows "bucket_rows w src lo t b m = bucket_rows w src lo' t' b m"
proof (rule sorted_table_ext)
  fix k
  show "row_at (bucket_rows w src lo t b m) k = row_at (bucket_rows w src lo' t' b m) k"
    using assms by (cases k) (auto simp: row_at_bucket_rows)
qed (use assms in simp_all)

lemma bucket_rows_Nil_iff:
  "sorted_table t \<Longrightarrow>
   bucket_rows w src lo t b m = [] \<longleftrightarrow>
     (\<forall>ts. lo \<le> ts \<longrightarrow> bucket_of w ts = b \<longrightarrow> row_at t (Key src ts m) = None)"
  by (auto simp: bucket_rows_def select_def filter_empty_conv row_at_in_set
      simp flip: not_Some_eq)

text \<open>The expected contents of a tier: what the roll-up computes from the rows of the tier below.\<close>

definition rolled_row :: "i64 \<Rightarrow> i64 \<Rightarrow> i64 \<Rightarrow> samples \<Rightarrow> i64 \<Rightarrow> i64 \<Rightarrow> sample option" where
  "rolled_row w src lo t b m =
     (let g = bucket_rows w src lo t b m in if g = [] then None else agg g)"

lemma compaction_tiers:
  assumes ok: "db_ok (st_db s)" and now: "time_ok now" and run: "try_compact ok now s = (Ok u, s')"
  defines "old \<equiv> rows (st_db s)" and "new \<equiv> rows (st_db s')" and "prev \<equiv> last_compact (ok 0) (st_db s)"
  shows "row_at new (Key RAW t m) = (if t < now - RAW_RETENTION then None else row_at old (Key RAW t m))"
    and "row_at new (Key FIVE_MIN b m) =
      (if b < now - FIVE_MIN_RETENTION then None
       else if bucket_rows FIVE_MIN RAW (lo5 prev now) old b m \<noteq> []
       then agg (bucket_rows FIVE_MIN RAW (lo5 prev now) old b m)
       else row_at old (Key FIVE_MIN b m))"
    and "row_at new (Key HOUR b m) =
      (if b < now - HOUR_RETENTION then None
       else if bucket_rows HOUR FIVE_MIN (lo60 prev now) new b m \<noteq> []
       then agg (bucket_rows HOUR FIVE_MIN (lo60 prev now) new b m)
       else row_at old (Key HOUR b m))"
    and "last_compact True (st_db s') = now"
    and "metrics (st_db s') = filter (\<lambda>(i, _). i \<in> mids new) (metrics (st_db s))"
    and "inner (st_ids s') = []"
proof -
  obtain x5 x60 where r5: "rollup FIVE_MIN RAW (lo5 prev now) old = Some x5"
    and r60: "rollup HOUR FIVE_MIN (lo60 prev now) x5 = Some x60"
    and new: "new = prune HOUR (hr_cut now) (prune FIVE_MIN (fm_cut now) (prune RAW (raw_cut now) x60))"
    and rest: "metrics (st_db s') = filter (\<lambda>(i, _). i \<in> mids new) (metrics (st_db s))"
      "last_compact True (st_db s') = now" "inner (st_ids s') = []" "db_ok (st_db s')"
    using compaction_Ok [OF run ok] unfolding old_def new_def prev_def by blast
  have old: "sorted_table old" using ok by (simp add: db_ok_def table_ok_def old_def)
  have x5: "sorted_table x5" using old r5 by (rule sorted_rollup)
  have x60: "sorted_table x60" using x5 r60 by (rule sorted_rollup)
  have at5: "row_at x5 (Key r b m) = (if r = FIVE_MIN \<and> bucket_rows FIVE_MIN RAW (lo5 prev now) old b m \<noteq> []
      then agg (bucket_rows FIVE_MIN RAW (lo5 prev now) old b m) else row_at old (Key r b m))" for r b m
    by (rule row_at_rollup [OF old _ r5]) (simp add: FIVE_MIN_def)
  have at60: "row_at x60 (Key r b m) = (if r = HOUR \<and> bucket_rows HOUR FIVE_MIN (lo60 prev now) x5 b m \<noteq> []
      then agg (bucket_rows HOUR FIVE_MIN (lo60 prev now) x5 b m) else row_at x5 (Key r b m))" for r b m
    by (rule row_at_rollup [OF x5 _ r60]) (simp add: HOUR_def)
  have atn: "row_at new (Key r b m) =
      (if r = RAW \<and> b < now - RAW_RETENTION \<or> r = FIVE_MIN \<and> b < now - FIVE_MIN_RETENTION
          \<or> r = HOUR \<and> b < now - HOUR_RETENTION then None else row_at x60 (Key r b m))" for r b m
    using x60 by (simp add: new row_at_prune cuts [OF now])
  have res: "RAW \<noteq> FIVE_MIN" "RAW \<noteq> HOUR" "FIVE_MIN \<noteq> HOUR" by (simp_all add: RAW_def FIVE_MIN_def HOUR_def)
  show "row_at new (Key RAW t m) = (if t < now - RAW_RETENTION then None else row_at old (Key RAW t m))"
    using res by (simp add: atn at60 at5)
  show "row_at new (Key FIVE_MIN b m) = (if b < now - FIVE_MIN_RETENTION then None
       else if bucket_rows FIVE_MIN RAW (lo5 prev now) old b m \<noteq> []
       then agg (bucket_rows FIVE_MIN RAW (lo5 prev now) old b m) else row_at old (Key FIVE_MIN b m))"
    using res by (simp add: atn at60 at5)
  have "bucket_rows HOUR FIVE_MIN (lo60 prev now) x5 b m = bucket_rows HOUR FIVE_MIN (lo60 prev now) new b m"
  proof (rule bucket_rows_cong)
    show "sorted_table new" using x60 by (simp add: new)
  qed (use x5 res lo60_bounds(1) [OF now, of prev] in \<open>auto simp: atn at60\<close>)
  then show "row_at new (Key HOUR b m) = (if b < now - HOUR_RETENTION then None
       else if bucket_rows HOUR FIVE_MIN (lo60 prev now) new b m \<noteq> []
       then agg (bucket_rows HOUR FIVE_MIN (lo60 prev now) new b m) else row_at old (Key HOUR b m))"
    using res by (simp add: atn at60 at5)
  show "last_compact True (st_db s') = now" "metrics (st_db s') = filter (\<lambda>(i, _). i \<in> mids new) (metrics (st_db s))"
    "inner (st_ids s') = []"
    by (fact rest)+
qed

section \<open>A regular schedule\<close>

text \<open>
  The machine of the store with a ghost table, the log: every raw sample that was ever committed.
  Writes may fail; samples are not older than the bucket in which the last compaction ran, and the
  next compaction comes at most 301 seconds after it.
\<close>

definition logged :: "i64 \<Rightarrow> db \<Rightarrow> samples \<Rightarrow> samples" where
  "logged ts d ghost = upsert_all (select (\<lambda>(k, _). k_res k = RAW \<and> k_ts k = ts) (rows d)) ghost"

definition sched_init :: "(i64 list \<Rightarrow> i64) \<Rightarrow> samples \<times> store \<Rightarrow> bool" where
  "sched_init f c \<longleftrightarrow>
     rowid_ok f \<and> fst c = [] \<and> db_ok (st_db (snd c)) \<and> rows (st_db (snd c)) = []
     \<and> time_ok (last_compact True (st_db (snd c)))"

inductive sched_step :: "(i64 list \<Rightarrow> i64) \<Rightarrow> samples \<times> store \<Rightarrow> samples \<times> store \<Rightarrow> bool"
  for f :: "i64 list \<Rightarrow> i64" where
  sched_write:
    "try_write ok f ts pts s = (r, s') \<Longrightarrow> bucket_of 300 (last_compact True (st_db s)) \<le> as_i64 ts \<Longrightarrow>
     sched_step f (ghost, s) (logged (as_i64 ts) (st_db s') ghost, s')"
| sched_compact:
    "try_compact ok now s = (Ok u, s') \<Longrightarrow> ok 0 \<Longrightarrow> time_ok now \<Longrightarrow>
     last_compact True (st_db s) < now \<Longrightarrow> now \<le> last_compact True (st_db s) + 301 \<Longrightarrow>
     sched_step f (ghost, s) (ghost, s')"

definition sched_inv :: "(i64 list \<Rightarrow> i64) \<Rightarrow> samples \<times> store \<Rightarrow> bool" where
  "sched_inv f c \<longleftrightarrow>
     (let ghost = fst c; t = rows (st_db (snd c)); prev = last_compact True (st_db (snd c))
      in rowid_ok f \<and> db_ok (st_db (snd c)) \<and> sorted_table ghost \<and> time_ok prev
         \<and> (\<forall>ts m. prev - RAW_RETENTION \<le> ts \<longrightarrow> row_at t (Key RAW ts m) = row_at ghost (Key RAW ts m))
         \<and> (\<forall>b m. row_at t (Key FIVE_MIN b m) \<noteq> None \<longrightarrow> bucket_rows FIVE_MIN RAW 0 ghost b m \<noteq> [])
         \<and> (\<forall>b m. 300 dvd b \<longrightarrow> prev - FIVE_MIN_RETENTION \<le> b \<longrightarrow> b < bucket_of 300 prev \<longrightarrow>
              row_at t (Key FIVE_MIN b m) = rolled_row FIVE_MIN RAW 0 ghost b m))"

lemma sched_invD:
  assumes "sched_inv f (ghost, s)"
  defines "prev \<equiv> last_compact True (st_db s)"
  shows "rowid_ok f" and "db_ok (st_db s)" and "sorted_table ghost" and "time_ok prev"
    and "prev - RAW_RETENTION \<le> ts \<Longrightarrow> row_at (rows (st_db s)) (Key RAW ts m) = row_at ghost (Key RAW ts m)"
    and "row_at (rows (st_db s)) (Key FIVE_MIN b m) \<noteq> None \<Longrightarrow> bucket_rows FIVE_MIN RAW 0 ghost b m \<noteq> []"
    and "300 dvd b \<Longrightarrow> prev - FIVE_MIN_RETENTION \<le> b \<Longrightarrow> b < bucket_of 300 prev \<Longrightarrow>
      row_at (rows (st_db s)) (Key FIVE_MIN b m) = rolled_row FIVE_MIN RAW 0 ghost b m"
  using assms(1) unfolding sched_inv_def Let_def fst_conv snd_conv prev_def by iprover+

lemma row_at_logged:
  assumes "sorted_table ghost" and "db_ok d"
  shows "row_at (logged ts d ghost) (Key RAW t m) =
    (if t = ts then (case row_at (rows d) (Key RAW t m) of None \<Rightarrow> row_at ghost (Key RAW t m) | Some v \<Rightarrow> Some v)
     else row_at ghost (Key RAW t m))"
proof -
  let ?new = "select (\<lambda>(k, _). k_res k = RAW \<and> k_ts k = ts) (rows d)"
  have s: "sorted_table (rows d)" using assms(2) by (simp add: db_ok_def table_ok_def)
  then have "distinct (map fst ?new)"
    using sorted_select by (simp add: sorted_table_def strict_sorted_iff)
  moreover have "map_of ?new k = row_at ?new k" for k by (simp add: row_at_def)
  ultimately show ?thesis
    using assms(1) by (auto simp: logged_def row_at_upsert_all row_at_select [OF s] split: option.splits)
qed

lemma sorted_logged: "sorted_table ghost \<Longrightarrow> sorted_table (logged ts d ghost)"
  by (simp add: logged_def)

lemma bucket_mono: "0 \<le> s \<Longrightarrow> s \<le> t \<Longrightarrow> 0 < w \<Longrightarrow> bucket_of w s \<le> bucket_of w t"
  by (simp add: bucket_of_eq zdiv_mono1 mult_right_mono)

text \<open>What is not older than the open bucket belongs to it or to a later one.\<close>

lemma open_bucket:
  assumes "bucket_of 300 prev \<le> t" and "0 \<le> prev"
  shows "bucket_of 300 prev \<le> bucket_of 300 t"
proof -
  have "0 \<le> prev div 300 * 300" using assms(2) by (simp add: pos_imp_zdiv_nonneg_iff)
  then have "bucket_of 300 (bucket_of 300 prev) = bucket_of 300 prev" "0 \<le> bucket_of 300 prev"
    using assms(2) by (simp_all add: bucket_of_eq)
  with assms(1) bucket_mono [of "bucket_of 300 prev" t 300] show ?thesis by simp
qed

lemma sched_write_inv:
  assumes inv: "sched_inv f (ghost, s)" and run: "try_write ok f ts pts s = (r, s')"
    and late: "bucket_of 300 (last_compact True (st_db s)) \<le> as_i64 ts"
  shows "sched_inv f (logged (as_i64 ts) (st_db s') ghost, s')"
proof -
  let ?T = "as_i64 ts" and ?prev = "last_compact True (st_db s)"
  let ?t = "rows (st_db s)" and ?t' = "rows (st_db s')" and ?g = "logged (as_i64 ts) (st_db s') ghost"
  have ok: "rowid_ok f" "db_ok (st_db s)" "sorted_table ghost" "time_ok ?prev"
    and raw: "\<And>ts m. ?prev - RAW_RETENTION \<le> ts \<Longrightarrow> row_at ?t (Key RAW ts m) = row_at ghost (Key RAW ts m)"
    and five: "\<And>b m. row_at ?t (Key FIVE_MIN b m) \<noteq> None \<Longrightarrow> bucket_rows FIVE_MIN RAW 0 ghost b m \<noteq> []"
    and closed: "\<And>b m. 300 dvd b \<Longrightarrow> ?prev - FIVE_MIN_RETENTION \<le> b \<Longrightarrow> b < bucket_of 300 ?prev \<Longrightarrow>
      row_at ?t (Key FIVE_MIN b m) = rolled_row FIVE_MIN RAW 0 ghost b m"
    by (fact sched_invD [OF inv])+
  from try_write_frame [OF ok(1,2) run]
  have ok': "db_ok (st_db s')" and meta: "d_meta (st_db s') = d_meta (st_db s)"
    and kept: "\<And>k. row_at ?t k \<noteq> None \<Longrightarrow> row_at ?t' k \<noteq> None"
    and frame: "\<And>k. k_res k \<noteq> RAW \<or> k_ts k \<noteq> ?T \<Longrightarrow> row_at ?t' k = row_at ?t k"
    by (auto simp: write_frame_def)
  have prev: "last_compact True (st_db s') = ?prev" using meta by (simp add: last_compact_def)
  note g = row_at_logged [OF ok(3) ok', of ?T]
  have sg: "sorted_table ?g" using ok(3) by (rule sorted_logged)
  have f5: "row_at ?t' (Key FIVE_MIN b m) = row_at ?t (Key FIVE_MIN b m)" for b m
    by (rule frame) (simp add: RAW_def FIVE_MIN_def)
  have grow: "row_at ghost (Key RAW t m) \<noteq> None \<Longrightarrow> row_at ?g (Key RAW t m) \<noteq> None" for t m
    by (auto simp: g split: option.split)
  have "row_at ?t' (Key RAW t m) = row_at ?g (Key RAW t m)" if t: "?prev - RAW_RETENTION \<le> t" for t m
  proof (cases "row_at ?t' (Key RAW t m)")
    case None
    then have "row_at ?t (Key RAW t m) = None" using kept by blast
    with None raw [OF t, of m] show ?thesis by (cases "t = ?T") (simp_all add: g)
  next
    case (Some v)
    with raw [OF t, of m] frame [of "Key RAW t m"] show ?thesis by (cases "t = ?T") (simp_all add: g)
  qed
  moreover have "bucket_rows FIVE_MIN RAW 0 ?g b m \<noteq> []" if "row_at ?t' (Key FIVE_MIN b m) \<noteq> None" for b m
    using five [of b m] that grow unfolding f5 bucket_rows_Nil_iff [OF sg] bucket_rows_Nil_iff [OF ok(3)] by blast
  moreover have "row_at ?t' (Key FIVE_MIN b m) = rolled_row FIVE_MIN RAW 0 ?g b m"
    if b: "300 dvd b" "?prev - FIVE_MIN_RETENTION \<le> b" "b < bucket_of 300 ?prev" for b m
  proof -
    have "bucket_of 300 ?T \<noteq> b" using open_bucket [OF late] ok(4) b(3) by (simp add: time_ok_def)
    then have "bucket_rows FIVE_MIN RAW 0 ghost b m = bucket_rows FIVE_MIN RAW 0 ?g b m"
      by (intro bucket_rows_cong [OF ok(3) sg]) (auto simp: g FIVE_MIN_def)
    with closed [OF b, of m] show ?thesis by (simp add: f5 rolled_row_def)
  qed
  ultimately show ?thesis
    using ok(1,4) ok' sg by (simp add: sched_inv_def Let_def prev del: not_None_eq)
qed

text \<open>Inside the rolled-up range the raw rows are the logged ones.\<close>

lemma window_rows:
  assumes inv: "sched_inv f (ghost, s)" and now: "time_ok now" and before: "last_compact True (st_db s) \<le> now"
    and b: "lo5 prev now \<le> b"
  shows "bucket_rows FIVE_MIN RAW (lo5 prev now) (rows (st_db s)) b m = bucket_rows FIVE_MIN RAW 0 ghost b m"
proof (rule bucket_rows_cong)
  note lo = lo5_bounds(1,2) [OF now, of prev]
  fix t assume t: "bucket_of FIVE_MIN t = b" and "lo5 prev now \<le> t \<or> 0 \<le> t"
  then have "0 \<le> t" using lo(2) by linarith
  then have "b \<le> t" using bucket_bounds [of t 300] t by (simp add: FIVE_MIN_def)
  then show "lo5 prev now \<le> t \<and> 0 \<le> t \<and> row_at (rows (st_db s)) (Key RAW t m) = row_at ghost (Key RAW t m)"
    using b lo \<open>0 \<le> t\<close> before by (intro conjI sched_invD(5) [OF inv]) linarith+
qed (use sched_invD(2,3) [OF inv] in \<open>auto simp: db_ok_def table_ok_def\<close>)

lemma sched_compact_inv:
  assumes inv: "sched_inv f (ghost, s)" and run: "try_compact ok now s = (Ok u, s')"
    and "ok 0" and now: "time_ok now" and before: "last_compact True (st_db s) < now"
    and gap: "now \<le> last_compact True (st_db s) + 301"
  shows "sched_inv f (ghost, s')"
proof -
  let ?prev = "last_compact True (st_db s)" and ?lo = "lo5 (last_compact True (st_db s)) now"
  let ?t = "rows (st_db s)" and ?t' = "rows (st_db s')"
  have ok: "rowid_ok f" "db_ok (st_db s)" "sorted_table ghost" "time_ok ?prev"
    and raw: "\<And>ts m. ?prev - RAW_RETENTION \<le> ts \<Longrightarrow> row_at ?t (Key RAW ts m) = row_at ghost (Key RAW ts m)"
    and five: "\<And>b m. row_at ?t (Key FIVE_MIN b m) \<noteq> None \<Longrightarrow> bucket_rows FIVE_MIN RAW 0 ghost b m \<noteq> []"
    and closed: "\<And>b m. 300 dvd b \<Longrightarrow> ?prev - FIVE_MIN_RETENTION \<le> b \<Longrightarrow> b < bucket_of 300 ?prev \<Longrightarrow>
      row_at ?t (Key FIVE_MIN b m) = rolled_row FIVE_MIN RAW 0 ghost b m"
    by (fact sched_invD [OF inv])+
  have st: "sorted_table ?t" using ok(2) by (simp add: db_ok_def table_ok_def)
  note tiers = compaction_tiers [OF ok(2) now run, unfolded eqTrueI [OF \<open>ok 0\<close>]]
  note lo = lo5_bounds [OF now, of ?prev]
  have ok': "db_ok (st_db s')" using compaction_Ok [OF run ok(2)] by blast
  note same = window_rows [OF inv now less_imp_le [OF before]]
  have outside: "bucket_rows FIVE_MIN RAW ?lo ?t b m = []" if b: "b < ?lo" "300 dvd b" for b m
  proof -
    have "bucket_of FIVE_MIN t \<noteq> b" if "?lo \<le> t" for t
      using bucket_mono [of ?lo t 300] lo(2,3) that b
      by (auto simp: FIVE_MIN_def bucket_of_eq)
    then show ?thesis by (auto simp: bucket_rows_Nil_iff [OF st])
  qed
  have rolled: "row_at ?t' (Key FIVE_MIN b m) = rolled_row FIVE_MIN RAW 0 ghost b m"
    if b: "300 dvd b" "now - FIVE_MIN_RETENTION \<le> b" "b < bucket_of 300 now" for b m
  proof (cases "?lo \<le> b")
    case True
    then show ?thesis
      using b five [of b m] by (auto simp: tiers(2) same [OF True] rolled_row_def)
  next
    case False
    with lo(4) ok(4) gap have "b < bucket_of 300 ?prev" by linarith
    with False b before closed [OF b(1)] show ?thesis by (simp add: tiers(2) outside)
  qed
  have some: "bucket_rows FIVE_MIN RAW 0 ghost b m \<noteq> []" if "row_at ?t' (Key FIVE_MIN b m) \<noteq> None" for b m
  proof (cases "bucket_rows FIVE_MIN RAW ?lo ?t b m = []")
    case True
    with that five [of b m] show ?thesis by (simp add: tiers(2) split: if_splits)
  next
    case False
    then obtain t where t: "?lo \<le> t" "bucket_of FIVE_MIN t = b" "row_at ?t (Key RAW t m) \<noteq> None"
      by (auto simp: bucket_rows_Nil_iff [OF st])
    then have "row_at ghost (Key RAW t m) \<noteq> None" using raw [of t m] lo(1) before by simp
    moreover have "0 \<le> t" using t(1) lo(2) by linarith
    ultimately show ?thesis
      using t(2) bucket_rows_Nil_iff [OF ok(3), of FIVE_MIN RAW 0 b m] by metis
  qed
  have "row_at ?t' (Key RAW t m) = row_at ghost (Key RAW t m)" if "now - RAW_RETENTION \<le> t" for t m
    using that raw [of t m] before by (simp add: tiers(1))
  with ok(1,3) ok' now some rolled show ?thesis
    by (simp add: sched_inv_def Let_def tiers(4) del: not_None_eq)
qed

lemma last_compact_eq: "last_compact True d = (case d_meta d of None \<Rightarrow> 0
    | Some m \<Rightarrow> (case map_of m ''last_compact'' of None \<Rightarrow> 0 | Some v \<Rightarrow> v))"
  by (simp add: last_compact_def)

lemma sched_init_inv: "sched_init f c \<Longrightarrow> sched_inv f c"
  by (cases c) (simp add: sched_init_def sched_inv_def Let_def sorted_table_def row_at_def rolled_row_def
      bucket_rows_def select_def)

interpretation sched: invariant_of "sched_init f" "sched_step f" "sched_inv f"
  for f :: "i64 list \<Rightarrow> i64"
proof unfold_locales
  fix c d
  assume "sched_step f c d" and "sched_inv f c"
  then show "sched_inv f d"
    by (cases rule: sched_step.cases) (auto intro: sched_write_inv sched_compact_inv)
qed (rule sched_init_inv)

end
