(* ===== verification/Store_Hours.thy ===== *)
theory Store_Hours
  imports Store_Rollup
begin

text \<open>
  The hour tier on a regular schedule: an hour is built from its five-minute rows, which are
  exact by then, so it is the aggregate of all the raw samples ever written to it.
\<close>

section \<open>Aggregates of aggregates\<close>

lemma agg_sum:
  "agg g = Some v \<Longrightarrow> s_avg v * of_int (s_n v) = sum_list (map (\<lambda>(_, v). s_avg v * of_int (s_n v)) g)
    \<and> s_n v = sum_list (map (\<lambda>(_, v). s_n v) g)
    \<and> s_min v = Min (set (map (\<lambda>(_, v). s_min v) g)) \<and> s_max v = Max (set (map (\<lambda>(_, v). s_max v) g))"
  by (auto simp: agg_def Let_def split: if_splits)

lemma agg_parts:
  assumes "list_all2 (\<lambda>g v. g \<noteq> [] \<and> agg g = Some v) gs vs"
  shows "sum_list (map (\<lambda>v. s_avg v * of_int (s_n v)) vs) = sum_list (map (\<lambda>(_, v). s_avg v * of_int (s_n v)) (concat gs))
    \<and> sum_list (map s_n vs) = sum_list (map (\<lambda>(_, v). s_n v) (concat gs))"
  using assms by (induction rule: list_all2_induct) (auto dest: agg_sum)

lemma Min_concat:
  fixes h :: "'a \<Rightarrow> 'c :: linorder" and f :: "'b \<Rightarrow> 'c"
  assumes "list_all2 (\<lambda>g v. g \<noteq> [] \<and> f v = Min (h ` set g)) gs vs"
  shows "Min (f ` set vs) = Min (h ` set (concat gs))"
  using assms
proof (induction rule: list_all2_induct)
  case (Cons g gs v vs)
  show ?case
  proof (cases "vs = []")
    case True
    with Cons show ?thesis by simp
  next
    case False
    with Cons(2) have "concat gs \<noteq> []" by (cases gs) (auto simp: list_all2_Cons1)
    then have "Min (h ` set g \<union> h ` set (concat gs)) = min (Min (h ` set g)) (Min (h ` set (concat gs)))"
      using Cons(1) by (intro Min_Un) (auto simp del: set_concat)
    then show ?thesis
      using Cons False by (simp add: image_Un del: set_concat)
  qed
qed simp

lemma Max_concat:
  fixes h :: "'a \<Rightarrow> 'c :: linorder" and f :: "'b \<Rightarrow> 'c"
  assumes "list_all2 (\<lambda>g v. g \<noteq> [] \<and> f v = Max (h ` set g)) gs vs"
  shows "Max (f ` set vs) = Max (h ` set (concat gs))"
  using assms
proof (induction rule: list_all2_induct)
  case (Cons g gs v vs)
  show ?case
  proof (cases "vs = []")
    case True
    with Cons show ?thesis by simp
  next
    case False
    with Cons(2) have "concat gs \<noteq> []" by (cases gs) (auto simp: list_all2_Cons1)
    then have "Max (h ` set g \<union> h ` set (concat gs)) = max (Max (h ` set g)) (Max (h ` set (concat gs)))"
      using Cons(1) by (intro Max_Un) (auto simp del: set_concat)
    then show ?thesis
      using Cons False by (simp add: image_Un del: set_concat)
  qed
qed simp

text \<open>
  Rolling up in two stages loses nothing: the aggregate of the aggregates of the parts is the
  aggregate of all their rows.
\<close>

theorem rollups_compose:
  assumes "list_all2 (\<lambda>g v. g \<noteq> [] \<and> agg g = Some v) gs vs"
  shows "agg (map (Pair k) vs) = agg (concat gs)"
proof -
  have "Min (s_min ` set vs) = Min ((\<lambda>(_, v). s_min v) ` set (concat gs))"
    by (rule Min_concat [OF list_all2_mono [OF assms]]) (use agg_sum in fastforce)
  moreover have "Max (s_max ` set vs) = Max ((\<lambda>(_, v). s_max v) ` set (concat gs))"
    by (rule Max_concat [OF list_all2_mono [OF assms]]) (use agg_sum in fastforce)
  ultimately show ?thesis
    using agg_parts [OF assms] by (simp add: agg_def Let_def comp_def del: set_concat)
qed

lemma map_values: "map (\<lambda>(_, v). x v) g = map x (map snd g)"
  by (induction g) auto

lemma agg_values: "map snd g = map snd g' \<Longrightarrow> agg g = agg g'"
  unfolding agg_def by (simp only: map_values)

text \<open>A list sorted by a value falls into the parts with one value each.\<close>

lemma least_first:
  fixes f :: "'a \<Rightarrow> 'b :: linorder"
  shows "sorted (map f xs) \<Longrightarrow> \<forall>x\<in>set xs. b \<le> f x \<Longrightarrow> filter (\<lambda>x. f x = b) xs @ filter (\<lambda>x. f x \<noteq> b) xs = xs"
proof (induction xs)
  case (Cons x xs)
  show ?case
  proof (cases "f x = b")
    case False
    with Cons.prems have "\<forall>y\<in>set (x # xs). f y \<noteq> b" by fastforce
    then have "filter (\<lambda>x. f x = b) (x # xs) = []" "filter (\<lambda>x. f x \<noteq> b) (x # xs) = x # xs"
      by (simp_all only: filter_empty_conv filter_id_conv)
    then show ?thesis by simp
  qed (use Cons in simp)
qed simp

lemma concat_filters:
  fixes f :: "'a \<Rightarrow> 'b :: linorder"
  shows "sorted (map f xs) \<Longrightarrow> sorted_wrt (<) bs \<Longrightarrow> f ` set xs \<subseteq> set bs \<Longrightarrow>
    concat (map (\<lambda>b. filter (\<lambda>x. f x = b) xs) bs) = xs"
proof (induction bs arbitrary: xs)
  case (Cons b bs)
  let ?ys = "filter (\<lambda>x. f x \<noteq> b) xs"
  have "sorted (map f ?ys)" using Cons.prems(1) by (rule sorted_filter)
  moreover have "f ` set ?ys \<subseteq> set bs" using Cons.prems(3) by auto
  ultimately have "concat (map (\<lambda>c. filter (\<lambda>x. f x = c) ?ys) bs) = ?ys"
    using Cons.prems(2) by (intro Cons.IH) simp_all
  moreover have "filter (\<lambda>x. f x = c) ?ys = filter (\<lambda>x. f x = c) xs" if "c \<in> set bs" for c
    using that Cons.prems(2) by (auto simp: filter_filter intro!: filter_cong)
  then have "map (\<lambda>c. filter (\<lambda>x. f x = c) ?ys) bs = map (\<lambda>c. filter (\<lambda>x. f x = c) xs) bs"
    by (rule map_cong [OF refl])
  moreover have "filter (\<lambda>x. f x = b) xs @ ?ys = xs"
    using Cons.prems by (intro least_first) fastforce+
  ultimately show ?case unfolding list.map concat.simps by (simp only:)
qed simp

section \<open>Hours from exact buckets\<close>

lemma nested_buckets:
  assumes "0 \<le> t"
  shows "bucket_of 3600 (bucket_of 300 t) = bucket_of 3600 t"
proof -
  have "t div 300 * 300 div (12 * 300) = t div 300 div 12" by (rule div_mult_mult2) simp
  also have "\<dots> = t div (300 * 12)" by (rule zdiv_zmult2_eq [symmetric]) simp
  finally show ?thesis using assms by (simp add: bucket_of_eq pos_imp_zdiv_nonneg_iff)
qed

lemma bucket_rows_set:
  "sorted_table t \<Longrightarrow> (k, v) \<in> set (bucket_rows w src lo t b m) \<longleftrightarrow>
     k_res k = src \<and> lo \<le> k_ts k \<and> k_mid k = m \<and> bucket_of w (k_ts k) = b \<and> row_at t k = Some v"
  by (auto simp: bucket_rows_def select_def row_at_in_set)

lemma bucket_rows_by_time:
  "sorted_table t \<Longrightarrow> sorted_wrt (\<lambda>r r'. k_ts (fst r) < k_ts (fst r')) (bucket_rows w src lo t b m)"
  by (rule sorted_by_time [of _ src m]) (auto simp: bucket_rows_set)

lemma bucket_at: "0 \<le> t \<Longrightarrow> bucket_of 300 t = b \<Longrightarrow> 300 dvd b \<and> 0 \<le> b \<and> b \<le> t \<and> t < b + 300"
  using bucket_bounds [of t 300] by (auto simp: bucket_of_eq)

lemma hour_at:
  assumes "3600 dvd h" and "0 \<le> t"
  shows "bucket_of 3600 t = h \<longleftrightarrow> h \<le> t \<and> t < h + 3600"
proof
  assume "bucket_of 3600 t = h"
  then show "h \<le> t \<and> t < h + 3600" using bucket_bounds [of t 3600] assms(2) by auto
next
  assume t: "h \<le> t \<and> t < h + 3600"
  from assms(1) obtain q where "h = 3600 * q" by (rule dvdE)
  with t have "t div 3600 = q" by (intro int_div_pos_eq [of _ _ _ "t - 3600 * q"]) simp_all
  with assms(2) \<open>h = 3600 * q\<close> show "bucket_of 3600 t = h" by (simp add: bucket_of_eq)
qed

lemma parts_of_hour:
  assumes "bucket_of 3600 b = h" and "0 \<le> b" and "300 dvd b"
  shows "filter (\<lambda>r. bucket_of 300 (k_ts (fst r)) = b) (bucket_rows HOUR RAW 0 g h m) = bucket_rows FIVE_MIN RAW 0 g b m"
  unfolding bucket_rows_def select_def filter_filter
proof (rule filter_cong [OF refl])
  fix r :: "key \<times> sample"
  obtain k v where r: "r = (k, v)" by (cases r)
  show "((case r of (k, _) \<Rightarrow> k_res k = RAW \<and> 0 \<le> k_ts k \<and> k_mid k = m \<and> bucket_of HOUR (k_ts k) = h)
      \<and> bucket_of 300 (k_ts (fst r)) = b) =
    (case r of (k, _) \<Rightarrow> k_res k = RAW \<and> 0 \<le> k_ts k \<and> k_mid k = m \<and> bucket_of FIVE_MIN (k_ts k) = b)"
    using assms nested_buckets [of "k_ts k"] by (auto simp: r HOUR_def FIVE_MIN_def)
qed

text \<open>The hour that is built from exact, non-overflowing buckets.\<close>

lemma hour_of_buckets:
  assumes t: "sorted_table t" and g: "sorted_table g" and h: "3600 dvd h" "0 \<le> lo" "lo \<le> h"
    and exact: "\<And>b. 300 dvd b \<Longrightarrow> h \<le> b \<Longrightarrow> b < h + 3600 \<Longrightarrow>
      row_at t (Key FIVE_MIN b m) = rolled_row FIVE_MIN RAW 0 g b m"
    and whole: "\<And>b. 300 dvd b \<Longrightarrow> h \<le> b \<Longrightarrow> b < h + 3600 \<Longrightarrow> bucket_rows FIVE_MIN RAW 0 g b m \<noteq> [] \<Longrightarrow>
      agg (bucket_rows FIVE_MIN RAW 0 g b m) \<noteq> None"
    and filled: "\<And>b. row_at t (Key FIVE_MIN b m) \<noteq> None \<Longrightarrow> bucket_rows FIVE_MIN RAW 0 g b m \<noteq> []"
  shows "rolled_row HOUR FIVE_MIN lo t h m = rolled_row HOUR RAW 0 g h m
    \<and> (bucket_rows HOUR FIVE_MIN lo t h m = [] \<longleftrightarrow> bucket_rows HOUR RAW 0 g h m = [])"
proof -
  let ?ys = "bucket_rows HOUR FIVE_MIN lo t h m" and ?xs = "bucket_rows HOUR RAW 0 g h m"
  let ?part = "\<lambda>b. bucket_rows FIVE_MIN RAW 0 g b m" and ?at = "\<lambda>r :: key \<times> sample. k_ts (fst r)"
  have y: "300 dvd b \<and> 0 \<le> b \<and> h \<le> b \<and> b < h + 3600 \<and> ?part b \<noteq> [] \<and> agg (?part b) = Some v"
    if "(k, v) \<in> set ?ys" "k_ts k = b" for k v b
  proof -
    have k: "k = Key FIVE_MIN b m" "lo \<le> b" "bucket_of HOUR b = h" "row_at t k = Some v"
      using that by (cases k; auto simp: bucket_rows_set [OF t])+
    with filled [of b] have some: "?part b \<noteq> []" by simp
    then obtain u where "0 \<le> u" "bucket_of 300 u = b"
      by (auto simp: bucket_rows_Nil_iff [OF g] FIVE_MIN_def)
    then have "300 dvd b" "0 \<le> b" using bucket_at by blast+
    with k h(1) have "h \<le> b" "b < h + 3600" by (simp_all add: hour_at HOUR_def)
    with k some exact [OF \<open>300 dvd b\<close>] \<open>300 dvd b\<close> \<open>0 \<le> b\<close> show ?thesis
      by (auto simp: rolled_row_def Let_def split: if_splits)
  qed
  have x: "bucket_of 300 (k_ts k) \<in> ?at ` set ?ys" if "(k, v) \<in> set ?xs" for k v
  proof -
    have k: "k = Key RAW (k_ts k) m" "0 \<le> k_ts k" "bucket_of 3600 (k_ts k) = h" "row_at g k = Some v"
      using that by (cases k; auto simp: bucket_rows_set [OF g] HOUR_def)+
    let ?b = "bucket_of 300 (k_ts k)"
    have b: "300 dvd ?b" "0 \<le> ?b" using bucket_at [OF k(2)] by blast+
    have hour: "bucket_of 3600 ?b = h" using k nested_buckets by simp
    then have in_h: "h \<le> ?b" "?b < h + 3600" using b(2) h(1) by (simp_all add: hour_at)
    have "?part ?b \<noteq> []" using k by (auto simp: bucket_rows_Nil_iff [OF g] FIVE_MIN_def)
    with whole [OF b(1) in_h] exact [OF b(1) in_h] obtain w where "row_at t (Key FIVE_MIN ?b m) = Some w"
      by (auto simp: rolled_row_def)
    then have "(Key FIVE_MIN ?b m, w) \<in> set ?ys"
      using hour in_h h(3) by (simp add: bucket_rows_set [OF t] HOUR_def)
    then show ?thesis by force
  qed
  have "list_all2 (\<lambda>g v. g \<noteq> [] \<and> agg g = Some v) (map (\<lambda>r. ?part (?at r)) ?ys) (map snd ?ys)"
    by (auto simp: list_all2_map1 list_all2_map2 list_all2_same dest: y)
  from rollups_compose [OF this, of undefined]
  have "agg ?ys = agg (concat (map ?part (map ?at ?ys)))"
    using agg_values [of ?ys "map (Pair undefined) (map snd ?ys)"] by (simp add: comp_def)
  also have "map ?part (map ?at ?ys) =
      map (\<lambda>b. filter (\<lambda>r. bucket_of 300 (?at r) = b) ?xs) (map ?at ?ys)"
    using y h(1) by (auto simp: hour_at intro!: parts_of_hour [symmetric])
  also have "concat \<dots> = ?xs"
  proof (rule concat_filters)
    have "sorted_wrt (\<lambda>r r'. bucket_of 300 (?at r) \<le> bucket_of 300 (?at r')) ?xs"
      by (rule sorted_wrt_mono_rel [OF _ bucket_rows_by_time [OF g]])
        (auto simp: bucket_rows_set [OF g] intro!: bucket_mono)
    then show "sorted (map (\<lambda>r. bucket_of 300 (?at r)) ?xs)" by (simp add: sorted_wrt_map)
    show "sorted_wrt (<) (map ?at ?ys)" using bucket_rows_by_time [OF t] by (simp add: sorted_wrt_map)
    show "(\<lambda>r. bucket_of 300 (?at r)) ` set ?xs \<subseteq> set (map ?at ?ys)" using x by auto
  qed
  finally have "agg ?ys = agg ?xs" .
  moreover have "?ys = [] \<longleftrightarrow> ?xs = []"
  proof
    assume "?ys = []"
    with x show "?xs = []" by (cases ?xs) auto
  next
    assume xs: "?xs = []"
    show "?ys = []"
    proof (cases ?ys)
      case (Cons r rs)
      with y [of "fst r" "snd r"] have "?part (?at r) \<noteq> []" "300 dvd ?at r" "0 \<le> ?at r" "bucket_of 3600 (?at r) = h"
        using h(1) by (auto simp: hour_at)
      with parts_of_hour xs show ?thesis by (metis filter.simps(1))
    qed simp
  qed
  ultimately show ?thesis by (simp add: rolled_row_def)
qed

section \<open>The invariant of the hours\<close>

lemma those_Some: "those (map f gs) = Some xs \<Longrightarrow> g \<in> set gs \<Longrightarrow> f g \<noteq> None"
  by (induction gs arbitrary: xs) (auto split: option.splits)

text \<open>A roll-up that succeeds has aggregated every group.\<close>

lemma rollup_aggregates:
  assumes "rollup w src lo t = Some t'" and "w \<noteq> 0" and "bucket_rows w src lo t b m \<noteq> []"
  shows "agg (bucket_rows w src lo t b m) \<noteq> None"
proof -
  let ?rows = "select (\<lambda>(k, _). k_res k = src \<and> lo \<le> k_ts k) t"
  obtain q where b: "b = q * w"
    using assms(3) by (auto simp: bucket_rows_def select_def filter_empty_conv bucket_of_def)
  with assms(3) have "(m, q) \<in> set (remdups (map (group_of w) ?rows))"
    using set_rollup_groups [of m q w src lo t] by (simp add: group_rows_eq [OF assms(2)])
  moreover obtain new where "those (map (\<lambda>g. map_option (Pair (Key w (snd g * w) (fst g)))
      (agg (select (\<lambda>r. group_of w r = g) ?rows))) (remdups (map (group_of w) ?rows))) = Some new"
    using assms(1) by (auto simp: rollup_def rollup_rows_def Let_def)
  ultimately have "agg (select (\<lambda>r. group_of w r = (m, q)) ?rows) \<noteq> None"
    using those_Some by fastforce
  then show ?thesis by (simp add: b group_rows_eq [OF assms(2)])
qed

definition hours_inv :: "(i64 list \<Rightarrow> i64) \<Rightarrow> samples \<times> store \<Rightarrow> bool" where
  "hours_inv f c \<longleftrightarrow>
     (let ghost = fst c; t = rows (st_db (snd c)); prev = last_compact True (st_db (snd c))
      in sched_inv f c
         \<and> (\<forall>b m. 300 dvd b \<longrightarrow> prev - FIVE_MIN_RETENTION \<le> b \<longrightarrow> b < bucket_of 300 prev \<longrightarrow>
              bucket_rows FIVE_MIN RAW 0 ghost b m \<noteq> [] \<longrightarrow> agg (bucket_rows FIVE_MIN RAW 0 ghost b m) \<noteq> None)
         \<and> (\<forall>h m. row_at t (Key HOUR h m) \<noteq> None \<longrightarrow> bucket_rows HOUR RAW 0 ghost h m \<noteq> [])
         \<and> (\<forall>h m. 3600 dvd h \<longrightarrow> prev - HOUR_RETENTION \<le> h \<longrightarrow> h + 3600 \<le> bucket_of 300 prev \<longrightarrow>
              row_at t (Key HOUR h m) = rolled_row HOUR RAW 0 ghost h m))"

lemma hours_invD:
  assumes "hours_inv f (ghost, s)"
  defines "prev \<equiv> last_compact True (st_db s)"
  shows "sched_inv f (ghost, s)"
    and "300 dvd b \<Longrightarrow> prev - FIVE_MIN_RETENTION \<le> b \<Longrightarrow> b < bucket_of 300 prev \<Longrightarrow>
      bucket_rows FIVE_MIN RAW 0 ghost b m \<noteq> [] \<Longrightarrow> agg (bucket_rows FIVE_MIN RAW 0 ghost b m) \<noteq> None"
    and "row_at (rows (st_db s)) (Key HOUR h m) \<noteq> None \<Longrightarrow> bucket_rows HOUR RAW 0 ghost h m \<noteq> []"
    and "3600 dvd h \<Longrightarrow> prev - HOUR_RETENTION \<le> h \<Longrightarrow> h + 3600 \<le> bucket_of 300 prev \<Longrightarrow>
      row_at (rows (st_db s)) (Key HOUR h m) = rolled_row HOUR RAW 0 ghost h m"
  using assms(1) unfolding hours_inv_def Let_def fst_conv snd_conv prev_def by iprover+

lemma hours_write_inv:
  assumes inv: "hours_inv f (ghost, s)" and run: "try_write ok f ts pts s = (r, s')"
    and late: "bucket_of 300 (last_compact True (st_db s)) \<le> as_i64 ts"
  shows "hours_inv f (logged (as_i64 ts) (st_db s') ghost, s')"
proof -
  let ?T = "as_i64 ts" and ?prev = "last_compact True (st_db s)" and ?g = "logged (as_i64 ts) (st_db s') ghost"
  note sched = hours_invD(1) [OF inv]
  note ok = sched_invD(1-4) [OF sched]
  note sched' = sched_write_inv [OF sched run late]
  from try_write_frame [OF ok(1,2) run]
  have frame: "\<And>k. k_res k \<noteq> RAW \<or> k_ts k \<noteq> ?T \<Longrightarrow> row_at (rows (st_db s')) k = row_at (rows (st_db s)) k"
    and meta: "d_meta (st_db s') = d_meta (st_db s)"
    by (auto simp: write_frame_def)
  have prev: "last_compact True (st_db s') = ?prev" using meta by (simp add: last_compact_def)
  have sg: "sorted_table ?g" using ok(3) by (rule sorted_logged)
  note g = row_at_logged [OF ok(3) sched_invD(2) [OF sched'], of ?T]
  have hour: "row_at (rows (st_db s')) (Key HOUR h m) = row_at (rows (st_db s)) (Key HOUR h m)" for h m
    by (rule frame) (simp add: RAW_def HOUR_def)
  have same: "bucket_rows w RAW 0 ghost b m = bucket_rows w RAW 0 ?g b m" if "bucket_of w ?T \<noteq> b" for w b m
    using that by (intro bucket_rows_cong [OF ok(3) sg]) (auto simp: g)
  have grow: "row_at ghost (Key RAW t m) \<noteq> None \<Longrightarrow> row_at ?g (Key RAW t m) \<noteq> None" for t m
    by (auto simp: g split: option.split)
  have prev0: "0 \<le> ?prev" using ok(4) by (simp add: time_ok_def)
  then have T: "0 \<le> ?prev" "0 \<le> ?T" using bucket_at [OF _ refl, of ?prev] late by auto
  have "bucket_of 300 ?T \<noteq> b" if "b < bucket_of 300 ?prev" for b
    using open_bucket [OF late prev0] that by simp
  then have A: "agg (bucket_rows FIVE_MIN RAW 0 ?g b m) \<noteq> None"
    if "300 dvd b" "?prev - FIVE_MIN_RETENTION \<le> b" "b < bucket_of 300 ?prev" "bucket_rows FIVE_MIN RAW 0 ?g b m \<noteq> []" for b m
    using hours_invD(2) [OF inv that(1-3), of m] that(3,4) same [of FIVE_MIN b m] by (simp add: FIVE_MIN_def)
  have B: "bucket_rows HOUR RAW 0 ?g h m \<noteq> []" if "row_at (rows (st_db s')) (Key HOUR h m) \<noteq> None" for h m
    using hours_invD(3) [OF inv, of h m] that grow
    unfolding hour bucket_rows_Nil_iff [OF sg] bucket_rows_Nil_iff [OF ok(3)] by blast
  have C: "row_at (rows (st_db s')) (Key HOUR h m) = rolled_row HOUR RAW 0 ?g h m"
    if h: "3600 dvd h" "?prev - HOUR_RETENTION \<le> h" "h + 3600 \<le> bucket_of 300 ?prev" for h m
  proof -
    from late have "bucket_of HOUR ?T \<noteq> h" using h T(2) by (auto simp: HOUR_def hour_at)
    from same [OF this, of m] hours_invD(4) [OF inv h, of m] show ?thesis by (simp add: hour rolled_row_def)
  qed
  show ?thesis
    using sched' A B C by (simp add: hours_inv_def Let_def prev del: not_None_eq)
qed

lemma nested_nonempty:
  assumes "sorted_table g" and "bucket_rows FIVE_MIN RAW 0 g b m \<noteq> []" and "bucket_of HOUR b = h"
  shows "bucket_rows HOUR RAW 0 g h m \<noteq> []"
proof -
  from assms(2) obtain t where t: "0 \<le> t" "bucket_of 300 t = b" "row_at g (Key RAW t m) \<noteq> None"
    by (auto simp: bucket_rows_Nil_iff [OF assms(1)] FIVE_MIN_def)
  moreover have "bucket_of HOUR t = h" using t(2) assms(3) nested_buckets [OF t(1)] by (simp add: HOUR_def)
  ultimately show ?thesis by (auto simp: bucket_rows_Nil_iff [OF assms(1)])
qed

lemma hours_compact_inv:
  assumes inv: "hours_inv f (ghost, s)" and run: "try_compact ok now s = (Ok u, s')"
    and "ok 0" and now: "time_ok now" and before: "last_compact True (st_db s) < now"
    and gap: "now \<le> last_compact True (st_db s) + 301"
  shows "hours_inv f (ghost, s')"
proof -
  let ?prev = "last_compact True (st_db s)" and ?lo = "lo60 (last_compact True (st_db s)) now"
  let ?t = "rows (st_db s)" and ?t' = "rows (st_db s')"
  note sched = hours_invD(1) [OF inv]
  note ok = sched_invD(1-4) [OF sched]
  note sched' = sched_compact_inv [OF sched run \<open>ok 0\<close> now before gap]
  note tiers = compaction_tiers [OF ok(2) now run, unfolded eqTrueI [OF \<open>ok 0\<close>]]
  note lo = lo60_bounds [OF now, where prev = ?prev]
  have now': "last_compact True (st_db s') = now" by (rule tiers(4))
  note five' = sched_invD(6) [OF sched']
  have st: "sorted_table ?t" "sorted_table ?t'"
    using ok(2) sched_invD(2) [OF sched'] by (simp_all add: db_ok_def table_ok_def)
  have A: "agg (bucket_rows FIVE_MIN RAW 0 ghost b m) \<noteq> None"
    if b: "300 dvd b" "now - FIVE_MIN_RETENTION \<le> b" "b < bucket_of 300 now" "bucket_rows FIVE_MIN RAW 0 ghost b m \<noteq> []" for b m
  proof (cases "lo5 ?prev now \<le> b")
    case True
    obtain x5 where "rollup FIVE_MIN RAW (lo5 ?prev now) ?t = Some x5"
      using compaction_Ok [OF run ok(2)] \<open>ok 0\<close> by (metis (full_types))
    from rollup_aggregates [OF this, of b m] b(4) show ?thesis
      unfolding window_rows [OF sched now less_imp_le [OF before] True] by (simp add: FIVE_MIN_def)
  next
    case False
    with lo5_bounds(4) [OF now ok(4) gap] have "b < bucket_of 300 ?prev" by linarith
    with hours_invD(2) [OF inv b(1)] b(2,4) before show ?thesis by simp
  qed
  have B: "bucket_rows HOUR RAW 0 ghost h m \<noteq> []" if h: "row_at ?t' (Key HOUR h m) \<noteq> None" for h m
  proof (cases "bucket_rows HOUR FIVE_MIN ?lo ?t' h m = []")
    case True
    with h have "row_at ?t (Key HOUR h m) \<noteq> None" by (simp add: tiers(3) split: if_splits)
    then show ?thesis by (rule hours_invD(3) [OF inv])
  next
    case False
    then obtain b where "bucket_of HOUR b = h" "row_at ?t' (Key FIVE_MIN b m) \<noteq> None"
      by (auto simp: bucket_rows_Nil_iff [OF st(2)])
    from nested_nonempty [OF ok(3) five' [OF this(2)] this(1)] show ?thesis .
  qed
  have C: "row_at ?t' (Key HOUR h m) = rolled_row HOUR RAW 0 ghost h m"
    if h: "3600 dvd h" "now - HOUR_RETENTION \<le> h" "h + 3600 \<le> bucket_of 300 now" for h m
  proof (cases "?lo \<le> h")
    case True
    then have "rolled_row HOUR FIVE_MIN ?lo ?t' h m = rolled_row HOUR RAW 0 ghost h m
        \<and> (bucket_rows HOUR FIVE_MIN ?lo ?t' h m = [] \<longleftrightarrow> bucket_rows HOUR RAW 0 ghost h m = [])"
      using lo(1,2) h five' A
      by (intro hour_of_buckets [OF st(2) ok(3) h(1)] sched_invD(7) [OF sched', unfolded now']) auto
    moreover have "row_at ?t (Key HOUR h m) = None" if "bucket_rows HOUR RAW 0 ghost h m = []"
      using that hours_invD(3) [OF inv] by blast
    ultimately show ?thesis using h(2) by (auto simp: tiers(3) rolled_row_def Let_def split: if_splits)
  next
    case False
    have "bucket_of HOUR b \<noteq> h" if "?lo \<le> b" for b
    proof -
      obtain q r where "?lo = 3600 * q" "h = 3600 * r" using lo(3) h(1) by (elim dvdE) blast
      with False have "h + 3600 \<le> ?lo" by simp
      with that lo(2) h(1) show ?thesis by (simp add: hour_at HOUR_def)
    qed
    then have "bucket_rows HOUR FIVE_MIN ?lo ?t' h m = []" by (auto simp: bucket_rows_Nil_iff [OF st(2)])
    moreover have "h + 3600 \<le> bucket_of 300 ?prev"
    proof (cases "0 \<le> h")
      case True
      with False lo(4) [OF h(1)] have "h < now - 7200" by linarith
      then show ?thesis using bucket_at [of ?prev, OF _ refl] ok(4) gap by (simp add: time_ok_def)
    next
      case False
      moreover obtain q where "h = 3600 * q" using h(1) by (rule dvdE)
      ultimately have "h + 3600 \<le> 0" by simp
      with bucket_at [of ?prev, OF _ refl] ok(4) show ?thesis by (simp add: time_ok_def)
    qed
    ultimately show ?thesis
      using h before hours_invD(4) [OF inv h(1)] by (simp add: tiers(3))
  qed
  show ?thesis
    using sched' A B C by (simp add: hours_inv_def Let_def now' del: not_None_eq)
qed

lemma hours_init_inv: "sched_init f c \<Longrightarrow> hours_inv f c"
  using sched_init_inv [of f c]
  by (cases c) (simp add: sched_init_def hours_inv_def Let_def row_at_def rolled_row_def bucket_rows_def select_def)

interpretation hours: invariant_of "sched_init f" "sched_step f" "hours_inv f"
  for f :: "i64 list \<Rightarrow> i64"
proof unfold_locales
  fix c d
  assume "sched_step f c d" and "hours_inv f c"
  then show "hours_inv f d"
    by (cases rule: sched_step.cases) (auto intro: hours_write_inv hours_compact_inv)
qed (rule hours_init_inv)

end
