(* ===== verification/Store_Props.thy ===== *)
theory Store_Props
  imports Store_Hours
begin

text \<open>
  The properties of the time-series store: what its database keeps under every fault, what is
  written can be read, what a compaction changes, and the coherence of the memo of metric ids. The
  two defects that its model shows are in \<open>Store_Late\<close>.
\<close>

section \<open>A concrete store\<close>

text \<open>SQLite's usual choice: one more than the largest id.\<close>

definition next_rowid :: "i64 list \<Rightarrow> i64" where
  "next_rowid xs = 1 + fold max xs 0"

lemma fold_max_ge: "(x :: int) \<le> fold max xs x \<and> (\<forall>y\<in>set xs. y \<le> fold max xs x)"
  by (induction xs arbitrary: x) (auto, (meson max.boundedE order_trans)+)

lemma next_rowid_ok: "rowid_ok next_rowid"
  using fold_max_ge [of 0] by (fastforce simp: rowid_ok_def next_rowid_def)

definition all_ok :: "nat \<Rightarrow> bool" where
  "all_ok i = True"

definition fail_at :: "nat \<Rightarrow> nat \<Rightarrow> bool" where
  "fail_at n i \<longleftrightarrow> i \<noteq> n"

definition ex_open :: store where
  "ex_open = \<lparr>st_write = new_mutex (), st_read = new_mutex (), st_ids = new_mutex [], st_db = migrate empty_db\<rparr>"

lemma ex_open: "open_store all_ok empty_db = Inr ex_open"
  by (simp add: open_store_def all_ok_def ex_open_def)

text \<open>A run: writes of one metric and compactions, all statements succeed.\<close>

datatype op = W u64 points | C i64

fun run_store :: "op list \<Rightarrow> store \<Rightarrow> store" where
  "run_store [] s = s"
| "run_store (W ts pts # ops) s = run_store ops (write_samples all_ok next_rowid ts pts s)"
| "run_store (C now # ops) s = run_store ops (compact_store all_ok now s)"

definition read_all :: "string \<Rightarrow> i64 \<Rightarrow> store \<Rightarrow> (i64 \<times> rat) list option" where
  "read_all m res s =
     (case fst (series_of all_ok m 0 (2 ^ 40) res 100 s) of
        Ok y \<Rightarrow> Some (zip (y_t y) (y_avg y))
      | _ \<Rightarrow> None)"

lemma run_store_reachable:
  "reachable init (store_step next_rowid) s \<Longrightarrow> reachable init (store_step next_rowid) (run_store ops s)"
  by (induction ops s rule: run_store.induct) (auto intro: reachable_step store_step.intros)

lemma ex_open_reachable: "reachable (store_init next_rowid) (store_step next_rowid) ex_open"
proof (rule reachable_init)
  have "file_ok empty_db" by (simp add: file_ok_def empty_db_def SCHEMA_VERSION_def)
  then show "store_init next_rowid ex_open" using ex_open next_rowid_ok store_init_def by blast
qed

lemma run_store_db_ok: "db_ok (st_db (run_store ops ex_open))"
  using store_machine.inv_reachable [OF run_store_reachable [OF ex_open_reachable]] by (simp add: store_inv_def)

section \<open>The database\<close>

text \<open>
  C10. The database stays sound under every write, compaction and restart, with any statement
  failing: the samples are in strict key order, each has its average between its minimum and
  maximum and counts at least one reading, and the metrics have different ids and names.
\<close>

theorem store_database_sound:
  assumes "reachable (store_init f) (store_step f) s"
  shows "sorted_table (rows (st_db s)) \<and> list_all (\<lambda>(_, v). sample_ok v) (rows (st_db s))
    \<and> distinct (map fst (metrics (st_db s))) \<and> distinct (map snd (metrics (st_db s)))"
  using store_machine.inv_reachable [OF assms] by (simp add: store_inv_def db_ok_def table_ok_def)

theorem store_database_sound_witness:
  "sorted_table (rows (st_db (run_store [W 300 [(''a'', Finite 1)], C 400] ex_open)))
    \<and> list_all (\<lambda>(_, v). sample_ok v) (rows (st_db (run_store [W 300 [(''a'', Finite 1)], C 400] ex_open)))
    \<and> distinct (map fst (metrics (st_db (run_store [W 300 [(''a'', Finite 1)], C 400] ex_open))))
    \<and> distinct (map snd (metrics (st_db (run_store [W 300 [(''a'', Finite 1)], C 400] ex_open))))"
  by (rule store_database_sound [OF run_store_reachable [OF ex_open_reachable]])

text \<open>
  A write or a compaction that reports an error has no effect on the database.
\<close>

theorem failed_operations_atomic:
  "(case try_write ok f ts pts s of (Err _, s') \<Rightarrow> st_db s' = st_db s | _ \<Rightarrow> True)
   \<and> (case try_compact ok now s of (Err _, s') \<Rightarrow> st_db s' = st_db s | _ \<Rightarrow> True)"
proof -
  obtain r s1 where w: "try_write ok f ts pts s = (r, s1)" by (metis surj_pair)
  obtain q s2 where c: "try_compact ok now s = (q, s2)" by (metis surj_pair)
  have "case r of Err _ \<Rightarrow> st_db s1 = st_db s | _ \<Rightarrow> True"
    by (cases rule: transact_cases [OF w [unfolded try_write_def]]) (auto split: outcome.split)
  moreover have "case q of Err _ \<Rightarrow> st_db s2 = st_db s | _ \<Rightarrow> True"
    by (cases rule: try_compact_cases [OF c]) (auto split: outcome.split)
  ultimately show ?thesis using w c by (auto split: outcome.splits)
qed

text \<open>
  Values that are not finite are skipped, never stored and never a reason to lose the others:
  a write is the write of its finite points.
\<close>

lemma write_points_finite:
  "write_points ok f ts pts t = write_points ok f ts (filter (\<lambda>(_, v). is_finite v) pts) t"
proof (induction pts arbitrary: t)
  case (Cons p pts)
  obtain m v where "p = (m, v)" by (cases p)
  with Cons show ?case by (cases v) (auto simp: bind_def split: prod.split outcome.split)
qed simp

theorem non_finite_skipped:
  "try_write ok f ts pts s = try_write ok f ts (filter (\<lambda>(_, v). is_finite v) pts) s"
proof -
  have "write_points ok f ts pts = write_points ok f ts (filter (\<lambda>(_, v). is_finite v) pts)"
    by (rule ext) (rule write_points_finite)
  then show ?thesis by (simp only: try_write_def)
qed

text \<open>
  A restart keeps the history of this schema version and rebuilds any other: opening keeps
  the samples and metrics of a current file and empties those of another version, it changes
  nothing just when the file is current and complete, and opening twice is opening once.
\<close>

theorem reopen_keeps_history:
  "rows (migrate d) = (if d_version d = SCHEMA_VERSION then rows d else [])
   \<and> metrics (migrate d) = (if d_version d = SCHEMA_VERSION then metrics d else [])
   \<and> (migrate d = d) = (d_version d = SCHEMA_VERSION \<and> d_samples d \<noteq> None \<and> d_metric d \<noteq> None \<and> d_meta d \<noteq> None)
   \<and> migrate (migrate d) = migrate d"
proof -
  have "(migrate d = d) = (d_version d = SCHEMA_VERSION \<and> d_samples d \<noteq> None \<and> d_metric d \<noteq> None \<and> d_meta d \<noteq> None)"
    by (cases d) (auto simp: migrate_def Let_def split: option.splits)
  moreover have "migrate (migrate d) = migrate d"
    by (simp add: migrate_def Let_def)
  ultimately show ?thesis
    by (auto simp: migrate_def Let_def rows_def metrics_def split: option.split)
qed

section \<open>Writing and reading\<close>

definition has_point :: "i64 \<Rightarrow> db \<Rightarrow> string \<times> float_val \<Rightarrow> bool" where
  "has_point ts d p \<longleftrightarrow>
     (case snd p of
        Finite x \<Rightarrow> (\<exists>i. (i, fst p) \<in> set (metrics d) \<and> row_at (rows d) (Key RAW ts i) = Some (raw_sample x))
      | _ \<Rightarrow> True)"

lemma metric_id_Ok:
  assumes "rowid_ok f" and "txn_ok t" and "metric_id ok f name t = (Ok i, t')"
  shows "txn_ok t' \<and> (i, name) \<in> set (metrics (t_db t')) \<and> rows (t_db t') = rows (t_db t)
    \<and> set (metrics (t_db t)) \<subseteq> set (metrics (t_db t'))"
proof -
  have "txn_ok t' \<and> (i, name) \<in> set (metrics (t_db t'))"
    using tripleD [OF metric_id_triple [OF assms(1)] assms(2,3)] by simp
  moreover have "rows (t_db t') = rows (t_db t) \<and> set (metrics (t_db t)) \<subseteq> set (metrics (t_db t'))"
  proof -
    have "keeps (txn_db (\<lambda>d. rows d = rows (t_db t) \<and> set (metrics (t_db t)) \<subseteq> set (metrics d))) (metric_id ok f name)"
      by (rule keeps_db_metric_id) (auto dest: intern_metrics)
    from keepsD [OF this _ assms(3)] show ?thesis by simp
  qed
  ultimately show ?thesis by simp
qed

lemma same_id: "db_ok d \<Longrightarrow> (i, n) \<in> set (metrics d) \<Longrightarrow> (i, n') \<in> set (metrics d) \<Longrightarrow> n = n'"
  by (auto simp: db_ok_def dest: eq_key_imp_eq_value)

lemma txn_ok_sorted: "txn_ok t \<Longrightarrow> sorted_table (rows (t_db t))"
  by (simp add: txn_ok_def db_ok_def table_ok_def)

lemma write_points_has:
  assumes "rowid_ok f" and "txn_ok t" and "write_points ok f ts pts t = (Ok u, t')"
    and "distinct (map fst (done_pts @ pts))" and "list_all (has_point (as_i64 ts) (t_db t)) done_pts"
  shows "list_all (has_point (as_i64 ts) (t_db t')) (done_pts @ pts) \<and> txn_ok t'"
  using assms
proof (induction pts arbitrary: t done_pts)
  case Nil
  then show ?case by (simp add: ret_def)
next
  case (Cons p pts)
  obtain m v where p: "p = (m, v)" by (cases p)
  show ?case
  proof (cases "\<exists>x. v = Finite x")
    case False
    then have "write_points ok f ts pts t = (Ok u, t')" and "has_point (as_i64 ts) (t_db t) p"
      using Cons.prems(3) p by (cases v; simp add: has_point_def)+
    with Cons.IH [of t "done_pts @ [p]"] Cons.prems p show ?thesis by simp
  next
    case True
    then obtain x where v: "v = Finite x" by blast
    let ?k = "\<lambda>i. Key RAW (as_i64 ts) i"
    from Cons.prems(3) obtain i t1 t2 where id: "metric_id ok f m t = (Ok i, t1)"
      and ins: "stmt ok ''insert'' (put_sample (?k i) (raw_sample x)) t1 = (Ok (), t2)"
      and rest: "write_points ok f ts pts t2 = (Ok u, t')"
      by (auto simp: p v bind_Ok_iff)
    note t1 = metric_id_Ok [OF Cons.prems(1,2) id]
    from ins obtain d where d: "put_sample (?k i) (raw_sample x) (t_db t1) = Some ((), d)"
      and t2: "t2 = t1\<lparr>t_step := Suc (t_step t1), t_db := d\<rparr>"
      by (auto simp: stmt_Ok_iff)
    have ok2: "txn_ok t2"
      unfolding t2 by (rule txn_ok_put [OF _ _ _ d, of m]) (use t1 in simp_all)
    have sorted: "sorted_table (rows (t_db t1))" by (rule txn_ok_sorted) (use t1 in blast)
    have rows2: "rows d = upsert (?k i) (raw_sample x) (rows (t_db t1))" and met2: "metrics d = metrics (t_db t1)"
      using d by (auto simp: put_sample_def rows_def metrics_def)
    have at2: "row_at (rows d) k = (if k = ?k i then Some (raw_sample x) else row_at (rows (t_db t)) k)" for k
      using row_at_upsert [OF sorted] t1 by (simp add: rows2)
    have "has_point (as_i64 ts) (t_db t2) q" if q: "q \<in> set (done_pts @ [p])" for q
    proof (cases "q = p")
      case True
      with t1 show ?thesis by (auto simp: has_point_def p v t2 met2 at2)
    next
      case False
      with q have "q \<in> set done_pts" by simp
      then have "has_point (as_i64 ts) (t_db t) q" and "fst q \<noteq> m"
        using Cons.prems(4,5) p by (auto simp: list_all_iff image_iff)
      moreover have "j \<noteq> i" if "(j, fst q) \<in> set (metrics (t_db t1))" for j
        using same_id [of "t_db t1" i m "fst q"] that t1 \<open>fst q \<noteq> m\<close> by (auto simp: txn_ok_def)
      ultimately show ?thesis
        using t1 by (auto simp: has_point_def t2 met2 at2 split: float_val.splits)
    qed
    then have "list_all (has_point (as_i64 ts) (t_db t2)) (done_pts @ [p])" by (simp add: list_all_iff)
    with Cons.IH [OF Cons.prems(1) ok2 rest, of "done_pts @ [p]"] Cons.prems(4) show ?thesis by simp
  qed
qed

lemma row_at_nil: "row_at [] k = None"
  by (simp add: row_at_def)

lemma row_at_single: "row_at [(k, v)] k' = (if k' = k then Some v else None)"
  by (simp add: row_at_def)

lemma select_one:
  "sorted_table t \<Longrightarrow>
   select (\<lambda>(k, _). k_mid k = m \<and> k_res k = r \<and> ts \<le> k_ts k \<and> k_ts k \<le> ts) t =
     (case row_at t (Key r ts m) of None \<Rightarrow> [] | Some v \<Rightarrow> [(Key r ts m, v)])"
proof (rule sorted_table_ext)
  assume s: "sorted_table t"
  show "sorted_table (case row_at t (Key r ts m) of None \<Rightarrow> [] | Some v \<Rightarrow> [(Key r ts m, v)])"
    by (simp add: sorted_table_def split: option.split)
  show "row_at (select (\<lambda>(k, _). k_mid k = m \<and> k_res k = r \<and> ts \<le> k_ts k \<and> k_ts k \<le> ts) t) k =
      row_at (case row_at t (Key r ts m) of None \<Rightarrow> [] | Some v \<Rightarrow> [(Key r ts m, v)]) k" for k
    by (cases k) (auto simp: row_at_select [OF s] row_at_nil row_at_single split: option.splits)
qed simp

text \<open>The readings of a batch after its write.\<close>

lemma written_point:
  assumes "rowid_ok f" and "coherent s" and "try_write ok f ts pts s = (Ok u, s')"
    and "distinct (map fst pts)" and "(m, Finite x) \<in> set pts" and "\<not> poisoned (st_read s)"
  shows "fst (series_of (\<lambda>_. True) m (as_i64 ts) (as_i64 ts) RAW 10 s') =
    Ok \<lparr>y_t = [as_i64 ts], y_avg = [x], y_min = [x], y_max = [x]\<rparr>"
proof (cases rule: try_write_committed [OF assms(3), case_names run])
  case (run t)
  have "list_all (has_point (as_i64 ts) (t_db t)) ([] @ pts) \<and> txn_ok t"
    by (rule write_points_has [OF assms(1) _ run(1)]) (use assms(2,4) in \<open>simp_all add: coherent_def txn_ok_def\<close>)
  then have "has_point (as_i64 ts) (st_db s') (m, Finite x)" and ok: "db_ok (st_db s')"
    using assms(5) run(2) by (auto simp: list_all_iff txn_ok_def)
  then obtain i where "id_of_name (st_db s') m = Some i"
    and "row_at (rows (st_db s')) (Key RAW (as_i64 ts) i) = Some (raw_sample x)"
    by (auto simp: has_point_def id_of_name_iff)
  moreover have "as_i64 10 = 10" by (simp add: as_i64_def)
  moreover have "sorted_table (rows (st_db s'))" using ok by (simp add: db_ok_def table_ok_def)
  ultimately show ?thesis
    using run(4) assms(6)
    by (simp add: series_of_defs query_rows_def select_one sql_limit_def raw_sample_def)
qed


text \<open>
  What is written can be read: after a successful write from a coherent state, every finite
  point of the batch is the raw reading of its metric at that second, with the value as average,
  minimum and maximum.
\<close>

theorem written_samples_readable:
  assumes "rowid_ok f" and "coherent s" and "try_write ok f ts pts s = (Ok u, s')"
    and "distinct (map fst pts)" and "(m, Finite x) \<in> set pts" and "\<not> poisoned (st_read s)"
  shows "fst (series_of (\<lambda>_. True) m (as_i64 ts) (as_i64 ts) RAW 10 s') =
    Ok \<lparr>y_t = [as_i64 ts], y_avg = [x], y_min = [x], y_max = [x]\<rparr>"
  by (rule written_point [OF assms])

lemma ex_written:
  "try_write all_ok next_rowid 300 [(''a'', Finite 1), (''b'', Finite 2)] ex_open =
     (Ok (), write_samples all_ok next_rowid 300 [(''a'', Finite 1), (''b'', Finite 2)] ex_open)"
  by code_simp

lemma ex_open_coherent: "coherent ex_open"
  by (simp add: coherent_def ex_open_def migrate_def empty_db_def db_ok_def table_ok_def sorted_table_def
      refs_ok_def memo_ok_def rows_def metrics_def)

theorem written_samples_readable_witness:
  "fst (series_of (\<lambda>_. True) ''b'' (as_i64 300) (as_i64 300) RAW 10
     (write_samples all_ok next_rowid 300 [(''a'', Finite 1), (''b'', Finite 2)] ex_open)) =
   Ok \<lparr>y_t = [as_i64 300], y_avg = [2], y_min = [2], y_max = [2]\<rparr>"
  by (rule written_samples_readable [OF next_rowid_ok ex_open_coherent ex_written]) (simp_all add: ex_open_def)

definition columns :: "series \<Rightarrow> (i64 \<times> rat \<times> rat \<times> rat) list" where
  "columns y = zip (y_t y) (zip (y_avg y) (zip (y_min y) (y_max y)))"

definition wanted :: "samples \<Rightarrow> i64 \<Rightarrow> i64 \<Rightarrow> i64 \<Rightarrow> i64 \<Rightarrow> i64 \<times> rat \<times> rat \<times> rat \<Rightarrow> bool" where
  "wanted t i res from to c \<longleftrightarrow>
     (case c of (ts, a, lo, hi) \<Rightarrow> from \<le> ts \<and> ts \<le> to \<and>
        (case row_at t (Key res ts i) of None \<Rightarrow> False | Some v \<Rightarrow> a = s_avg v \<and> lo = s_min v \<and> hi = s_max v))"

definition row_columns :: "key \<times> sample \<Rightarrow> i64 \<times> rat \<times> rat \<times> rat" where
  "row_columns r = (k_ts (fst r), s_avg (snd r), s_min (snd r), s_max (snd r))"

definition in_range :: "db \<Rightarrow> i64 \<Rightarrow> i64 \<Rightarrow> i64 \<Rightarrow> i64 \<Rightarrow> samples" where
  "in_range d i res from to =
     select (\<lambda>(k, _). k_mid k = i \<and> k_res k = res \<and> from \<le> k_ts k \<and> k_ts k \<le> to) (rows d)"

lemma query_rows_exact:
  assumes s: "sorted_table (rows d)" and n: "0 \<le> n" and all: "all = in_range d i res from to"
  shows "query_rows d i res from to n = take (nat n) all"
    and "sorted_wrt (\<lambda>a b. k_ts (fst a) < k_ts (fst b)) all"
    and "wanted (rows d) i res from to c \<longleftrightarrow> c \<in> row_columns ` set all"
proof -
  have at: "(k, v) \<in> set all \<longleftrightarrow> k_mid k = i \<and> k_res k = res \<and> from \<le> k_ts k \<and> k_ts k \<le> to \<and> row_at (rows d) k = Some v"
    for k v by (auto simp: all in_range_def select_def row_at_in_set [OF s])
  show ord: "sorted_wrt (\<lambda>a b. k_ts (fst a) < k_ts (fst b)) all"
    by (rule sorted_by_time [of _ res i]) (use sorted_select [OF s] in \<open>auto simp: all in_range_def select_def\<close>)
  then have "sorted (map (\<lambda>r. k_ts (fst r)) all)"
    by (auto simp: sorted_wrt_map intro: sorted_wrt_mono_rel [rotated])
  then have "sort_key (\<lambda>r. k_ts (fst r)) all = all" by (rule sort_key_id_if_sorted)
  with n show "query_rows d i res from to n = take (nat n) all"
    by (simp add: query_rows_def all in_range_def sql_limit_def)
  show "wanted (rows d) i res from to c \<longleftrightarrow> c \<in> row_columns ` set all"
  proof
    assume "wanted (rows d) i res from to c"
    then obtain v where "(Key res (fst c) i, v) \<in> set all" "c = row_columns (Key res (fst c) i, v)"
      by (cases c) (auto simp: wanted_def row_columns_def at split: option.splits)
    then show "c \<in> row_columns ` set all" by (rule_tac image_eqI)
  next
    assume "c \<in> row_columns ` set all"
    then obtain k v where "(k, v) \<in> set all" and c: "c = row_columns (k, v)" by auto
    then show "wanted (rows d) i res from to c"
      by (cases k) (auto simp: at c wanted_def row_columns_def)
  qed
qed

lemma take_or_later:
  assumes "sorted_wrt r xs" and "x \<in> set xs" and "x \<notin> set (take n xs)"
  shows "length (take n xs) = n \<and> (\<forall>y\<in>set (take n xs). r y x)"
proof -
  have "x \<in> set (drop n xs)" using assms(2,3) by (metis Un_iff append_take_drop_id set_append)
  moreover from this have "n < length xs" by (metis drop_all empty_iff empty_set leI)
  ultimately show ?thesis
    using assms(1) sorted_wrt_append [of r "take n xs" "drop n xs"] by simp
qed

text \<open>
  C22. A query of a known metric returns stored rows of the requested tier and range in strictly
  increasing time, as four columns of the same length, never more than the limit; a stored row
  is left out only when the limit is reached, and then it is later than all that were returned.
\<close>

theorem series_exact:
  assumes "db_ok (st_db s)" and "\<not> poisoned (st_read s)" and "id_of_name (st_db s) m = Some i"
    and "0 \<le> as_i64 limit"
  shows "\<exists>y. series_of (\<lambda>_. True) m from to res limit s = (Ok y, s)
    \<and> sorted_wrt (<) (y_t y) \<and> length (y_t y) = length (columns y) \<and> length (columns y) \<le> nat (as_i64 limit)
    \<and> map fst (columns y) = y_t y
    \<and> (\<forall>c\<in>set (columns y). wanted (rows (st_db s)) i res from to c)
    \<and> (\<forall>c. wanted (rows (st_db s)) i res from to c \<longrightarrow> c \<notin> set (columns y) \<longrightarrow>
         length (y_t y) = nat (as_i64 limit) \<and> (\<forall>t\<in>set (y_t y). t < fst c))"
proof -
  let ?all = "in_range (st_db s) i res from to"
  let ?r = "take (nat (as_i64 limit)) ?all"
  have "sorted_table (rows (st_db s))" using assms(1) by (simp add: db_ok_def table_ok_def)
  note q = query_rows_exact [OF this assms(4) refl]
  define y where "y = \<lparr>y_t = map (\<lambda>(k, _). k_ts k) ?r, y_avg = map (\<lambda>(_, v). s_avg v) ?r,
    y_min = map (\<lambda>(_, v). s_min v) ?r, y_max = map (\<lambda>(_, v). s_max v) ?r\<rparr>"
  have run: "series_of (\<lambda>_. True) m from to res limit s = (Ok y, s)"
    using assms(2,3) by (simp add: series_of_defs q(1) y_def Let_def)
  have cols: "columns y = map row_columns ?r"
    by (simp add: columns_def y_def row_columns_def zip_map_map zip_same_conv_map case_prod_beta)
  have yt: "y_t y = map fst (columns y)" by (simp add: cols) (simp add: y_def row_columns_def case_prod_beta)
  have "sorted_wrt (\<lambda>a b. k_ts (fst a) < k_ts (fst b)) ?r"
    using q(2) by (metis append_take_drop_id sorted_wrt_append)
  then have "sorted_wrt (<) (y_t y)"
    by (simp add: yt cols sorted_wrt_map row_columns_def)
  moreover have "wanted (rows (st_db s)) i res from to c" if "c \<in> set (columns y)" for c
    using that by (auto simp: q(3) cols dest: in_set_takeD)
  moreover have "length (y_t y) = nat (as_i64 limit) \<and> (\<forall>t\<in>set (y_t y). t < fst c)"
    if c: "wanted (rows (st_db s)) i res from to c" "c \<notin> set (columns y)" for c
  proof -
    from c(1) obtain r where r: "r \<in> set ?all" "c = row_columns r" unfolding q(3) by blast
    with c(2) have "r \<notin> set ?r" by (auto simp: cols)
    from take_or_later [OF q(2) r(1) this] show ?thesis
      by (simp add: yt cols r(2) row_columns_def)
  qed
  ultimately show ?thesis using run yt cols by (intro exI [of _ y]) auto
qed

theorem series_exact_witness:
  "\<exists>y. series_of (\<lambda>_. True) ''a'' 0 1000 RAW 1 (run_store [W 300 [(''a'', Finite 1)], W 315 [(''a'', Finite 2)]] ex_open)
      = (Ok y, run_store [W 300 [(''a'', Finite 1)], W 315 [(''a'', Finite 2)]] ex_open)
    \<and> sorted_wrt (<) (y_t y) \<and> length (y_t y) = length (columns y) \<and> length (columns y) \<le> nat (as_i64 1)
    \<and> map fst (columns y) = y_t y
    \<and> (\<forall>c\<in>set (columns y). wanted (rows (st_db (run_store [W 300 [(''a'', Finite 1)], W 315 [(''a'', Finite 2)]] ex_open))) 1 RAW 0 1000 c)
    \<and> (\<forall>c. wanted (rows (st_db (run_store [W 300 [(''a'', Finite 1)], W 315 [(''a'', Finite 2)]] ex_open))) 1 RAW 0 1000 c
        \<longrightarrow> c \<notin> set (columns y) \<longrightarrow> length (y_t y) = nat (as_i64 1) \<and> (\<forall>t\<in>set (y_t y). t < fst c))"
  by (rule series_exact [OF run_store_db_ok]) (code_simp, code_simp, simp add: as_i64_def)

section \<open>Compaction\<close>

definition rebuilt :: "i64 \<Rightarrow> i64 \<Rightarrow> i64 \<Rightarrow> samples \<Rightarrow> i64 \<Rightarrow> i64 \<Rightarrow> sample option \<Rightarrow> sample option" where
  "rebuilt w src lo t b m old =
     (let g = bucket_rows w src lo t b m in if g = [] then old else agg g)"

text \<open>
  C14. A committed compaction drops exactly the rows older than each tier's retention, replaces a
  five-minute row by the aggregate of the raw rows it still sees and an hour row by the aggregate of
  the five-minute rows, where there are any, keeps every other row, and keeps exactly the metrics
  that still have samples.
\<close>

theorem compaction_effect:
  assumes "db_ok (st_db s)" and "time_ok now" and "try_compact ok now s = (Ok u, s')"
  shows "row_at (rows (st_db s')) (Key RAW t m) =
      (if t < now - RAW_RETENTION then None else row_at (rows (st_db s)) (Key RAW t m))
    \<and> row_at (rows (st_db s')) (Key FIVE_MIN b m) =
      (if b < now - FIVE_MIN_RETENTION then None
       else rebuilt FIVE_MIN RAW (lo5 (last_compact (ok 0) (st_db s)) now) (rows (st_db s)) b m
         (row_at (rows (st_db s)) (Key FIVE_MIN b m)))
    \<and> row_at (rows (st_db s')) (Key HOUR b m) =
      (if b < now - HOUR_RETENTION then None
       else rebuilt HOUR FIVE_MIN (lo60 (last_compact (ok 0) (st_db s)) now) (rows (st_db s')) b m
         (row_at (rows (st_db s)) (Key HOUR b m)))
    \<and> metrics (st_db s') = filter (\<lambda>(i, _). \<exists>r\<in>set (rows (st_db s')). k_mid (fst r) = i) (metrics (st_db s))
    \<and> last_compact True (st_db s') = now"
proof -
  note tiers = compaction_tiers [OF assms]
  have gc: "i \<in> mids x \<longleftrightarrow> (\<exists>r\<in>set x. k_mid (fst r) = i)" for i x by auto
  show ?thesis
    using tiers(1) [of t m] tiers(2,3) [of b m] tiers(4,5) by (simp add: rebuilt_def Let_def gc)
qed

lemma ex_compacted:
  "try_compact all_ok 1200 (run_store [W 600 [(''a'', Finite 1)], W 615 [(''a'', Finite 3)]] ex_open) =
     (Ok (), compact_store all_ok 1200 (run_store [W 600 [(''a'', Finite 1)], W 615 [(''a'', Finite 3)]] ex_open))"
  by code_simp

theorem compaction_effect_witness:
  "row_at (rows (st_db (run_store [W 600 [(''a'', Finite 1)], W 615 [(''a'', Finite 3)], C 1200] ex_open))) (Key FIVE_MIN 600 1)
     = Some \<lparr>s_avg = 2, s_min = 1, s_max = 3, s_n = 2\<rparr>"
proof -
  let ?s = "run_store [W 600 [(''a'', Finite 1)], W 615 [(''a'', Finite 3)]] ex_open"
  have "rebuilt FIVE_MIN RAW (lo5 (last_compact True (st_db ?s)) 1200) (rows (st_db ?s)) 600 1
      (row_at (rows (st_db ?s)) (Key FIVE_MIN 600 1)) = Some \<lparr>s_avg = 2, s_min = 1, s_max = 3, s_n = 2\<rparr>"
    by code_simp
  moreover note compaction_effect [OF run_store_db_ok _ ex_compacted, where b = 600 and m = 1]
  ultimately show ?thesis
    by (simp add: time_ok_def all_ok_def FIVE_MIN_RETENTION_def)
qed

text \<open>
  C9. On a regular schedule (no sample older than the bucket of the last compaction, the next compaction at most
  301 seconds after it) every five-minute bucket that closed before the last compaction is
  exactly the aggregate of all the samples ever committed for it, until its retention ends.
\<close>

theorem closed_buckets_exact:
  assumes "reachable (sched_init f) (sched_step f) (ghost, s)"
    and "300 dvd b" and "last_compact True (st_db s) - FIVE_MIN_RETENTION \<le> b"
    and "b < bucket_of 300 (last_compact True (st_db s))"
  shows "row_at (rows (st_db s)) (Key FIVE_MIN b m) = rolled_row FIVE_MIN RAW 0 ghost b m"
  by (rule sched_invD(7) [OF sched.inv_reachable [OF assms(1)] assms(2-4)])


fun sched_run :: "op list \<Rightarrow> samples \<times> store \<Rightarrow> (samples \<times> store) option" where
  "sched_run [] c = Some c"
| "sched_run (W ts pts # ops) (g, s) =
     (if bucket_of 300 (last_compact True (st_db s)) \<le> as_i64 ts
      then let s' = write_samples all_ok next_rowid ts pts s
           in sched_run ops (logged (as_i64 ts) (st_db s') g, s')
      else None)"
| "sched_run (C now # ops) (g, s) =
     (case try_compact all_ok now s of
        (Ok _, s') \<Rightarrow>
          if time_ok now \<and> last_compact True (st_db s) < now \<and> now \<le> last_compact True (st_db s) + 301
          then sched_run ops (g, s') else None
      | _ \<Rightarrow> None)"

lemma sched_run_reachable:
  "sched_run ops c = Some c' \<Longrightarrow> reachable (sched_init next_rowid) (sched_step next_rowid) c \<Longrightarrow>
   reachable (sched_init next_rowid) (sched_step next_rowid) c'"
proof (induction ops c rule: sched_run.induct)
  case (2 ts pts ops g s)
  obtain r s' where w: "try_write all_ok next_rowid ts pts s = (r, s')" by (metis surj_pair)
  from 2 have "bucket_of 300 (last_compact True (st_db s)) \<le> as_i64 ts"
    and rest: "sched_run ops (logged (as_i64 ts) (st_db s') g, s') = Some c'"
    using w by (auto simp: write_samples_def Let_def split: if_splits)
  with 2 w show ?case
    by (auto simp: write_samples_def Let_def intro: reachable_step sched_write split: if_splits)
next
  case (3 now ops g s)
  from 3(2) obtain u s' where run: "try_compact all_ok now s = (Ok u, s')"
    and rest: "sched_run ops (g, s') = Some c'" and time: "time_ok now" "last_compact True (st_db s) < now"
      "now \<le> last_compact True (st_db s) + 301"
    by (auto split: prod.splits outcome.splits if_splits)
  have "sched_step next_rowid (g, s) (g, s')"
    by (rule sched_compact [OF run _ time]) (simp add: all_ok_def)
  with 3 run rest time show ?case by (auto intro: reachable_step)
qed simp

definition ex_ops :: "op list" where
  "ex_ops = [C 300, W 305 [(''a'', Finite 1)], C 600, W 615 [(''a'', Finite 3)], W 640 [(''a'', Finite 5)], C 900]"

definition ex_sched :: "samples \<times> store" where
  "ex_sched = (case sched_run ex_ops ([], ex_open) of Some c \<Rightarrow> c | None \<Rightarrow> ([], ex_open))"

lemma ex_sched_run: "sched_run ex_ops ([], ex_open) \<noteq> None"
  by code_simp

lemma ex_sched_reachable: "reachable (sched_init next_rowid) (sched_step next_rowid) ex_sched"
proof -
  have "reachable (sched_init next_rowid) (sched_step next_rowid) ([], ex_open)"
    using ex_open_coherent next_rowid_ok
    by (intro reachable_init)
      (simp add: sched_init_def coherent_def, simp add: ex_open_def migrate_def empty_db_def rows_def last_compact_def time_ok_def)
  then show ?thesis
    using sched_run_reachable ex_sched_run by (fastforce simp: ex_sched_def)
qed

theorem closed_buckets_exact_witness:
  "row_at (rows (st_db (snd ex_sched))) (Key FIVE_MIN 600 1) = rolled_row FIVE_MIN RAW 0 (fst ex_sched) 600 1
   \<and> rolled_row FIVE_MIN RAW 0 (fst ex_sched) 600 1 = Some \<lparr>s_avg = 4, s_min = 3, s_max = 5, s_n = 2\<rparr>"
proof
  have last: "last_compact True (st_db (snd ex_sched)) = 900" by code_simp
  show "row_at (rows (st_db (snd ex_sched))) (Key FIVE_MIN 600 1) = rolled_row FIVE_MIN RAW 0 (fst ex_sched) 600 1"
    by (rule closed_buckets_exact [of next_rowid]) (simp_all add: ex_sched_reachable last bucket_of_def FIVE_MIN_RETENTION_def)
  show "rolled_row FIVE_MIN RAW 0 (fst ex_sched) 600 1 = Some \<lparr>s_avg = 4, s_min = 3, s_max = 5, s_n = 2\<rparr>"
    by code_simp
qed

text \<open>
  C15. On the same schedule every hour whose five-minute buckets have closed is exactly the aggregate of
  all the raw samples ever committed for it, although it is built from the five-minute rows, and stays so
  until it is older than 180 days, long after those rows are gone.
\<close>

theorem closed_hours_exact:
  assumes "reachable (sched_init f) (sched_step f) (ghost, s)"
    and "3600 dvd h" and "last_compact True (st_db s) - HOUR_RETENTION \<le> h"
    and "h + 3600 \<le> bucket_of 300 (last_compact True (st_db s))"
  shows "row_at (rows (st_db s)) (Key HOUR h m) = rolled_row HOUR RAW 0 ghost h m"
  by (rule hours_invD(4) [OF hours.inv_reachable [OF assms(1)] assms(2-4)])

text \<open>A service that starts with a compaction at second 3000.\<close>

definition ex_started :: store where
  "ex_started = compact_store all_ok 3000 ex_open"

definition ex_hour_ops :: "op list" where
  "ex_hour_ops = [W 3100 [(''a'', Finite 1)], C 3300, W 3310 [(''a'', Finite 3)], W 3320 [(''a'', Finite 8)], C 3600]"

definition ex_hour :: "samples \<times> store" where
  "ex_hour = (case sched_run ex_hour_ops ([], ex_started) of Some c \<Rightarrow> c | None \<Rightarrow> ([], ex_started))"

lemma ex_hour_run: "sched_run ex_hour_ops ([], ex_started) \<noteq> None"
  by code_simp

lemma ex_started_empty: "rows (st_db ex_started) = [] \<and> last_compact True (st_db ex_started) = 3000"
  by code_simp

lemma ex_hour_reachable: "reachable (sched_init next_rowid) (sched_step next_rowid) ex_hour"
proof -
  have "db_ok (st_db ex_started)"
    using compact_db ex_open_coherent by (simp add: ex_started_def coherent_def)
  then have "reachable (sched_init next_rowid) (sched_step next_rowid) ([], ex_started)"
    using next_rowid_ok ex_started_empty by (intro reachable_init) (simp add: sched_init_def time_ok_def)
  then show ?thesis
    using sched_run_reachable ex_hour_run by (fastforce simp: ex_hour_def)
qed

theorem closed_hours_exact_witness:
  "row_at (rows (st_db (snd ex_hour))) (Key HOUR 0 1) = rolled_row HOUR RAW 0 (fst ex_hour) 0 1
   \<and> rolled_row HOUR RAW 0 (fst ex_hour) 0 1 = Some \<lparr>s_avg = 4, s_min = 1, s_max = 8, s_n = 3\<rparr>"
proof
  have last: "last_compact True (st_db (snd ex_hour)) = 3600" by code_simp
  show "row_at (rows (st_db (snd ex_hour))) (Key HOUR 0 1) = rolled_row HOUR RAW 0 (fst ex_hour) 0 1"
    by (rule closed_hours_exact [of next_rowid]) (simp_all add: ex_hour_reachable last bucket_of_def HOUR_RETENTION_def)
  show "rolled_row HOUR RAW 0 (fst ex_hour) 0 1 = Some \<lparr>s_avg = 4, s_min = 1, s_max = 8, s_n = 3\<rparr>"
    by code_simp
qed

section \<open>The memo of metric ids\<close>

text \<open>
  C39. The memo stays coherent: from a coherent store every write that succeeds and every
  compaction, even a failing one, leaves a coherent store, where each memoised id is the id of that
  name and each sample belongs to a metric.
\<close>

theorem memo_stays_coherent:
  assumes "coherent s" and "rowid_ok f"
  shows "(fst (try_write ok f ts pts s) = Ok () \<longrightarrow> coherent (write_samples ok f ts pts s))
    \<and> coherent (compact_store ok now s)"
proof
  obtain r s' where run: "try_write ok f ts pts s = (r, s')" by (metis surj_pair)
  show "fst (try_write ok f ts pts s) = Ok () \<longrightarrow> coherent (write_samples ok f ts pts s)"
  proof
    assume "fst (try_write ok f ts pts s) = Ok ()"
    then have "try_write ok f ts pts s = (Ok (), s')" using run by simp
    from try_write_coherent [OF assms(2,1) this] show "coherent (write_samples ok f ts pts s)"
      by (simp add: write_samples_def run)
  qed
qed (rule compact_coherent [OF assms(1)])

theorem memo_stays_coherent_witness:
  "coherent (write_samples all_ok next_rowid 300 [(''a'', Finite 1), (''b'', Finite 2)] ex_open)
   \<and> coherent (compact_store (fail_at 4) 600 ex_open)"
  using memo_stays_coherent [OF ex_open_coherent next_rowid_ok] ex_written by (metis fst_conv)

section \<open>Resolutions\<close>

text \<open>
  The resolution chosen for a span is one of the three tiers; the points of the span at that
  resolution are at most 500 exactly when the span is shorter than 500 hours, so a longer range,
  up to the 180 days that are kept, returns more.
\<close>

theorem pick_res_points:
  "is_valid_res (pick_res secs) \<and> (secs div pick_res secs + 1 \<le> 500 \<longleftrightarrow> secs < 500 * HOUR)
   \<and> (HOUR_RETENTION div pick_res HOUR_RETENTION + 1 = 4321)"
proof -
  have "secs div 15 + 1 \<le> 500" if "secs \<le> 3600" using that by linarith
  moreover have "secs div 300 + 1 \<le> 500" if "secs \<le> 86400" using that by linarith
  moreover have "secs div 3600 + 1 \<le> 500 \<longleftrightarrow> secs < 1800000" by linarith
  ultimately show ?thesis
    by (simp add: is_valid_res_def pick_res_def RAW_def FIVE_MIN_def HOUR_def HOUR_RETENTION_def)
qed

end
