(* ===== verification/Store_Race.thy ===== *)
theory Store_Race
  imports Store_Props Interleaving
begin

text \<open>
  Queries beside the writer. \<open>series\<close> runs its two statements on a connection of its own and outside
  any transaction, so each sees what is committed when it starts, and writes and compactions can be
  committed between them. A write and a compaction hold the writer's guard from end to end: for a
  reader each is one step.
\<close>

section \<open>Requests to the store\<close>

definition series_task ::
  "(nat \<Rightarrow> bool) \<Rightarrow> string \<Rightarrow> i64 \<Rightarrow> i64 \<Rightarrow> i64 \<Rightarrow> u64 \<Rightarrow> (store, (string, series) outcome) task" where
  "series_task ok metric from to res limit =
     sect (find_metric ok metric) (\<lambda>found.
       case found of
         None \<Rightarrow> Returned (Ok empty_series)
       | Some mid \<Rightarrow> sect (read_rows ok mid from to res limit) (\<lambda>y. Returned (Ok y)))"

text \<open>The collector and the compactor take no answer.\<close>

definition write_task :: "(nat \<Rightarrow> bool) \<Rightarrow> (i64 list \<Rightarrow> i64) \<Rightarrow> u64 \<Rightarrow> points \<Rightarrow> (store, (string, series) outcome) task" where
  "write_task ok rowid ts pts = Section (\<lambda>s. (Returned (Ok empty_series), write_samples ok rowid ts pts s))"

definition compact_task :: "(nat \<Rightarrow> bool) \<Rightarrow> i64 \<Rightarrow> (store, (string, series) outcome) task" where
  "compact_task ok now = Section (\<lambda>s. (Returned (Ok empty_series), compact_store ok now s))"

inductive store_request :: "(i64 list \<Rightarrow> i64) \<Rightarrow> (store, (string, series) outcome) task \<Rightarrow> bool"
  for f :: "i64 list \<Rightarrow> i64" where
  "store_request f (series_task ok metric from to res limit)"
| "store_request f (write_task ok f ts pts)"
| "store_request f (compact_task ok now)"

text \<open>Nothing else touches the store.\<close>

abbreviation store_moves ::
  "(i64 list \<Rightarrow> i64) \<Rightarrow> (store, (string, series) outcome) pool \<Rightarrow> (store, (string, series) outcome) pool \<Rightarrow> bool" where
  "store_moves f \<equiv> (pool_step (store_request f) (=))\<^sup>*\<^sup>*"

lemma series_task_alone: "run_alone (series_task ok metric from to res limit) = series_of ok metric from to res limit"
proof
  fix s
  show "run_alone (series_task ok metric from to res limit) s = series_of ok metric from to res limit s"
    by (cases "find_metric ok metric s") (auto simp: series_task_def series_of_def bind_def ret_def
        read_rows_def Let_def split: outcome.split option.split)
qed

section \<open>What the writer does to the names\<close>

inductive writer_step :: "(i64 list \<Rightarrow> i64) \<Rightarrow> store \<Rightarrow> store \<Rightarrow> bool" for f :: "i64 list \<Rightarrow> i64" where
  "writer_step f s (write_samples ok f ts pts s)"
| "writer_step f s (compact_store ok now s)"

abbreviation writes :: "(i64 list \<Rightarrow> i64) \<Rightarrow> store \<Rightarrow> store \<Rightarrow> bool" where
  "writes f \<equiv> (writer_step f)\<^sup>*\<^sup>*"

lemma transact_read [simp]: "st_read (snd (transact m s)) = st_read s"
  by (simp add: transact_def split: option.split prod.split outcome.split)

lemma compact_read: "st_read (snd (try_compact ok now s)) = st_read s"
proof -
  obtain r t where t: "transact (bind (stmt (ok \<circ> Suc) ''begin'' nop) (\<lambda>_.
      bind (compact_stmts (ok \<circ> Suc) (last_compact (ok 0) (st_db s)) now) (\<lambda>_. stmt (ok \<circ> Suc) ''commit'' nop))) s = (r, t)"
    by (metis surj_pair)
  with transact_read have "st_read t = st_read s" by (metis snd_conv)
  with t show ?thesis
    by (simp add: try_compact_def Let_def bind_def split: outcome.split option.split)
qed

lemma writer_step_read: "writer_step f s t \<Longrightarrow> st_read t = st_read s"
  by (erule writer_step.cases) (simp_all add: write_samples_def try_write_def compact_store_def compact_read)

lemma writer_step_db_ok: "rowid_ok f \<Longrightarrow> writer_step f s t \<Longrightarrow> db_ok (st_db s) \<Longrightarrow> db_ok (st_db t)"
  by (erule writer_step.cases) (auto intro: try_write_db compact_db)

lemma write_names: "set (metrics (st_db s)) \<subseteq> set (metrics (st_db (write_samples ok f ts pts s)))"
  unfolding write_samples_def
proof (rule try_write_keeps [OF prod.collapse [symmetric]])
  fix d name u d'
  assume "set (metrics (st_db s)) \<subseteq> set (metrics d)" and "intern f name d = Some (u, d')"
  then show "set (metrics (st_db s)) \<subseteq> set (metrics d')" using intern_metrics by blast
qed (auto simp: put_sample_def)

lemma gc_names: "gc_metrics d = Some (u, d') \<Longrightarrow> set (metrics d') \<subseteq> set (metrics d)"
  by (auto simp: gc_metrics_def metrics_def split: option.splits)

lemma compact_names: "set (metrics (st_db (compact_store ok now s))) \<subseteq> set (metrics (st_db s))"
proof -
  let ?P = "\<lambda>d. set (metrics d) \<subseteq> set (metrics (st_db s))"
  let ?m = "bind (stmt (ok \<circ> Suc) ''begin'' nop) (\<lambda>_.
      bind (compact_stmts (ok \<circ> Suc) (last_compact (ok 0) (st_db s)) now) (\<lambda>_. stmt (ok \<circ> Suc) ''commit'' nop))"
  obtain r t where t: "transact ?m s = (r, t)" by (metis surj_pair)
  have "keeps (txn_db ?P) ?m"
    unfolding compact_stmts_def
    by (intro triple_bind [where Q = "\<lambda>_. txn_db ?P"] keeps_stmt_db)
      (auto simp: nop_Some on_samples_Some set_last_Some dest: gc_names)
  from transact_db [OF t this] have "?P (st_db t)" by simp
  with t show ?thesis
    by (auto simp: compact_store_def try_compact_def Let_def bind_def split: outcome.split option.split)
qed

text \<open>A step of the writer keeps the id of a name or removes the name.\<close>

lemma writer_step_id:
  assumes "rowid_ok f" and "db_ok (st_db s)" and "writer_step f s t" and "id_of_name (st_db s) m = Some i"
  shows "id_of_name (st_db t) m = Some i \<or> id_of_name (st_db t) m = None"
proof -
  note ok = writer_step_db_ok [OF assms(1,3,2)]
  have s: "(i, m) \<in> set (metrics (st_db s))" using assms(4) by (rule id_of_name_in)
  from assms(3) show ?thesis
  proof cases
    case (1 ok' ts pts)
    with s write_names [of s ok' f ts pts] have "(i, m) \<in> set (metrics (st_db t))" by auto
    then show ?thesis by (simp add: id_of_name_iff [OF ok])
  next
    case (2 ok' now)
    have "j = i" if "id_of_name (st_db t) m = Some j" for j
    proof -
      from id_of_name_in [OF that] 2 compact_names [of ok' now s] have "(j, m) \<in> set (metrics (st_db s))" by auto
      then have "id_of_name (st_db s) m = Some j" by (simp add: id_of_name_iff [OF assms(2)])
      with assms(4) show "j = i" by simp
    qed
    then show ?thesis by (cases "id_of_name (st_db t) m") auto
  qed
qed

text \<open>The name keeps its id, or there is a moment at which it is unknown.\<close>

lemma writes_id:
  assumes "writes f s t" and "rowid_ok f" and "db_ok (st_db s)" and "id_of_name (st_db s) m = Some i"
  shows "id_of_name (st_db t) m = Some i \<or> (\<exists>u. writes f s u \<and> writes f u t \<and> id_of_name (st_db u) m = None)"
  using assms(1,3,4)
proof (induction rule: converse_rtranclp_induct)
  case base
  then show ?case by simp
next
  case (step s u)
  note ok = writer_step_db_ok [OF assms(2) step.hyps(1) step.prems(1)]
  from writer_step_id [OF assms(2) step.prems(1) step.hyps(1) step.prems(2)]
  show ?case
  proof
    assume "id_of_name (st_db u) m = Some i"
    from step.IH [OF ok this] show ?case
      using converse_rtranclp_into_rtranclp [of "writer_step f", OF step.hyps(1)] by blast
  next
    assume "id_of_name (st_db u) m = None"
    with step.hyps show ?case by blast
  qed
qed

lemma writes_read: "writes f s t \<Longrightarrow> st_read t = st_read s"
  by (induction rule: rtranclp_induct) (simp_all add: writer_step_read)

section \<open>An answer is of one moment\<close>

text \<open>Tasks whose sections are steps of the writer or leave the store alone.\<close>

inductive quiet :: "(i64 list \<Rightarrow> i64) \<Rightarrow> (store, 'a) task \<Rightarrow> bool" for f :: "i64 list \<Rightarrow> i64" where
  quiet_Returned: "quiet f (Returned x)"
| quiet_Section: "(\<And>s. writes f s (snd (g s)) \<and> quiet f (fst (g s))) \<Longrightarrow> quiet f (Section g)"

inductive_simps quiet_Section_iff [simp]: "quiet f (Section g)"

lemma quiet_advance: "quiet f (Section g) \<Longrightarrow> g s = (t, s') \<Longrightarrow> writes f s s' \<and> quiet f t"
  unfolding quiet_Section_iff by (metis fst_conv snd_conv)

lemma find_metric_state: "find_metric ok m s = (r, t) \<Longrightarrow> t = s"
  by (auto simp: find_metric_def split: option.splits if_splits)

lemma read_rows_state: "read_rows ok mid from to res limit s = (r, t) \<Longrightarrow> t = s"
  by (auto simp: read_rows_def Let_def split: if_splits)

lemma quiet_sect:
  assumes "\<And>s r t. p s = (r, t) \<Longrightarrow> t = s" and "\<And>x. quiet f (k x)"
  shows "quiet f (sect p k)"
  unfolding sect_def
proof (rule quiet_Section)
  fix s
  obtain r t where run: "p s = (r, t)" by (metis surj_pair)
  with assms(1) have "t = s" by blast
  with run assms(2) show "writes f s (snd (case p s of (Ok x, s') \<Rightarrow> (k x, s')
      | (Err e, s') \<Rightarrow> (Returned (Err e), s') | (Panic, s') \<Rightarrow> (Returned Panic, s')))
    \<and> quiet f (fst (case p s of (Ok x, s') \<Rightarrow> (k x, s')
      | (Err e, s') \<Rightarrow> (Returned (Err e), s') | (Panic, s') \<Rightarrow> (Returned Panic, s')))"
    by (auto intro: quiet_Returned split: outcome.split)
qed

lemma quiet_request: "store_request f t \<Longrightarrow> quiet f t"
proof (induction rule: store_request.induct)
  case (1 ok metric lo hi res limit)
  then show ?case unfolding series_task_def
    by (auto intro!: quiet_sect quiet_Returned dest: find_metric_state read_rows_state split: option.split)
qed (auto simp: write_task_def compact_task_def intro!: quiet_Section quiet_Returned writer_step.intros r_into_rtranclp)

lemma two_statements:
  assumes "writes f s t" and "rowid_ok f" and "db_ok (st_db s)"
    and found: "find_metric ok metric s = (Ok (Some i), s')" and read: "read_rows ok i from to res limit t = (Ok y, t')"
  shows "(\<exists>u. writes f s u \<and> writes f u t \<and> fst (series_of ok metric from to res limit u) = Ok y)
    \<or> id_of_name (st_db s) metric = Some i \<and> id_of_name (st_db t) metric \<noteq> Some i \<and> i \<in> mids (rows (st_db t))"
proof -
  have s: "\<not> poisoned (st_read s)" "ok 0" "ok 1" "id_of_name (st_db s) metric = Some i"
    using found by (auto simp: find_metric_def lock_def split: if_splits)
  consider (same) "id_of_name (st_db t) metric = Some i" | (taken) "id_of_name (st_db t) metric \<noteq> Some i" "i \<in> mids (rows (st_db t))"
    | (gone) "id_of_name (st_db t) metric \<noteq> Some i" "i \<notin> mids (rows (st_db t))" by blast
  then show ?thesis
  proof cases
    case same
    with s writes_read [OF assms(1)] read have "fst (series_of ok metric from to res limit t) = Ok y"
      by (simp add: series_of_def bind_def find_metric_def)
    with assms(1) show ?thesis by blast
  next
    case gone
    then have "select (\<lambda>(k, _). k_mid k = i \<and> k_res k = res \<and> from \<le> k_ts k \<and> k_ts k \<le> to) (rows (st_db t)) = []"
      by (force simp: select_def filter_empty_conv)
    with read have y: "y = empty_series"
      by (auto simp: read_rows_def query_rows_def sql_limit_def empty_series_def Let_def split: if_splits)
    from writes_id [OF assms(1-3) s(4)] gone(1)
    obtain u where u: "writes f s u" "writes f u t" "id_of_name (st_db u) metric = None" by blast
    with s writes_read [OF u(1)] have "fst (series_of ok metric from to res limit u) = Ok y"
      by (simp add: series_of_defs y)
    with u show ?thesis by blast
  qed (use s in simp)
qed

text \<open>The pool keeps the database sound and its tasks quiet, and moves the store by steps of the writer.\<close>

definition pool_sound :: "(i64 list \<Rightarrow> i64) \<Rightarrow> (store, (string, series) outcome) pool \<Rightarrow> bool" where
  "pool_sound f p \<longleftrightarrow> db_ok (st_db (shared p)) \<and> list_all (quiet f) (tasks p)"

lemma writes_db_ok: "writes f s t \<Longrightarrow> rowid_ok f \<Longrightarrow> db_ok (st_db s) \<Longrightarrow> db_ok (st_db t)"
  by (induction rule: rtranclp_induct) (simp_all add: writer_step_db_ok)

lemma pool_moves:
  assumes "pool_step (store_request f) (=) p q" and "rowid_ok f" and "pool_sound f p"
  shows "pool_sound f q \<and> writes f (shared p) (shared q)"
  using assms(1)
proof cases
  case (spawn t)
  with assms(3) show ?thesis by (simp add: pool_sound_def quiet_request)
next
  case (advance i g t s)
  with assms(3) have "quiet f (Section g)" by (auto simp: pool_sound_def list_all_length)
  then have "writes f (shared p) s" "quiet f t" using quiet_advance advance(4) by blast+
  with advance assms(2,3) show ?thesis
    by (auto simp: pool_sound_def list_all_length nth_list_update intro: writes_db_ok)
next
  case (other s)
  with assms(3) show ?thesis by (simp add: pool_sound_def)
qed

text \<open>Where a query is: not begun, between its statements, or answered.\<close>

definition answered ::
  "(i64 list \<Rightarrow> i64) \<Rightarrow> (store \<Rightarrow> series \<Rightarrow> bool) \<Rightarrow> string \<Rightarrow> store \<Rightarrow> store \<Rightarrow> series \<Rightarrow> bool" where
  "answered f answer metric s0 s1 y \<longleftrightarrow>
     (\<exists>u. writes f s0 u \<and> writes f u s1 \<and> answer u y)
     \<or> (\<exists>s t i. writes f s0 s \<and> writes f s t \<and> writes f t s1
          \<and> id_of_name (st_db s) metric = Some i \<and> id_of_name (st_db t) metric \<noteq> Some i \<and> i \<in> mids (rows (st_db t)))"

lemma answered_later: "answered f a m s0 s1 y \<Longrightarrow> writes f s1 s2 \<Longrightarrow> answered f a m s0 s2 y"
  unfolding answered_def by (meson rtranclp_trans)

inductive query_at ::
  "(i64 list \<Rightarrow> i64) \<Rightarrow> (nat \<Rightarrow> bool) \<Rightarrow> string \<Rightarrow> i64 \<Rightarrow> i64 \<Rightarrow> i64 \<Rightarrow> u64 \<Rightarrow>
   store \<Rightarrow> store \<Rightarrow> (store, (string, series) outcome) task \<Rightarrow> bool"
  for f :: "i64 list \<Rightarrow> i64" and ok :: "nat \<Rightarrow> bool" and metric :: string and lo hi res :: i64 and limit :: u64
    and s0 s1 :: store where
  "query_at f ok metric lo hi res limit s0 s1 (series_task ok metric lo hi res limit)"
| "writes f s0 s \<Longrightarrow> writes f s s1 \<Longrightarrow> find_metric ok metric s = (Ok (Some i), s) \<Longrightarrow>
   query_at f ok metric lo hi res limit s0 s1 (sect (read_rows ok i lo hi res limit) (\<lambda>y. Returned (Ok y)))"
| "(\<forall>y. r = Ok y \<longrightarrow> answered f (\<lambda>u y. fst (series_of ok metric lo hi res limit u) = Ok y) metric s0 s1 y) \<Longrightarrow>
   query_at f ok metric lo hi res limit s0 s1 (Returned r)"

lemma query_waits:
  assumes "query_at f ok metric from to res limit s0 s1 t" and "writes f s1 s2"
  shows "query_at f ok metric from to res limit s0 s2 t"
  using assms by (cases rule: query_at.cases) (auto intro: query_at.intros answered_later rtranclp_trans)

lemma query_advances:
  assumes "query_at f ok metric from to res limit s0 s (Section g)" and "g s = (t, s')"
    and "writes f s0 s" and "rowid_ok f" and "db_ok (st_db s0)"
  shows "query_at f ok metric from to res limit s0 s t"
  using assms(1)
proof cases
  case 1
  obtain r u where run: "find_metric ok metric s = (r, u)" by (metis surj_pair)
  then have u: "u = s" by (rule find_metric_state)
  show ?thesis
  proof (cases r)
    case (Ok found)
    show ?thesis
    proof (cases found)
      case None
      with run Ok 1 assms(2) have "t = Returned (Ok empty_series)" by (simp add: series_task_def sect_def)
      moreover have "fst (series_of ok metric from to res limit s) = Ok empty_series"
        using run Ok None by (simp add: series_of_def bind_def ret_def)
      ultimately show ?thesis
        using assms(3) by (auto simp: answered_def intro!: query_at.intros(3))
    next
      case (Some i)
      with run Ok 1 assms(2) have "t = sect (read_rows ok i from to res limit) (\<lambda>y. Returned (Ok y))"
        by (simp add: series_task_def sect_def)
      with run Ok Some u assms(3) show ?thesis by (auto intro: query_at.intros)
    qed
  qed (use run 1 assms(2) in \<open>auto simp: series_task_def sect_def intro!: query_at.intros(3)\<close>)
next
  case (2 s1 i)
  obtain r u where run: "read_rows ok i from to res limit s = (r, u)" by (metis surj_pair)
  show ?thesis
  proof (cases r)
    case (Ok y)
    with run 2 assms(2) have t: "t = Returned (Ok y)" by (simp add: sect_def)
    from two_statements [OF 2(3) assms(4) writes_db_ok [OF 2(2) assms(4,5)] 2(4) run [unfolded Ok]] 2(2)
    have "answered f (\<lambda>u y. fst (series_of ok metric from to res limit u) = Ok y) metric s0 s y"
      unfolding answered_def using 2(3) by (meson rtranclp_trans rtranclp.rtrancl_refl)
    with t show ?thesis by (auto intro: query_at.intros)
  qed (use run 2 assms(2) in \<open>auto simp: sect_def intro!: query_at.intros(3)\<close>)
qed

lemma query_runs:
  assumes "store_moves f p q" and "rowid_ok f" and "pool_sound f p" and "j < length (tasks p)"
    and "tasks p ! j = series_task ok metric from to res limit"
  shows "pool_sound f q \<and> length (tasks p) \<le> length (tasks q) \<and> writes f (shared p) (shared q)
    \<and> query_at f ok metric from to res limit (shared p) (shared q) (tasks q ! j)"
  using assms(1)
proof (induction rule: rtranclp_induct)
  case base
  with assms show ?case by (auto intro: query_at.intros)
next
  case (step q r)
  note moves = pool_moves [OF step.hyps(2) assms(2) conjunct1 [OF step.IH]]
  have w: "writes f (shared p) (shared r)" using step.IH moves by (meson rtranclp_trans)
  have q: "query_at f ok metric from to res limit (shared p) (shared r) (tasks q ! j)"
    using step.IH moves by (blast intro: query_waits)
  from step.hyps(2) have "length (tasks q) \<le> length (tasks r)
    \<and> query_at f ok metric from to res limit (shared p) (shared r) (tasks r ! j)"
  proof cases
    case (spawn t)
    with q step.IH assms(4) show ?thesis by (simp add: nth_append)
  next
    case (advance i g t s)
    show ?thesis
    proof (cases "i = j")
      case True
      from assms(3) have "db_ok (st_db (shared p))" by (simp add: pool_sound_def)
      with step.IH advance True assms(2) have "query_at f ok metric from to res limit (shared p) (shared q) t"
        by (metis query_advances)
      with moves have "query_at f ok metric from to res limit (shared p) (shared r) t" by (blast intro: query_waits)
      with advance True show ?thesis by simp
    qed (use advance q in simp)
  qed (use q in simp)
  with moves w step.IH show ?case by linarith
qed

lemma pool_sound_reachable:
  assumes "pool_reachable (\<lambda>s. db_ok (st_db s)) (store_request f) (=) p" and "rowid_ok f"
  shows "pool_sound f p"
  using assms(1)
  by (induction rule: reachable.induct) (use pool_moves assms(2) in \<open>auto simp: pool_init_def pool_sound_def\<close>)

text \<open>
  C21. A query answers as of one moment. However writes, compactions and other queries run beside it,
  also when their statements fail, the series it returns is what \<open>series\<close> gives alone at one moment
  between its call and its return, unless the metric lost its id in between and samples are
  stored under that id again.
\<close>

theorem query_is_of_one_moment:
  assumes "pool_reachable (\<lambda>s. db_ok (st_db s)) (store_request f) (=) p" and "rowid_ok f"
    and "j < length (tasks p)" and "tasks p ! j = series_task ok metric from to res limit"
    and "store_moves f p q" and "tasks q ! j = Returned (Ok y)"
  shows "(\<exists>s. writes f (shared p) s \<and> writes f s (shared q) \<and> fst (series_of ok metric from to res limit s) = Ok y)
    \<or> (\<exists>s t i. writes f (shared p) s \<and> writes f s t \<and> writes f t (shared q)
          \<and> id_of_name (st_db s) metric = Some i \<and> id_of_name (st_db t) metric \<noteq> Some i \<and> i \<in> mids (rows (st_db t)))"
proof -
  from query_runs [OF assms(5,2) pool_sound_reachable [OF assms(1,2)] assms(3,4)] assms(6)
  have "query_at f ok metric from to res limit (shared p) (shared q) (Returned (Ok y))" by simp
  then show ?thesis
    by cases (simp_all add: answered_def series_task_def sect_def)
qed

text \<open>A query for \<open>a\<close>, with a write of \<open>b\<close> between its statements.\<close>

definition all_times :: "string \<Rightarrow> (store, (string, series) outcome) task" where
  "all_times m = series_task all_ok m 0 (2 ^ 40) RAW 100"

definition ex_kept :: store where
  "ex_kept = run_store [W 300 [(''a'', Finite 1)]] ex_open"

definition ex_more :: store where
  "ex_more = write_samples all_ok next_rowid 315 [(''b'', Finite 2)] ex_kept"

definition ex_answer :: series where
  "ex_answer = \<lparr>y_t = [300], y_avg = [1], y_min = [1], y_max = [1]\<rparr>"

definition ex_pool :: "(store, (string, series) outcome) task \<Rightarrow> (store, (string, series) outcome) task \<Rightarrow> store \<Rightarrow>
    (store, (string, series) outcome) pool" where
  "ex_pool t w s = \<lparr>shared = s, tasks = [t, w]\<rparr>"

lemma ex_found: "fst (find_metric all_ok ''a'' ex_kept) = Ok (Some 1)"
  by code_simp

lemma ex_rows: "fst (read_rows all_ok 1 0 (2 ^ 40) RAW 100 ex_more) = Ok ex_answer"
  by code_simp

lemma ex_advance:
  "p s = (Ok x, s) \<Longrightarrow> k x = t \<Longrightarrow> pool_step (store_request f) (=) (ex_pool (sect p k) w s) (ex_pool t w s)"
  "pool_step (store_request f) (=) (ex_pool t (write_task ok f ts pts) s)
     (ex_pool t (Returned (Ok empty_series)) (write_samples ok f ts pts s))"
  using pool_step.advance [of 0 "ex_pool (sect p k) w s" _ "k x" s "store_request f" "(=)"]
    pool_step.advance [of 1 "ex_pool t (write_task ok f ts pts) s"]
  by (simp_all add: ex_pool_def sect_def write_task_def)

lemma ex_moves:
  "store_moves next_rowid (ex_pool (all_times ''a'') (write_task all_ok next_rowid 315 [(''b'', Finite 2)]) ex_kept)
     (ex_pool (Returned (Ok ex_answer)) (Returned (Ok empty_series)) ex_more)"
proof -
  let ?w = "write_task all_ok next_rowid 315 [(''b'', Finite 2)]"
  let ?t = "sect (read_rows all_ok 1 0 (2 ^ 40) RAW 100) (\<lambda>y. Returned (Ok y))"
  have found: "find_metric all_ok ''a'' ex_kept = (Ok (Some 1), ex_kept)"
    using ex_found find_metric_state by (metis prod.collapse)
  have rows: "read_rows all_ok 1 0 (2 ^ 40) RAW 100 ex_more = (Ok ex_answer, ex_more)"
    using ex_rows read_rows_state by (metis prod.collapse)
  let ?step = "pool_step (store_request next_rowid) (=)"
  have "?step (ex_pool (all_times ''a'') ?w ex_kept) (ex_pool ?t ?w ex_kept)"
    unfolding all_times_def series_task_def by (rule ex_advance(1), rule found, simp)
  moreover have "?step (ex_pool ?t ?w ex_kept) (ex_pool ?t (Returned (Ok empty_series)) ex_more)"
    unfolding ex_more_def by (rule ex_advance(2))
  moreover have "?step (ex_pool ?t (Returned (Ok empty_series)) ex_more)
      (ex_pool (Returned (Ok ex_answer)) (Returned (Ok empty_series)) ex_more)"
    by (rule ex_advance(1), rule rows, simp)
  ultimately show ?thesis by (rule converse_rtranclp_into_rtranclp [OF _ converse_rtranclp_into_rtranclp [OF _ r_into_rtranclp]])
qed

lemma ex_pool_reachable:
  assumes "store_request f t" and "store_request f w" and "db_ok (st_db s)"
  shows "pool_reachable (\<lambda>s. db_ok (st_db s)) (store_request f) (=) (ex_pool t w s)"
proof -
  have "pool_reachable (\<lambda>s. db_ok (st_db s)) (store_request f) (=) \<lparr>shared = s, tasks = []\<rparr>"
    using assms(3) by (intro reachable_init) (simp add: pool_init_def)
  from reach_spawn [OF reach_spawn [OF this assms(1)] assms(2)] show ?thesis by (simp add: ex_pool_def)
qed

theorem query_is_of_one_moment_witness:
  "(\<exists>s. writes next_rowid ex_kept s \<and> writes next_rowid s ex_more
        \<and> fst (series_of all_ok ''a'' 0 (2 ^ 40) RAW 100 s) = Ok ex_answer)
    \<or> (\<exists>s t i. writes next_rowid ex_kept s \<and> writes next_rowid s t \<and> writes next_rowid t ex_more
          \<and> id_of_name (st_db s) ''a'' = Some i \<and> id_of_name (st_db t) ''a'' \<noteq> Some i \<and> i \<in> mids (rows (st_db t)))"
proof -
  have "pool_reachable (\<lambda>s. db_ok (st_db s)) (store_request next_rowid) (=)
      (ex_pool (all_times ''a'') (write_task all_ok next_rowid 315 [(''b'', Finite 2)]) ex_kept)"
    by (rule ex_pool_reachable) (simp_all only: all_times_def ex_kept_def store_request.intros run_store_db_ok)
  from query_is_of_one_moment [OF this next_rowid_ok _ _ ex_moves, of 0 all_ok "''a''" 0 "2 ^ 40" RAW 100 ex_answer]
  show ?thesis by (simp add: ex_pool_def all_times_def)
qed

section \<open>The other case\<close>

text \<open>
  It does happen. Between the two statements of a query for \<open>a\<close> a compaction drops the metric,
  whose samples have all expired, and a write gives its id to \<open>b\<close>: the answer for \<open>a\<close> is the sample of \<open>b\<close>.
\<close>

theorem query_answers_with_another_metric:
  "let s1 = run_store [W 300 [(''a'', Finite 1)]] ex_open;
       s2 = run_store [C 200000, W 200010 [(''b'', Finite 9)]] s1;
       t = fst (slice 1 (all_times ''a'') s1)
   in metrics (st_db s1) = [(1, ''a'')] \<and> metrics (st_db s2) = [(1, ''b'')]
      \<and> (case fst (run_alone t s2) of Ok y \<Rightarrow> zip (y_t y) (y_avg y) = [(200010, 9)] | _ \<Rightarrow> False)
      \<and> read_all ''a'' RAW s1 = Some [(300, 1)] \<and> read_all ''a'' RAW s2 = Some []"
  by code_simp

end
