(* ===== verification/Store_Late.thy ===== *)
theory Store_Late
  imports Store_Props
begin

text \<open>
  What the store does not keep, for every run of the kind: a five-minute bucket is never completed
  once the compactions have passed it, and the samples of a metric whose insertion was rolled back
  go to the metric that takes its id.
\<close>

section \<open>Gaps in the schedule\<close>










text \<open>
  A pause of 670 seconds: the row of second 300 stays 1 although the raw samples behind it are 1
  and 9; a compaction at 900 makes it 5. The last line has no pause, and a sample of second 595 is
  committed after the compaction at 601.
\<close>

definition before_gap :: store where
  "before_gap = run_store [W 400 [(''a'', Finite 1)], C 430] ex_open"

definition after_gap :: store where
  "after_gap = run_store [W 590 [(''a'', Finite 9)], C 1100] before_gap"

lemma gap_example:
  "read_all ''a'' RAW after_gap = Some [(400, 1), (590, 9)]
   \<and> read_all ''a'' FIVE_MIN after_gap = Some [(300, 1)]
   \<and> read_all ''a'' FIVE_MIN (run_store [W 590 [(''a'', Finite 9)], C 900] before_gap) = Some [(300, 5)]
   \<and> read_all ''a'' FIVE_MIN (run_store [W 400 [(''a'', Finite 1)], C 601, W 595 [(''a'', Finite 9)], C 901] ex_open)
     = Some [(300, 1)]"
  by code_simp







section \<open>A memo that outlives its transaction\<close>

lemma id_of_name_None: "id_of_name d name = None \<longleftrightarrow> name \<notin> set (map snd (metrics d))"
  by (simp add: id_of_name_def map_of_eq_None_iff image_image case_prod_beta)

text \<open>A new name in a transaction: the metric is inserted under the id SQLite chooses, and memoised.\<close>

lemma metric_id_new:
  assumes "d_metric (t_db t) = Some m" and "name \<notin> set (map snd m)" and "hget (inner (t_ids t)) name = None"
    and "\<not> poisoned (t_ids t)" and "ok (t_step t)" and "ok (Suc (t_step t))"
  shows "metric_id ok f name t =
    (Ok (f (map fst m)),
     t\<lparr>t_db := (t_db t)\<lparr>d_metric := Some (m @ [(f (map fst m), name)])\<rparr>,
       t_ids := put (hinsert name (f (map fst m)) (inner (t_ids t))) (t_ids t), t_step := t_step t + 2\<rparr>)"
proof -
  have "map_of (map (\<lambda>(i, n). (n, i)) m) name = None"
    using assms(2) by (simp add: map_of_eq_None_iff image_image case_prod_beta)
  with assms show ?thesis
    by (simp add: metric_id_def bind_def stmt_def Let_def intern_def id_of_name_def metrics_def map_add_def)
qed

text \<open>The three writes of one point: rolled back behind the memo, of a new name, of a memoised name.\<close>

lemma write_rolled_back:
  assumes "d_metric (st_db s) = Some m" and "n \<notin> set (map snd m)" and "hget (inner (st_ids s)) n = None"
    and "\<not> poisoned (st_ids s)" and "\<not> poisoned (st_write s)"
    and "try_write ok f ts [(n, Finite x)] s = (Err e, s')" and "ok 0" and "ok 1" and "ok 2" and "ok 3"
  shows "st_db s' = st_db s" and "st_ids s' = put (hinsert n (f (map fst m)) (inner (st_ids s))) (st_ids s)"
    and "st_read s' = st_read s"
proof -
  have "ok (Suc 0)" using assms(8) by simp
  moreover have "metric_id ok f n \<lparr>t_db = st_db s, t_ids = st_ids s, t_step = Suc (Suc 0)\<rparr> =
      (Ok (f (map fst m)),
       \<lparr>t_db = (st_db s)\<lparr>d_metric := Some (m @ [(f (map fst m), n)])\<rparr>,
        t_ids = put (hinsert n (f (map fst m)) (inner (st_ids s))) (st_ids s), t_step = 4\<rparr>)"
    using metric_id_new [of "\<lparr>t_db = st_db s, t_ids = st_ids s, t_step = 2\<rparr>" m n ok f] assms by (simp add: eval_nat_numeral)
  ultimately show "st_db s' = st_db s" and "st_ids s' = put (hinsert n (f (map fst m)) (inner (st_ids s))) (st_ids s)"
    and "st_read s' = st_read s"
    using assms(5-7)
    by (auto simp: try_write_def transact_def bind_def stmt_def nop_def Let_def put_sample_def ret_def
        split: if_splits option.splits)
qed

lemma metric_id_newD:
  assumes "d_metric (t_db t) = Some m" and "name \<notin> set (map snd m)" and "hget (inner (t_ids t)) name = None"
    and "metric_id ok f name t = (Ok i, t')"
  shows "i = f (map fst m) \<and> metrics (t_db t') = m @ [(i, name)] \<and> d_samples (t_db t') = d_samples (t_db t)
    \<and> t_ids t' = put (hinsert name i (inner (t_ids t))) (t_ids t)"
proof -
  have "map_of (map (\<lambda>(i, n). (n, i)) m) name = None"
    using assms(2) by (simp add: map_of_eq_None_iff image_image case_prod_beta)
  with assms show ?thesis
    by (auto simp: metric_id_def with_lock_Ok_iff bind_Ok_iff stmt_Ok_iff intern_def id_of_name_def metrics_def)
qed

lemma write_one:
  assumes "try_write ok f ts [(n, Finite y)] s = (Ok u, s')"
  obtains i t where "metric_id ok f n \<lparr>t_db = st_db s, t_ids = st_ids s, t_step = 2\<rparr> = (Ok i, t)"
    and "metrics (st_db s') = metrics (t_db t)" and "st_ids s' = t_ids t" and "st_read s' = st_read s"
    and "rows (st_db s') = upsert (Key RAW (as_i64 ts) i) (raw_sample y) (rows (t_db t))"
proof (cases rule: try_write_committed [OF assms(1), case_names run])
  case (run t)
  then show ?thesis
    by (auto simp: bind_Ok_iff stmt_Ok_iff put_sample_def ret_def metrics_def rows_def intro!: that)
qed

text \<open>
  C19. A write that fails after it has memoised a new metric, at the insertion of the sample or at
  the commit, leaves the database as it was and the memo with an id that no metric has. When the
  next write brings another new metric, SQLite gives it that id; a write of the first metric after
  that reports success, yet its sample is stored, and read, as one of the second metric, and
  the first has no history at all.
\<close>

theorem rolled_back_id_is_reused:
  assumes "coherent s" and "\<not> poisoned (st_write s)" and "\<not> poisoned (st_read s)"
    and new: "n \<noteq> n2" "id_of_name (st_db s) n = None" "id_of_name (st_db s) n2 = None"
    and failed: "try_write ok f ts [(n, Finite x)] s = (Err e, s1)" "ok 0" "ok 1" "ok 2" "ok 3"
    and other: "try_write ok2 f ts2 [(n2, Finite y)] s1 = (Ok u2, s2)"
    and again: "try_write ok3 f ts3 [(n, Finite z)] s2 = (Ok u3, s3)"
  shows "st_db s1 = st_db s \<and> id_of_name (st_db s3) n = None
    \<and> (\<exists>i. id_of_name (st_db s3) n2 = Some i
        \<and> row_at (rows (st_db s3)) (Key RAW (as_i64 ts3) i) = Some (raw_sample z))
    \<and> fst (series_of (\<lambda>_. True) n from to res limit s3) = Ok empty_series"
proof -
  obtain m where m: "d_metric (st_db s) = Some m" using assms(1) by (auto simp: coherent_def db_ok_def)
  have names: "metrics (st_db s) = m" by (simp add: metrics_def m)
  let ?i = "f (map fst m)" and ?ids = "inner (st_ids s)"
  have s: "\<not> poisoned (st_ids s)" "memo_ok ?ids (st_db s)" "sorted_table (rows (st_db s))"
    using assms(1) by (simp_all add: coherent_def db_ok_def table_ok_def)
  have fresh: "n \<notin> set (map snd m)" "n2 \<notin> set (map snd m)" using new(2,3) by (simp_all add: id_of_name_None names)
  have memo: "hget ?ids n = None" "hget ?ids n2 = None"
    using s(2) fresh unfolding memo_ok_def names by (metis not_Some_eq image_eqI list.set_map snd_conv)+
  note s1 = write_rolled_back [OF m fresh(1) memo(1) s(1) assms(2) failed]
  obtain i2 t2 where id2: "metric_id ok2 f n2 \<lparr>t_db = st_db s1, t_ids = st_ids s1, t_step = 2\<rparr> = (Ok i2, t2)"
    and s2: "metrics (st_db s2) = metrics (t_db t2)" "st_ids s2 = t_ids t2" "st_read s2 = st_read s1"
      "rows (st_db s2) = upsert (Key RAW (as_i64 ts2) i2) (raw_sample y) (rows (t_db t2))"
    using other by (rule write_one)
  have t2: "i2 = ?i" "metrics (t_db t2) = m @ [(?i, n2)]" "d_samples (t_db t2) = d_samples (st_db s)"
    "t_ids t2 = put (hinsert n2 ?i (hinsert n ?i ?ids)) (st_ids s)"
    using metric_id_newD [OF _ fresh(2) _ id2] m memo(2) new(1) by (simp_all add: s1 hmap_simps)
  obtain i3 t3 where id3: "metric_id ok3 f n \<lparr>t_db = st_db s2, t_ids = st_ids s2, t_step = 2\<rparr> = (Ok i3, t3)"
    and s3: "metrics (st_db s3) = metrics (t_db t3)" "st_read s3 = st_read s2"
      "rows (st_db s3) = upsert (Key RAW (as_i64 ts3) i3) (raw_sample z) (rows (t_db t3))"
    using again by (rule write_one)
  have t3: "i3 = ?i" "t_db t3 = st_db s2"
    using id3 new(1) s(1) by (auto simp: metric_id_def with_lock_def s2(2) t2 hmap_simps ret_def)
  have met: "metrics (st_db s3) = m @ [(?i, n2)]" by (simp only: s3 t3 s2 t2)
  have "rows (t_db t2) = rows (st_db s)" by (simp add: rows_def t2(3))
  then have "row_at (rows (st_db s3)) (Key RAW (as_i64 ts3) ?i) = Some (raw_sample z)"
    using s(3) by (simp add: s3 t3 s2 row_at_upsert)
  moreover have n: "id_of_name (st_db s3) n = None"
    unfolding id_of_name_None met using fresh(1) new(1) by simp
  moreover have "id_of_name (st_db s3) n2 = Some ?i"
    using fresh(2) by (simp add: id_of_name_def met map_of_append map_add_def map_of_eq_None_iff image_image
        case_prod_beta split: option.split) (force simp: map_of_eq_None_iff dest!: map_of_SomeD)
  moreover have "\<not> poisoned (st_read s3)" using assms(3) by (simp add: s3 s2 s1)
  ultimately show ?thesis using n s1(1) by (simp add: series_of_defs)
qed

definition reuse1 :: store where
  "reuse1 = write_samples (fail_at 5) next_rowid 300 [(''a'', Finite 5)] ex_open"

definition reuse2 :: store where
  "reuse2 = write_samples all_ok next_rowid 315 [(''b'', Finite 7)] reuse1"

definition reuse3 :: store where
  "reuse3 = write_samples all_ok next_rowid 330 [(''a'', Finite 5)] reuse2"

lemma reuse_results:
  "fst (try_write (fail_at 5) next_rowid 300 [(''a'', Finite 5)] ex_open) = Err ''commit''"
  "fst (try_write all_ok next_rowid 315 [(''b'', Finite 7)] reuse1) = Ok ()"
  "fst (try_write all_ok next_rowid 330 [(''a'', Finite 5)] reuse2) = Ok ()"
  "read_all ''b'' RAW reuse3 = Some [(315, 7), (330, 5)]"
  by code_simp+

lemma reuse_writes:
  "try_write (fail_at 5) next_rowid 300 [(''a'', Finite 5)] ex_open = (Err ''commit'', reuse1)"
  "try_write all_ok next_rowid 315 [(''b'', Finite 7)] reuse1 = (Ok (), reuse2)"
  "try_write all_ok next_rowid 330 [(''a'', Finite 5)] reuse2 = (Ok (), reuse3)"
  using reuse_results by (simp_all add: reuse1_def reuse2_def reuse3_def write_samples_def prod_eq_iff)

theorem rolled_back_id_is_reused_witness:
  "fst (series_of (\<lambda>_. True) ''a'' 0 1000 RAW 10 reuse3) = Ok empty_series
   \<and> read_all ''b'' RAW reuse3 = Some [(315, 7), (330, 5)]"
proof -
  have "\<not> poisoned (st_write ex_open)" "\<not> poisoned (st_read ex_open)"
    "id_of_name (st_db ex_open) ''a'' = None" "id_of_name (st_db ex_open) ''b'' = None"
    by (simp_all add: ex_open_def migrate_def empty_db_def id_of_name_def metrics_def)
  from rolled_back_id_is_reused [OF ex_open_coherent this(1,2) _ this(3,4) reuse_writes(1) _ _ _ _ reuse_writes(2,3),
      of 0 1000 RAW 10]
  show ?thesis using reuse_results(4) by (simp add: fail_at_def)
qed

end
