(* ===== verification/Float_Rounding.thy ===== *)
theory Float_Rounding
  imports Rust_Int
begin

text \<open>
  Binary floating point as far as the program uses it: a finite \<open>f32\<close> or \<open>f64\<close> is the rational
  number it stands for, and an operation is the exact operation followed by rounding to the
  nearest number of \<open>p\<close> significant bits, ties to even (\<open>p\<close> is 24 for \<open>f32\<close>, 53 for \<open>f64\<close>).
  The exponent range is not limited: every \<open>f64\<close> the program computes this way is zero or between
  \<open>2 ^ (-64)\<close> and \<open>2 ^ 136\<close>, and every \<open>f32\<close> zero or between \<open>2 ^ (-64)\<close> and \<open>2 ^ 71\<close>, well inside the formats.
\<close>

section \<open>Rounding to an integer\<close>

definition round_even :: "rat \<Rightarrow> int" where
  "round_even x =
     (let f = \<lfloor>x\<rfloor>; r = x - of_int f
      in if r < 1 / 2 \<or> r = 1 / 2 \<and> even f then f else f + 1)"

lemma round_even_of_int [simp]: "round_even (of_int n) = n"
  by (simp add: round_even_def)

lemma round_even_mono:
  assumes "x \<le> y"
  shows "round_even x \<le> round_even y"
proof (cases "\<lfloor>x\<rfloor> = \<lfloor>y\<rfloor>")
  case True
  then show ?thesis using assms by (auto simp: round_even_def Let_def)
next
  case False
  moreover have "\<lfloor>x\<rfloor> \<le> \<lfloor>y\<rfloor>" using assms by (rule floor_mono)
  moreover have "round_even x \<le> \<lfloor>x\<rfloor> + 1" "\<lfloor>y\<rfloor> \<le> round_even y"
    by (simp_all add: round_even_def Let_def)
  ultimately show ?thesis by linarith
qed

lemma round_even_near: "\<bar>of_int (round_even x) - x\<bar> \<le> 1 / 2"
proof -
  have "of_int \<lfloor>x\<rfloor> \<le> x" "x < of_int \<lfloor>x\<rfloor> + 1" by linarith+
  then show ?thesis by (auto simp: round_even_def Let_def abs_le_iff)
qed

section \<open>The binary magnitude of a number\<close>

function log2_int :: "int \<Rightarrow> int" where
  "log2_int n = (if n < 2 then 0 else 1 + log2_int (n div 2))"
  by pat_completeness auto
termination by (relation "measure nat") auto

declare log2_int.simps [simp del]

lemma log2_int_nonneg [simp]: "0 \<le> log2_int n"
  by (induction n rule: log2_int.induct) (subst log2_int.simps, auto)

lemma log2_int_bounds:
  "0 < n \<Longrightarrow> (2 :: rat) powi log2_int n \<le> of_int n \<and> of_int n + 1 \<le> (2 :: rat) powi (log2_int n + 1)"
proof (induction n rule: log2_int.induct)
  case (1 n)
  show ?case
  proof (cases "n < 2")
    case True
    with 1(2) have "n = 1" by simp
    then show ?thesis by (simp add: log2_int.simps)
  next
    case False
    let ?h = "n div 2"
    have step: "log2_int n = log2_int ?h + 1" using False by (subst log2_int.simps) simp
    have n: "2 * ?h \<le> n" "n + 1 \<le> 2 * (?h + 1)" by presburger+
    have "(of_int (2 * ?h) :: rat) \<le> of_int n" "(of_int (n + 1) :: rat) \<le> of_int (2 * (?h + 1))"
      using n by (simp_all only: of_int_le_iff)
    then have "2 * of_int ?h \<le> (of_int n :: rat)" "of_int n + 1 \<le> (2 * (of_int ?h + 1) :: rat)"
      by (simp_all only: of_int_mult of_int_add of_int_numeral of_int_1)
    with 1(1) False show ?thesis by (simp add: step power_int_add)
  qed
qed

text \<open>The exponent \<open>e\<close> with \<open>2 ^ e \<le> x < 2 ^ (e + 1)\<close>.\<close>

definition magnitude :: "rat \<Rightarrow> int" where
  "magnitude x =
     (if 1 \<le> x then log2_int \<lfloor>x\<rfloor> else - (log2_int (\<lceil>1 / x\<rceil> - 1) + 1))"

lemma magnitude_bounds:
  assumes "0 < x"
  shows "2 powi magnitude x \<le> x \<and> x < 2 powi (magnitude x + 1)"
proof (cases "1 \<le> x")
  case True
  then have "0 < \<lfloor>x\<rfloor>" by simp
  note b = log2_int_bounds [OF this]
  have "of_int \<lfloor>x\<rfloor> \<le> x" "x < of_int \<lfloor>x\<rfloor> + 1" by linarith+
  with b have "2 powi log2_int \<lfloor>x\<rfloor> \<le> x" "x < 2 powi (log2_int \<lfloor>x\<rfloor> + 1)" by linarith+
  with True show ?thesis by (simp add: magnitude_def)
next
  case False
  let ?n = "\<lceil>1 / x\<rceil> - 1"
  have "1 < 1 / x" using False assms by simp
  then have "0 < ?n" by linarith
  note b = log2_int_bounds [OF this]
  have "1 / x \<le> of_int ?n + 1" "of_int ?n < 1 / x" by linarith+
  with b have "2 powi log2_int ?n < 1 / x" "1 / x \<le> 2 powi (log2_int ?n + 1)" by linarith+
  then have "x < inverse (2 powi log2_int ?n)" "inverse (2 powi (log2_int ?n + 1)) \<le> x"
    using assms by (simp_all add: field_simps)
  moreover have "magnitude x = - (log2_int ?n + 1)" using False by (simp add: magnitude_def)
  moreover have "- (log2_int ?n + 1) + 1 = - log2_int ?n" by simp
  ultimately show ?thesis by (simp only: power_int_minus)
qed

section \<open>Rounding to \<open>p\<close> significant bits\<close>

definition fl_pos :: "nat \<Rightarrow> rat \<Rightarrow> rat" where
  "fl_pos p x = (let u = 2 powi (magnitude x - int p + 1) in of_int (round_even (x / u)) * u)"

definition fl :: "nat \<Rightarrow> rat \<Rightarrow> rat" where
  "fl p x = (if x = 0 then 0 else if 0 < x then fl_pos p x else - fl_pos p (- x))"

lemma fl_0 [simp]: "fl p 0 = 0"
  by (simp add: fl_def)

lemma fl_pos_binade:
  assumes "0 < x" and "0 < p"
  shows "2 powi magnitude x \<le> fl_pos p x \<and> fl_pos p x \<le> 2 powi (magnitude x + 1)"
proof -
  let ?u = "(2 :: rat) powi (magnitude x - int p + 1)"
  have u: "0 < ?u" by simp
  have split: "(2 :: rat) powi magnitude x = of_int (2 ^ (p - 1)) * ?u"
    "(2 :: rat) powi (magnitude x + 1) = of_int (2 ^ p) * ?u"
    using assms(2) by (simp_all add: of_nat_diff flip: power_int_of_nat power_int_add)
  have "of_int (2 ^ (p - 1)) \<le> x / ?u" "x / ?u \<le> of_int (2 ^ p)"
    using magnitude_bounds [OF assms(1)] u unfolding split by (simp_all add: pos_le_divide_eq pos_divide_le_eq)
  then have "2 ^ (p - 1) \<le> round_even (x / ?u)" "round_even (x / ?u) \<le> 2 ^ p"
    using round_even_mono round_even_of_int by metis+
  then have "of_int (2 ^ (p - 1)) * ?u \<le> of_int (round_even (x / ?u)) * ?u"
    "of_int (round_even (x / ?u)) * ?u \<le> of_int (2 ^ p) * ?u"
    by (intro mult_right_mono; simp only: of_int_le_iff; simp)+
  then show ?thesis by (simp only: fl_pos_def Let_def split)
qed

lemma magnitude_mono:
  assumes "0 < x" and "x \<le> y"
  shows "magnitude x \<le> magnitude y"
proof (rule ccontr)
  assume "\<not> magnitude x \<le> magnitude y"
  then have "(2 :: rat) powi (magnitude y + 1) \<le> 2 powi magnitude x"
    by (intro power_int_increasing) simp_all
  with magnitude_bounds [of x] magnitude_bounds [of y] assms show False by simp
qed

lemma fl_pos_mono:
  assumes "0 < x" and "x \<le> y" and "0 < p"
  shows "fl_pos p x \<le> fl_pos p y"
proof (cases "magnitude x = magnitude y")
  case True
  let ?u = "(2 :: rat) powi (magnitude y - int p + 1)"
  have "round_even (x / ?u) \<le> round_even (y / ?u)"
    by (rule round_even_mono) (use assms in \<open>simp add: divide_right_mono\<close>)
  then show ?thesis by (simp add: fl_pos_def Let_def True)
next
  case False
  then have "(2 :: rat) powi (magnitude x + 1) \<le> 2 powi magnitude y"
    using magnitude_mono [OF assms(1,2)] by (intro power_int_increasing) simp_all
  with fl_pos_binade [of x p] fl_pos_binade [of y p] assms show ?thesis by simp
qed

lemma fl_nonneg [simp]: "0 \<le> x \<Longrightarrow> 0 < p \<Longrightarrow> 0 \<le> fl p x"
  using fl_pos_binade [of x p] by (auto simp: fl_def intro: order_trans [of _ "2 powi magnitude x"])

lemma fl_mono: "0 \<le> x \<Longrightarrow> x \<le> y \<Longrightarrow> 0 < p \<Longrightarrow> fl p x \<le> fl p y"
  using fl_pos_mono [of x y p] fl_nonneg [of y p] by (auto simp: fl_def)

text \<open>Small integers are represented exactly.\<close>

lemma fl_of_int:
  assumes "0 \<le> n" and "n < 2 ^ p"
  shows "fl p (of_int n) = of_int n"
proof (cases "n = 0")
  case False
  let ?x = "of_int n :: rat" and ?m = "log2_int n"
  have n: "0 < n" using False assms(1) by simp
  then have m: "magnitude ?x = ?m" by (simp add: magnitude_def)
  have "(2 :: rat) powi ?m \<le> of_int n" using log2_int_bounds [OF n] by simp
  also have "of_int n < (of_int (2 ^ p) :: rat)" using assms(2) by (simp only: of_int_less_iff)
  also have "(of_int (2 ^ p) :: rat) = 2 powi int p" by simp
  finally have "?m < int p" using power_int_le_imp_less_exp [of "2 :: rat" ?m "int p"] by simp
  then have "(2 :: rat) powi (?m - int p + 1) * 2 ^ nat (int p - 1 - ?m) = 1"
    by (simp flip: power_int_of_nat power_int_add)
  then have "?x / 2 powi (?m - int p + 1) = of_int (n * 2 ^ nat (int p - 1 - ?m))"
    by (simp add: field_simps)
  then have "fl_pos p ?x = ?x"
    unfolding fl_pos_def Let_def m by (simp only: round_even_of_int) (simp add: field_simps)
  then show ?thesis using n by (simp add: fl_def)
qed simp

lemma fl_le_int: "0 \<le> x \<Longrightarrow> x \<le> of_int n \<Longrightarrow> n < 2 ^ p \<Longrightarrow> 0 < p \<Longrightarrow> fl p x \<le> of_int n"
  using fl_mono [of x "of_int n" p] fl_of_int [of n p] by (cases "0 \<le> n") auto

lemma fl_ge_int: "0 \<le> n \<Longrightarrow> of_int n \<le> x \<Longrightarrow> n < 2 ^ p \<Longrightarrow> 0 < p \<Longrightarrow> of_int n \<le> fl p x"
  using fl_mono [of "of_int n" x p] by (simp add: fl_of_int)

lemma fl_positive: "0 < x \<Longrightarrow> 0 < p \<Longrightarrow> 0 < fl p x"
  using fl_pos_binade [of x p] by (auto simp: fl_def intro: less_le_trans [of _ "2 powi magnitude x"])

text \<open>The relative error of one rounding.\<close>

lemma fl_near:
  assumes "0 \<le> x" and "0 < p"
  shows "\<bar>fl p x - x\<bar> \<le> x / 2 ^ p"
proof (cases "x = 0")
  case False
  then have x: "0 < x" using assms(1) by simp
  let ?u = "(2 :: rat) powi (magnitude x - int p + 1)"
  have u: "0 < ?u" by simp
  have "2 powi magnitude x = ?u * 2 ^ p / 2"
    by (simp add: power_int_add power_int_diff)
  with magnitude_bounds [OF x] have small: "?u / 2 \<le> x / 2 ^ p" by (simp add: field_simps)
  have "fl p x - x = (of_int (round_even (x / ?u)) - x / ?u) * ?u"
    using x u by (simp add: fl_def fl_pos_def Let_def field_simps)
  then have "\<bar>fl p x - x\<bar> = \<bar>of_int (round_even (x / ?u)) - x / ?u\<bar> * ?u"
    using u by (simp add: abs_mult)
  also have "\<dots> \<le> 1 / 2 * ?u"
    using round_even_near u by (intro mult_right_mono) (auto intro: less_imp_le)
  also have "\<dots> \<le> x / 2 ^ p" using small by simp
  finally show ?thesis .
qed simp

section \<open>Conversions and percentages\<close>

definition u64_as_f32 :: "u64 \<Rightarrow> rat" where
  "u64_as_f32 w = fl 24 (of_int (uint w))"

definition u64_as_f64 :: "u64 \<Rightarrow> rat" where
  "u64_as_f64 w = fl 53 (of_int (uint w))"

lemma u64_as_f32_mono: "a \<le> b \<Longrightarrow> u64_as_f32 a \<le> u64_as_f32 b"
  unfolding u64_as_f32_def by (intro fl_mono) (simp_all add: word_le_def del: of_int_uint)

lemma u64_as_f32_pos: "0 < w \<Longrightarrow> 1 \<le> u64_as_f32 w"
  unfolding u64_as_f32_def by (rule fl_ge_int [of 1, simplified])
    (simp_all add: word_less_def del: of_int_uint)

lemma u64_as_f64_nonneg [simp]: "0 \<le> u64_as_f64 w" "0 \<le> u64_as_f32 w"
  unfolding u64_as_f64_def u64_as_f32_def by (intro fl_nonneg; simp del: of_int_uint)+

lemma u64_as_f64_pos: "0 < u64_as_f64 w \<longleftrightarrow> 0 < w"
proof -
  have "0 < fl 53 (of_int (uint w))" if "0 < w"
    using that by (intro fl_positive) (simp_all add: word_less_def del: of_int_uint)
  then show ?thesis by (cases "w = 0") (auto simp: u64_as_f64_def word_gt_0)
qed

text \<open>A quotient of two rounded numbers in order is at most one hundred per cent.\<close>

lemma percent_bounds:
  assumes "0 \<le> a" and "a \<le> b" and "0 < b" and "7 \<le> p"
  shows "0 \<le> fl p (fl p (a / b) * 100) \<and> fl p (fl p (a / b) * 100) \<le> 100"
proof -
  have p: "(100 :: int) < 2 ^ p" using assms(4) power_increasing [of 7 p "2 :: int"] by simp
  have "fl p (a / b) \<le> 1"
    using fl_le_int [of "a / b" 1 p] assms p by simp
  moreover have "0 \<le> fl p (a / b)" using assms by simp
  ultimately show ?thesis
    using fl_le_int [of "fl p (a / b) * 100" 100 p] assms(4) p by simp
qed

end
