(* ===== verification/Collect.thy ===== *)
theory Collect
  imports Text Float_Rounding "HOL-Library.Multiset"
begin

text \<open>
  \<open>src/src/collect\<close>: the host metrics, the container list with usage from the Docker API, and
  the snapshot of one tick. What the package \<open>sysinfo\<close> reads from the kernel and what the Docker
  daemon answers (through the package \<open>bollard\<close>) are inputs of a tick, with every outcome a call
  can have: a timeout, an error, an answer.
\<close>

section \<open>Host metrics\<close>

record host_metrics =
  h_hostname :: string
  h_cpu_pct :: float_val
  h_mem_total_mb :: u64
  h_mem_avail_mb :: u64
  h_mem_used_pct :: float_val
  h_swap_used_mb :: u64
  h_disk_total_gb :: float_val
  h_disk_avail_gb :: float_val
  h_disk_used_pct :: float_val
  h_load1 :: float_val
  h_load5 :: float_val
  h_load15 :: float_val
  h_uptime_secs :: u64

text \<open>The readings of \<open>sysinfo\<close> in one tick; a disk is its mount point, size and free space.\<close>

record sysinfo =
  global_cpu_usage :: float_val
  total_memory :: u64
  available_memory :: u64
  used_swap :: u64
  disks :: "(string \<times> u64 \<times> u64) list"
  load_average :: "float_val \<times> float_val \<times> float_val"
  host_name :: "string option"
  uptime :: u64

text \<open>
  A path equals \<open>/\<close> when it is absolute and has no component but \<open>.\<close>; repeated separators do
  not count.
\<close>

fun components :: "string \<Rightarrow> string \<Rightarrow> string list" where
  "components acc [] = [rev acc]"
| "components acc (c # cs) =
     (if c = CHR ''/'' then rev acc # components [] cs else components (c # acc) cs)"

definition is_root_path :: "string \<Rightarrow> bool" where
  "is_root_path p \<longleftrightarrow>
     starts_with ''/'' p \<and> list_all (\<lambda>c. c = [] \<or> c = ''.'') (components [] p)"

definition used_pct :: "u64 \<Rightarrow> u64 \<Rightarrow> rat" where
  "used_pct all avail =
     (if 0 < all
      then fl 24 (fl 24 (u64_as_f32 (sat_sub_u64 all avail) / u64_as_f32 all) * 100)
      else 0)"

definition root_disk :: "sysinfo \<Rightarrow> u64 \<times> u64" where
  "root_disk i =
     (case List.find (\<lambda>(m, _). is_root_path m) (disks i) of
        None \<Rightarrow> (0, 0)
      | Some (_, s) \<Rightarrow> s)"

definition bytes_to_gb :: "u64 \<Rightarrow> rat" where
  "bytes_to_gb b = fl 53 (u64_as_f64 b / 10 ^ 9)"

definition host_collect :: "sysinfo \<Rightarrow> host_metrics" where
  "host_collect i =
     (case (root_disk i, load_average i) of
        ((disk_total, disk_avail), (one, five, fifteen)) \<Rightarrow>
          \<lparr>h_hostname = (case host_name i of None \<Rightarrow> ''host'' | Some n \<Rightarrow> n),
           h_cpu_pct = (if is_finite (global_cpu_usage i) then global_cpu_usage i else Finite 0),
           h_mem_total_mb = total_memory i div 1000000,
           h_mem_avail_mb = available_memory i div 1000000,
           h_mem_used_pct = Finite (used_pct (total_memory i) (available_memory i)),
           h_swap_used_mb = used_swap i div 1000000,
           h_disk_total_gb = Finite (bytes_to_gb disk_total),
           h_disk_avail_gb = Finite (bytes_to_gb disk_avail),
           h_disk_used_pct = Finite (used_pct disk_total disk_avail),
           h_load1 = one, h_load5 = five, h_load15 = fifteen,
           h_uptime_secs = uptime i\<rparr>)"

section \<open>Containers\<close>

record container =
  cn_name :: string
  cn_image :: string
  cn_state :: string
  cn_status :: string
  cn_health :: "string option"
  cn_restarts :: "i64 option"
  cn_cpu_pct :: "float_val option"
  cn_mem_mb :: "u64 option"
  cn_mem_limit_mb :: "u64 option"

record cpu_sample =
  cs_total :: u64
  cs_system :: u64

text \<open>A call under \<open>tokio::time::timeout\<close>.\<close>

datatype 'a call = TimedOut | Failed string | Done 'a

record summary =
  sm_id :: "string option"
  sm_names :: "string list option"
  sm_image :: "string option"
  sm_state :: "string option"
  sm_status :: "string option"

text \<open>\<open>ip_state\<close> is state, health and status; a status is its \<open>Debug\<close> text.\<close>

record inspection =
  ip_state :: "string option option option"
  ip_restarts :: "i64 option"

record stats =
  ss_total :: u64
  ss_system :: "u64 option"
  ss_online :: "u64 option"
  ss_percpu :: "u64 list option"
  ss_usage :: "u64 option"
  ss_limit :: "u64 option"

text \<open>
  The daemon during one tick: its answers, whether the collection ends within its budget, and
  the order in which \<open>buffer_unordered\<close> yields the results of the listed containers.
\<close>

record docker =
  dk_list :: "summary list call"
  dk_inspect :: "string \<Rightarrow> inspection call"
  dk_stats :: "string \<Rightarrow> stats option call"
  dk_in_budget :: bool
  dk_order :: "nat list"

definition docker_ok :: "docker \<Rightarrow> bool" where
  "docker_ok d \<longleftrightarrow> (\<forall>list. dk_list d = Done list \<longrightarrow> mset (dk_order d) = mset [0..<length list])"

section \<open>CPU usage from two readings\<close>

definition ncpu :: "stats \<Rightarrow> rat" where
  "ncpu s =
     u64_as_f64
       (case ss_online s of
          Some n \<Rightarrow> n
        | None \<Rightarrow> (case ss_percpu s of Some v \<Rightarrow> of_nat (length v) | None \<Rightarrow> 1))"

definition cpu_percent :: "rat \<Rightarrow> cpu_sample \<Rightarrow> cpu_sample \<Rightarrow> rat option" where
  "cpu_percent n p s =
     Option.bind (checked_sub (cs_total s) (cs_total p)) (\<lambda>c.
     Option.bind (checked_sub (cs_system s) (cs_system p)) (\<lambda>y.
       let cpu_delta = u64_as_f64 c; sys_delta = u64_as_f64 y
       in if sys_delta \<le> 0 then None
          else let pct = fl 53 (fl 53 (fl 53 (cpu_delta / sys_delta) * n) * 100)
               in if is_finite (Finite pct)
                  then Some (fl 24 (clamp 0 (fl 53 (n * 100)) pct))
                  else None))"

definition sample_stats ::
  "stats option call \<Rightarrow> cpu_sample option \<Rightarrow> (rat option \<times> u64 \<times> u64 option \<times> cpu_sample) option" where
  "sample_stats answer prev =
     (case answer of
        Done (Some s) \<Rightarrow>
          Option.bind (ss_system s) (\<lambda>system.
            let sample = \<lparr>cs_total = ss_total s, cs_system = system\<rparr>;
                cpu = Option.bind prev (\<lambda>p. cpu_percent (ncpu s) p sample);
                mem_mb = (case ss_usage s of None \<Rightarrow> 0 | Some b \<Rightarrow> b) div 1000000;
                limit_mb = map_option (\<lambda>l. l div 1000000) (ss_limit s)
            in Some (cpu, mem_mb, limit_mb, sample))
      | _ \<Rightarrow> None)"

section \<open>One container\<close>

definition text_or_empty :: "string option \<Rightarrow> string" where
  "text_or_empty s = (case s of None \<Rightarrow> [] | Some x \<Rightarrow> x)"

definition container_name :: "summary \<Rightarrow> string" where
  "container_name m =
     (case sm_names m of
        Some (n # _) \<Rightarrow> trim_start_matches CHR ''/'' n
      | _ \<Rightarrow> take_chars 12 (text_or_empty (sm_id m)))"

definition container_key :: "summary \<Rightarrow> string" where
  "container_key m =
     (let i = text_or_empty (sm_id m) in if i = [] then container_name m else i)"

definition inspect_result :: "inspection call \<Rightarrow> i64 option \<times> string option" where
  "inspect_result answer =
     (case answer of
        Done det \<Rightarrow>
          (ip_restarts det,
           map_option to_lowercase (Option.bind (Option.bind (ip_state det) (\<lambda>h. h)) (\<lambda>st. st)))
      | _ \<Rightarrow> (None, None))"

definition collect_one :: "docker \<Rightarrow> cpu_sample hmap \<Rightarrow> summary \<Rightarrow> container \<times> string \<times> cpu_sample option" where
  "collect_one d prev m =
     (let key = container_key m; state = text_or_empty (sm_state m)
      in case inspect_result (dk_inspect d key) of (restarts, health) \<Rightarrow>
         case (if state = ''running''
               then case sample_stats (dk_stats d key) (hget prev key) of
                      Some (c, m, l, s) \<Rightarrow> (map_option Finite c, Some m, l, Some s)
                    | None \<Rightarrow> (None, None, None, None)
               else (None, None, None, None)) of (cpu, mem, limit, sample) \<Rightarrow>
           (\<lparr>cn_name = container_name m, cn_image = text_or_empty (sm_image m), cn_state = state,
             cn_status = text_or_empty (sm_status m), cn_health = health, cn_restarts = restarts,
             cn_cpu_pct = cpu, cn_mem_mb = mem, cn_mem_limit_mb = limit\<rparr>, key, sample))"

section \<open>The collection\<close>

definition next_samples :: "(container \<times> string \<times> cpu_sample option) list \<Rightarrow> cpu_sample hmap" where
  "next_samples results =
     fold (\<lambda>(_, key, sample) m. case sample of None \<Rightarrow> m | Some s \<Rightarrow> hinsert key s m) results []"

text \<open>The state is the map of previous samples; an error leaves it as it was.\<close>

definition docker_collect :: "docker \<Rightarrow> cpu_sample hmap \<Rightarrow> (string + container list) \<times> cpu_sample hmap" where
  "docker_collect d prev =
     (case dk_list d of
        TimedOut \<Rightarrow> (Inl ''listing containers timed out'', prev)
      | Failed e \<Rightarrow> (Inl e, prev)
      | Done list \<Rightarrow>
          if \<not> dk_in_budget d then (Inl ''container collection exceeded its budget'', prev)
          else let jobs = map (collect_one d prev) list;
                   results = map ((!) jobs) (dk_order d)
               in (Inr (map fst results), next_samples results))"

section \<open>Snapshots\<close>

record snapshot =
  sn_ts :: u64
  sn_host :: host_metrics
  sn_containers :: "container list"
  sn_docker_error :: "string option"
  sn_stale_after_secs :: u64

text \<open>A clock before 1970 reads as 0.\<close>

definition now_secs :: "time \<Rightarrow> u64" where
  "now_secs t = (if t < 0 then 0 else word_of_int (t div 10 ^ 9))"

definition age_secs :: "time \<Rightarrow> snapshot \<Rightarrow> u64" where
  "age_secs now s = sat_sub_u64 (now_secs now) (sn_ts s)"

definition collect_snapshot ::
  "time \<Rightarrow> sysinfo \<Rightarrow> docker option \<Rightarrow> cpu_sample hmap \<Rightarrow> snapshot \<times> cpu_sample hmap" where
  "collect_snapshot now i d prev =
     (let ts = now_secs now; host = host_collect i;
          r = (case d of
                 Some dk \<Rightarrow>
                   (case docker_collect dk prev of
                      (Inr list, p) \<Rightarrow> ((list, None), p)
                    | (Inl e, p) \<Rightarrow> (([], Some e), p))
               | None \<Rightarrow> (([], Some ''docker not connected''), prev))
      in (\<lparr>sn_ts = ts, sn_host = host, sn_containers = fst (fst r), sn_docker_error = snd (fst r),
           sn_stale_after_secs = 0\<rparr>, snd r))"

end
