(* ===== verification/Docker_Time.thy ===== *)
theory Docker_Time
  imports Collect
begin

text \<open>
  How long one collection of \<open>src/src/collect/docker.rs\<close> takes: calls that answer after a while or
  never, each under its timeout, and the containers queried with a cap on how many are in flight. What
  the model of a tick takes as given, the order of the results and whether they arrive within the
  budget, follows from the times here. Only waiting takes time. The two library functions are taken
  by their documentation: \<open>tokio::time::timeout\<close> ends a call that has not answered when its time is over,
  and \<open>buffer_unordered(n)\<close> keeps up to \<open>n\<close> calls in flight and yields the results as they complete.
\<close>

section \<open>A call under a timeout\<close>

text \<open>In nanoseconds.\<close>

type_synonym duration = nat

definition PER_CALL_TIMEOUT :: duration where
  "PER_CALL_TIMEOUT = 3 * 10 ^ 9"

text \<open>When a call answers, if it does, and with what.\<close>

record 'a answer =
  an_after :: "duration option"
  an_result :: "string + 'a"

definition timeout :: "duration \<Rightarrow> 'a answer \<Rightarrow> 'a call \<times> duration" where
  "timeout limit c =
     (case an_after c of
        None \<Rightarrow> (TimedOut, limit)
      | Some t \<Rightarrow>
          if limit < t then (TimedOut, limit)
          else ((case an_result c of Inl e \<Rightarrow> Failed e | Inr x \<Rightarrow> Done x), t))"

record timed_docker =
  td_list :: "summary list answer"
  td_inspect :: "string \<Rightarrow> inspection answer"
  td_stats :: "string \<Rightarrow> stats option answer"

text \<open>One container: the inspection and, when it runs, the statistics, one after the other.\<close>

definition job_time :: "timed_docker \<Rightarrow> summary \<Rightarrow> duration" where
  "job_time d m =
     (let key = container_key m
      in snd (timeout PER_CALL_TIMEOUT (td_inspect d key))
         + (if text_or_empty (sm_state m) = ''running''
            then snd (timeout PER_CALL_TIMEOUT (td_stats d key)) else 0))"

lemma timeout_limit: "snd (timeout limit c) \<le> limit"
  by (simp add: timeout_def split: option.split)

lemma job_time_limit: "job_time d m \<le> 2 * PER_CALL_TIMEOUT"
  unfolding job_time_def Let_def mult_2
  by (intro add_mono timeout_limit) (simp add: timeout_limit)

section \<open>Containers in flight\<close>

definition MAX_INFLIGHT :: nat where
  "MAX_INFLIGHT = 16"

text \<open>
  The state of \<open>buffer_unordered\<close> over containers that take \<open>durs\<close>: the time, how many were taken
  from the list, those in flight with the time at which they end, and the results so far.
\<close>

record inflight =
  bf_clock :: duration
  bf_pulled :: nat
  bf_running :: "(nat \<times> duration) list"
  bf_results :: "nat list"

definition may_pull :: "duration list \<Rightarrow> inflight \<Rightarrow> bool" where
  "may_pull durs s \<longleftrightarrow> length (bf_running s) < MAX_INFLIGHT \<and> bf_pulled s < length durs"

definition pull :: "duration list \<Rightarrow> inflight \<Rightarrow> inflight" where
  "pull durs s =
     s\<lparr>bf_pulled := Suc (bf_pulled s),
       bf_running := bf_running s @ [(bf_pulled s, bf_clock s + durs ! bf_pulled s)]\<rparr>"

definition deliver :: "nat \<times> duration \<Rightarrow> inflight \<Rightarrow> inflight" where
  "deliver j s =
     s\<lparr>bf_clock := snd j, bf_running := remove1 j (bf_running s), bf_results := bf_results s @ [fst j]\<rparr>"

definition buffer_start :: inflight where
  "buffer_start = \<lparr>bf_clock = 0, bf_pulled = 0, bf_running = [], bf_results = []\<rparr>"

text \<open>
  It fills up before it waits, and then yields whichever container ends first; of those that
  end together, any.
\<close>

inductive buffer_step :: "duration list \<Rightarrow> inflight \<Rightarrow> inflight \<Rightarrow> bool" for durs :: "duration list" where
  buffer_pull: "may_pull durs s \<Longrightarrow> buffer_step durs s (pull durs s)"
| buffer_deliver:
    "\<not> may_pull durs s \<Longrightarrow> j \<in> set (bf_running s) \<Longrightarrow> \<forall>i\<in>set (bf_running s). snd j \<le> snd i \<Longrightarrow>
     buffer_step durs s (deliver j s)"

definition drained :: "duration list \<Rightarrow> inflight \<Rightarrow> bool" where
  "drained durs s \<longleftrightarrow> bf_pulled s = length durs \<and> bf_running s = []"

abbreviation buffer_reachable :: "duration list \<Rightarrow> inflight \<Rightarrow> bool" where
  "buffer_reachable durs \<equiv> reachable ((=) buffer_start) (buffer_step durs)"

section \<open>Every container once, and a bound on the time\<close>

definition buffer_inv :: "duration list \<Rightarrow> inflight \<Rightarrow> bool" where
  "buffer_inv durs s \<longleftrightarrow>
     length (bf_running s) \<le> MAX_INFLIGHT \<and> bf_pulled s \<le> length durs
     \<and> mset (map fst (bf_running s)) + mset (bf_results s) = mset [0..<bf_pulled s]
     \<and> (\<forall>(j, t)\<in>set (bf_running s). durs ! j \<le> t \<and> bf_clock s \<le> t)
     \<and> (\<forall>j\<in>set (bf_results s). durs ! j \<le> bf_clock s)"

lemma mset_remove1_fst:
  "j \<in> set xs \<Longrightarrow> add_mset (fst j) (mset (map fst (remove1 j xs))) = mset (map fst xs)"
  by (induction xs) auto

interpretation buffer: invariant_of "(=) buffer_start" "buffer_step durs" "buffer_inv durs" for durs
proof
  show "buffer_inv durs s" if "buffer_start = s" for s
    using that by (auto simp: buffer_inv_def buffer_start_def)
next
  fix s t
  assume "buffer_step durs s t" and inv: "buffer_inv durs s"
  then show "buffer_inv durs t"
  proof cases
    case buffer_pull
    then show ?thesis using inv by (auto simp: buffer_inv_def pull_def may_pull_def)
  next
    case (buffer_deliver j)
    obtain i u where j: "j = (i, u)" by (cases j)
    have left: "set (remove1 j (bf_running s)) \<subseteq> set (bf_running s)" by (rule set_remove1_subset)
    have times: "durs ! l \<le> v \<and> bf_clock s \<le> v" if "(l, v) \<in> set (bf_running s)" for l v
      using that inv by (auto simp: buffer_inv_def)
    have "bf_clock s \<le> u" "durs ! i \<le> u" using times buffer_deliver(3) j by auto
    moreover have "durs ! l \<le> v \<and> u \<le> v" if "(l, v) \<in> set (remove1 j (bf_running s))" for l v
      using that left times [of l v] buffer_deliver(4) j by fastforce
    moreover have "durs ! l \<le> u" if "l \<in> set (bf_results s)" for l
      using that inv \<open>bf_clock s \<le> u\<close> order_trans by (fastforce simp: buffer_inv_def)
    moreover have "mset (map fst (remove1 j (bf_running s))) + mset (bf_results s @ [i]) = mset [0..<bf_pulled s]"
      using inv mset_remove1_fst [OF buffer_deliver(3), symmetric] by (simp add: buffer_inv_def j del: mset_map)
    moreover have "length (remove1 j (bf_running s)) \<le> MAX_INFLIGHT" "bf_pulled s \<le> length durs"
      using inv by (auto simp: buffer_inv_def length_remove1)
    ultimately show ?thesis
      by (auto simp: buffer_deliver(1) buffer_inv_def deliver_def j simp del: mset_map)
  qed
qed

text \<open>When no container takes longer than \<open>D\<close>, the \<open>k\<close>-th ends within \<open>k div 16 + 1\<close> times \<open>D\<close>.\<close>

definition paced :: "duration \<Rightarrow> duration list \<Rightarrow> inflight \<Rightarrow> bool" where
  "paced D durs s \<longleftrightarrow>
     buffer_inv durs s
     \<and> (\<forall>(j, t)\<in>set (bf_running s). t \<le> (j div MAX_INFLIGHT + 1) * D)
     \<and> (may_pull durs s \<longrightarrow> bf_clock s \<le> bf_pulled s div MAX_INFLIGHT * D)
     \<and> bf_clock s \<le> (bf_pulled s + 15) div MAX_INFLIGHT * D"

lemma small_element:
  assumes "finite (J :: nat set)" and "card J = Suc k" and "J \<subseteq> {..<n}"
  shows "\<exists>j\<in>J. j + k < n"
proof (rule ccontr)
  assume "\<not> ?thesis"
  with assms(3) have "J \<subseteq> {n - k..<n}" by (fastforce simp: not_less subset_iff)
  then have "card J \<le> k" by (rule card_mono [THEN order_trans, rotated]) auto
  with assms(2) show False by simp
qed

lemma paced_pull:
  assumes "\<forall>d\<in>set durs. d \<le> D" and "may_pull durs s" and "paced D durs s"
  shows "paced D durs (pull durs s)"
proof -
  let ?p = "bf_pulled s"
  have "buffer_inv durs (pull durs s)"
    using assms(2,3) by (intro buffer.inv_step [OF buffer_pull]) (auto simp: paced_def)
  moreover have now: "bf_clock s \<le> ?p div MAX_INFLIGHT * D" using assms by (simp add: paced_def)
  moreover have "durs ! ?p \<le> D" using assms(1,2) by (simp add: may_pull_def)
  with now have "bf_clock s + durs ! ?p \<le> (?p div MAX_INFLIGHT + 1) * D" by (simp add: add_mono)
  moreover have "bf_clock s \<le> Suc ?p div MAX_INFLIGHT * D" "bf_clock s \<le> (Suc ?p + 15) div MAX_INFLIGHT * D"
    by (rule order_trans [OF now], intro mult_right_mono div_le_mono; simp)+
  ultimately show ?thesis
    using assms(3) by (auto simp: paced_def pull_def)
qed

lemma paced_deliver:
  assumes "\<not> may_pull durs s" and j: "(i, t) \<in> set (bf_running s)" "\<forall>i\<in>set (bf_running s). t \<le> snd i"
    and "paced D durs s"
  shows "paced D durs (deliver (i, t) s)"
proof -
  let ?p = "bf_pulled s"
  have inv: "buffer_inv durs s" using assms(4) by (simp add: paced_def)
  have "buffer_inv durs (deliver (i, t) s)"
    using inv j assms(1) by (intro buffer.inv_step [OF buffer_deliver]) auto
  moreover have pace: "u \<le> (l div MAX_INFLIGHT + 1) * D" if "(l, u) \<in> set (bf_running s)" for l u
    using that assms(4) by (auto simp: paced_def)
  moreover have pulled: "distinct (map fst (bf_running s))" "fst ` set (bf_running s) \<subseteq> {..<?p}"
  proof -
    have jobs: "mset (map fst (bf_running s) @ bf_results s) = mset [0..<?p]"
      using inv by (simp add: buffer_inv_def)
    from mset_eq_imp_distinct_iff [OF this] show "distinct (map fst (bf_running s))" by simp
    from mset_eq_setD [OF jobs] have "fst ` set (bf_running s) \<subseteq> {0..<?p}" by auto
    then show "fst ` set (bf_running s) \<subseteq> {..<?p}" by (simp add: lessThan_atLeast0)
  qed
  moreover have "t \<le> ?p div MAX_INFLIGHT * D" if "?p < length durs"
  proof -
    have "length (bf_running s) = Suc 15"
      using assms(1) inv that by (auto simp: may_pull_def buffer_inv_def MAX_INFLIGHT_def)
    then have "card (fst ` set (bf_running s)) = Suc 15"
      using distinct_card [OF pulled(1)] by simp
    from small_element [OF _ this pulled(2)] obtain l u where l: "(l, u) \<in> set (bf_running s)" "l + 15 < ?p"
      by auto
    have "t \<le> (l div MAX_INFLIGHT + 1) * D" using j(2) pace l(1) by fastforce
    also have "l div MAX_INFLIGHT + 1 = (l + 16) div MAX_INFLIGHT" by (simp add: MAX_INFLIGHT_def)
    also have "\<dots> * D \<le> ?p div MAX_INFLIGHT * D" using l(2) by (intro mult_right_mono div_le_mono) simp_all
    finally show ?thesis .
  qed
  moreover have "t \<le> (?p + 15) div MAX_INFLIGHT * D"
  proof -
    have "i < ?p" using pulled(2) j(1) by force
    have "t \<le> (i div MAX_INFLIGHT + 1) * D" by (rule pace [OF j(1)])
    also have "i div MAX_INFLIGHT + 1 = (i + 16) div MAX_INFLIGHT" by (simp add: MAX_INFLIGHT_def)
    also have "\<dots> * D \<le> (?p + 15) div MAX_INFLIGHT * D"
      using \<open>i < ?p\<close> by (intro mult_right_mono div_le_mono) simp_all
    finally show ?thesis .
  qed
  moreover have "set (remove1 (i, t) (bf_running s)) \<subseteq> set (bf_running s)" by (rule set_remove1_subset)
  ultimately show ?thesis by (auto simp: paced_def deliver_def may_pull_def)
qed

interpretation pace: invariant_of "(=) buffer_start" "buffer_step durs"
  "\<lambda>s. (\<forall>d\<in>set durs. d \<le> D) \<longrightarrow> paced D durs s" for durs D
proof
  show "(\<forall>d\<in>set durs. d \<le> D) \<longrightarrow> paced D durs s" if "buffer_start = s" for s
    using that by (auto simp: paced_def buffer_inv_def buffer_start_def)
next
  fix s t
  assume "buffer_step durs s t" and "(\<forall>d\<in>set durs. d \<le> D) \<longrightarrow> paced D durs s"
  then show "(\<forall>d\<in>set durs. d \<le> D) \<longrightarrow> paced D durs t"
    by cases (auto intro: paced_pull paced_deliver)
qed

section \<open>It ends\<close>

definition buffer_next :: "duration list \<Rightarrow> inflight \<Rightarrow> inflight option" where
  "buffer_next durs s =
     (if may_pull durs s then Some (pull durs s)
      else map_option (\<lambda>j. deliver j s) (min_by_key snd (bf_running s)))"

definition work_left :: "duration list \<Rightarrow> inflight \<Rightarrow> nat" where
  "work_left durs s = 2 * (length durs - bf_pulled s) + length (bf_running s)"

lemma step_works: "buffer_step durs s t \<Longrightarrow> work_left durs t < work_left durs s"
proof (induction rule: buffer_step.induct)
  case (buffer_pull s)
  then have "Suc (2 * (length durs - Suc (bf_pulled s))) < 2 * (length durs - bf_pulled s)"
    unfolding may_pull_def by linarith
  then show ?case by (simp add: work_left_def pull_def)
next
  case (buffer_deliver s j)
  from length_pos_if_in_set [OF this(2)] show ?case
    using buffer_deliver(2) by (simp add: work_left_def deliver_def length_remove1)
qed

lemma next_step: "buffer_next durs s = Some t \<Longrightarrow> buffer_step durs s t"
  by (auto simp: buffer_next_def split: if_splits intro: buffer_step.intros dest!: min_by_key_SomeD)

lemma next_None: "buffer_next durs s = None \<longleftrightarrow> \<not> may_pull durs s \<and> bf_running s = []"
  by (simp add: buffer_next_def)

function buffer_run :: "duration list \<Rightarrow> inflight \<Rightarrow> inflight" where
  "buffer_run durs s = (case buffer_next durs s of None \<Rightarrow> s | Some t \<Rightarrow> buffer_run durs t)"
  by pat_completeness auto
termination
  by (relation "measure (\<lambda>(durs, s). work_left durs s)") (auto intro: step_works next_step)

declare buffer_run.simps [simp del]

lemma buffer_run_reachable:
  "buffer_reachable durs s \<Longrightarrow> buffer_reachable durs (buffer_run durs s) \<and> buffer_next durs (buffer_run durs s) = None"
proof (induction durs s rule: buffer_run.induct)
  case (1 durs s)
  then show ?case
    by (cases "buffer_next durs s")
      (auto simp: buffer_run.simps [of durs s] intro: reachable_step next_step)
qed

lemma stuck_drained:
  assumes "buffer_inv durs s" and "buffer_next durs s = None"
  shows "drained durs s"
  using assms by (auto simp: next_None drained_def may_pull_def buffer_inv_def MAX_INFLIGHT_def)

definition run_all :: "duration list \<Rightarrow> inflight" where
  "run_all durs = buffer_run durs buffer_start"

lemma run_all_drained: "buffer_reachable durs (run_all durs) \<and> drained durs (run_all durs)"
proof -
  have run: "buffer_reachable durs (run_all durs) \<and> buffer_next durs (run_all durs) = None"
    unfolding run_all_def by (rule buffer_run_reachable) (rule reachable_init, rule refl)
  then show ?thesis using stuck_drained buffer.inv_reachable by blast
qed

text \<open>
  The containers are queried at most sixteen at a time, and the queries come to an end: each
  container taken from the list is in flight or has its result, exactly once, every step leaves less to
  do, a state without a next step has the results of all containers, and then the time is at least
  that of each container and at most that of the slowest for every sixteen containers.
\<close>

theorem queries_end:
  assumes "buffer_reachable durs s" and "\<forall>d\<in>set durs. d \<le> D"
  shows "length (bf_running s) \<le> 16
    \<and> mset (map fst (bf_running s) @ bf_results s) = mset [0..<bf_pulled s]
    \<and> (\<forall>t. buffer_step durs s t \<longrightarrow> work_left durs t < work_left durs s)
    \<and> ((\<nexists>t. buffer_step durs s t) = drained durs s)
    \<and> (drained durs s \<longrightarrow>
        mset (bf_results s) = mset [0..<length durs]
        \<and> (\<forall>d\<in>set durs. d \<le> bf_clock s) \<and> bf_clock s \<le> (length durs + 15) div 16 * D)"
proof (intro conjI)
  have inv: "buffer_inv durs s" and pace: "paced D durs s"
    using buffer.inv_reachable [OF assms(1)] pace.inv_reachable [OF assms(1)] assms(2) by blast+
  show "length (bf_running s) \<le> 16" "mset (map fst (bf_running s) @ bf_results s) = mset [0..<bf_pulled s]"
    using inv by (simp_all add: buffer_inv_def MAX_INFLIGHT_def)
  show "\<forall>t. buffer_step durs s t \<longrightarrow> work_left durs t < work_left durs s" using step_works by blast
  have "\<not> buffer_step durs s t" if "drained durs s" for t
    using that by (auto simp: drained_def may_pull_def elim: buffer_step.cases)
  then show "(\<nexists>t. buffer_step durs s t) = drained durs s"
    using stuck_drained [OF inv] next_step not_Some_eq by metis
  show "drained durs s \<longrightarrow> mset (bf_results s) = mset [0..<length durs]
      \<and> (\<forall>d\<in>set durs. d \<le> bf_clock s) \<and> bf_clock s \<le> (length durs + 15) div 16 * D"
  proof (intro impI conjI)
    assume end_state: "drained durs s"
    then show jobs: "mset (bf_results s) = mset [0..<length durs]"
      using inv by (simp add: buffer_inv_def drained_def)
    have "\<forall>j<length durs. durs ! j \<le> bf_clock s"
      using inv mset_eq_setD [OF jobs] by (auto simp: buffer_inv_def)
    then show "\<forall>d\<in>set durs. d \<le> bf_clock s" by (auto simp: in_set_conv_nth)
    show "bf_clock s \<le> (length durs + 15) div 16 * D"
      using pace end_state by (simp add: paced_def drained_def MAX_INFLIGHT_def)
  qed
qed

theorem queries_end_witness: "bf_clock (run_all [5, 3]) = 5"
proof -
  have "buffer_reachable [5, 3] (run_all [5, 3])" "drained [5, 3] (run_all [5, 3])" using run_all_drained by blast+
  with queries_end [of "[5, 3]" "run_all [5, 3]" 5] show ?thesis by simp
qed

end
