(* ===== verification/Collect_Props.thy ===== *)
theory Collect_Props
  imports Collect
begin

text \<open>The properties of the collectors: percentages, CPU usage, and the map of previous samples.\<close>

section \<open>Host metrics\<close>

definition percentage :: "float_val \<Rightarrow> bool" where
  "percentage v = (case v of Finite x \<Rightarrow> 0 \<le> x \<and> x \<le> 100 | _ \<Rightarrow> False)"

lemma used_pct_bounds: "0 \<le> used_pct all avail \<and> used_pct all avail \<le> 100"
proof (cases "0 < all")
  case True
  moreover have "u64_as_f32 (sat_sub_u64 all avail) \<le> u64_as_f32 all"
    by (rule u64_as_f32_mono) (simp add: word_le_nat_alt unat_sat_sub_u64)
  ultimately show ?thesis
    using percent_bounds [of "u64_as_f32 (sat_sub_u64 all avail)" "u64_as_f32 all" 24] u64_as_f32_pos [OF True]
    by (simp add: used_pct_def)
qed (simp add: used_pct_def)

text \<open>
  Whatever the kernel reports (available above total, no disk mounted on the root, a CPU
  reading that is not a number), the memory and disk percentages lie between 0 and 100 and the
  CPU figure is finite; nothing used is 0 and nothing available is exactly 100.
\<close>

theorem host_percentages_bounded:
  "percentage (h_mem_used_pct (host_collect i)) \<and> percentage (h_disk_used_pct (host_collect i))
   \<and> is_finite (h_cpu_pct (host_collect i))
   \<and> used_pct n n = 0 \<and> used_pct n 0 = (if 0 < n then 100 else 0)"
proof -
  have "used_pct n 0 = (if 0 < n then 100 else 0)"
  proof (cases "0 < n")
    case True
    then have "1 \<le> u64_as_f32 n" by (rule u64_as_f32_pos)
    moreover have "sat_sub_u64 n 0 = n" by (simp add: sat_sub_u64_def)
    moreover have "fl 24 1 = 1" "fl 24 100 = 100"
      using fl_of_int [of 1 24] fl_of_int [of 100 24] by simp_all
    ultimately show ?thesis using True by (simp add: used_pct_def)
  qed (simp add: used_pct_def)
  moreover have "used_pct n n = 0" by (simp add: used_pct_def sat_sub_u64_def u64_as_f32_def)
  ultimately show ?thesis
    using used_pct_bounds by (auto simp: host_collect_def percentage_def split: prod.split)
qed

section \<open>CPU usage\<close>

lemma cpu_percent_cases:
  assumes "0 \<le> n"
  shows "cpu_percent n p s =
    (if cs_total p \<le> cs_total s \<and> cs_system p < cs_system s
     then Some (fl 24 (clamp 0 (fl 53 (n * 100))
       (fl 53 (fl 53 (fl 53 (u64_as_f64 (cs_total s - cs_total p) / u64_as_f64 (cs_system s - cs_system p)) * n) * 100))))
     else None)"
proof -
  have "u64_as_f64 w \<le> 0 \<longleftrightarrow> w = 0" for w
    by (metis not_le u64_as_f64_pos word_gt_0)
  moreover have "cs_system p < cs_system s \<longleftrightarrow> cs_system p \<le> cs_system s \<and> cs_system s - cs_system p \<noteq> 0"
    by auto
  ultimately show ?thesis
    by (auto simp: cpu_percent_def checked_sub_def Let_def)
qed

text \<open>
  C33. A CPU figure exists exactly when there is an earlier reading, the container's counter has not
  gone back (a restart) and the system's counter has advanced; it lies between 0 and 100 per cent
  of each processor, and it is 0 only if the container used none or the daemon reports no
  processor at all (\<open>online_cpus\<close> of 0, or an empty \<open>percpu_usage\<close>): then even a busy container is
  reported as idle.
\<close>

theorem cpu_usage_sound:
  assumes "sample_stats (Done (Some s)) prev = Some (cpu, mem_mb, limit, sample)"
  shows "cs_total sample = ss_total s \<and> ss_system s = Some (cs_system sample)
    \<and> (cpu \<noteq> None) = (\<exists>p. prev = Some p \<and> cs_total p \<le> cs_total sample \<and> cs_system p < cs_system sample)
    \<and> (\<forall>x. cpu = Some x \<longrightarrow> 0 \<le> x \<and> x \<le> fl 24 (fl 53 (ncpu s * 100)))
    \<and> (\<forall>x p. cpu = Some x \<longrightarrow> prev = Some p \<longrightarrow>
         (x = 0) = (cs_total sample = cs_total p \<or> ncpu s = 0))"
proof -
  have n: "0 \<le> ncpu s" by (simp add: ncpu_def)
  have sample: "cs_total sample = ss_total s" "ss_system s = Some (cs_system sample)"
    and cpu: "cpu = Option.bind prev (\<lambda>p. cpu_percent (ncpu s) p sample)"
    using assms by (auto simp: sample_stats_def Let_def split: bind_splits)
  have some: "(cpu \<noteq> None) = (\<exists>p. prev = Some p \<and> cs_total p \<le> cs_total sample \<and> cs_system p < cs_system sample)"
    by (auto simp: cpu cpu_percent_cases [OF n] split: bind_splits if_splits)
  have "0 \<le> x \<and> x \<le> fl 24 (fl 53 (ncpu s * 100)) \<and>
      (\<forall>p. prev = Some p \<longrightarrow> (x = 0) = (cs_total sample = cs_total p \<or> ncpu s = 0))" if x: "cpu = Some x" for x
  proof -
    from x obtain p where p: "prev = Some p" "cs_total p \<le> cs_total sample" "cs_system p < cs_system sample"
      using some by blast
    let ?c = "u64_as_f64 (cs_total sample - cs_total p)" and ?y = "u64_as_f64 (cs_system sample - cs_system p)"
    let ?pct = "fl 53 (fl 53 (fl 53 (?c / ?y) * ncpu s) * 100)" and ?top = "fl 53 (ncpu s * 100)"
    have eq: "x = fl 24 (clamp 0 ?top ?pct)"
      using x p by (simp add: cpu cpu_percent_cases [OF n])
    have top: "0 \<le> ?top" using n by simp
    have range: "0 \<le> clamp 0 ?top ?pct" "clamp 0 ?top ?pct \<le> ?top"
      using clamp_bounds [OF top] by blast+
    have "(x = 0) = (cs_total sample = cs_total p)" if np: "0 < ncpu s"
    proof (cases "cs_total sample = cs_total p")
      case True
      then have "?pct = 0" by (simp add: u64_as_f64_def)
      then show ?thesis using True top eq by (auto simp: clamp_def)
    next
      case False
      then have "0 < cs_total sample - cs_total p" by (simp add: word_gt_0)
      moreover have "0 < cs_system sample - cs_system p" using p(3) by (auto simp: word_gt_0)
      ultimately have "0 < ?c" "0 < ?y" by (simp_all only: u64_as_f64_pos)
      then have "0 < ?pct" using np by (intro fl_positive mult_pos_pos divide_pos_pos) simp_all
      moreover have "0 < ?top" using np by (intro fl_positive) simp_all
      ultimately have "0 < x" unfolding eq by (intro fl_positive) (simp_all add: clamp_def)
      with False show ?thesis by simp
    qed
    moreover have "x = 0" if "ncpu s = 0" using that range by (simp add: eq)
    ultimately have "(x = 0) = (cs_total sample = cs_total p \<or> ncpu s = 0)" using n by linarith
    with p(1) range show ?thesis unfolding eq by (auto intro: fl_mono)
  qed
  with sample some show ?thesis by blast
qed

definition ex_stats :: stats where
  "ex_stats = \<lparr>ss_total = 1500, ss_system = Some 9000, ss_online = Some 4, ss_percpu = None,
     ss_usage = Some 5000000, ss_limit = None\<rparr>"

lemma ex_sample:
  "sample_stats (Done (Some ex_stats)) (Some \<lparr>cs_total = 1000, cs_system = 1000\<rparr>) =
     Some (Some 25, 5, None, \<lparr>cs_total = 1500, cs_system = 9000\<rparr>)"
  by code_simp

theorem cpu_usage_sound_witness: "(25 :: rat) \<le> fl 24 (fl 53 (ncpu ex_stats * 100))"
  using cpu_usage_sound [OF ex_sample] by simp

section \<open>Isolation\<close>

text \<open>The fold of \<open>next_samples\<close>, from any map.\<close>

lemma next_samples_fold:
  assumes "wf_hmap m"
  defines "grow \<equiv> \<lambda>rs m. fold (\<lambda>(_, key, sample) m. case sample of None \<Rightarrow> m | Some s \<Rightarrow> hinsert key s m) rs m"
  shows "wf_hmap (grow rs m) \<and> length (grow rs m) \<le> length rs + length m
    \<and> set (hkeys (grow rs m)) = set (hkeys m) \<union> {k. \<exists>c s. (c, k, Some s) \<in> set rs}"
  using assms(1)
proof (induction rs arbitrary: m)
  case Nil
  then show ?case by (simp add: grow_def)
next
  case (Cons r rs)
  obtain c k u where r: "r = (c, k, u)" by (cases r)
  show ?case
  proof (cases u)
    case None
    then have "grow (r # rs) m = grow rs m" by (simp add: grow_def r)
    with Cons.IH [OF Cons.prems] r None show ?thesis by auto
  next
    case (Some s)
    then have "grow (r # rs) m = grow rs (hinsert k s m)" by (simp add: grow_def r)
    moreover have "set (hkeys (hinsert k s m)) = insert k (set (hkeys m))"
      by (auto simp: hinsert_def hremove_def)
    moreover have "length (hinsert k s m) \<le> Suc (length m)"
      by (simp add: hinsert_def length_hremove_le)
    ultimately show ?thesis using Cons.IH [of "hinsert k s m"] Cons.prems r Some by auto
  qed
qed

lemma arranged:
  assumes "mset order = mset [0..<length jobs]"
  shows "mset (map ((!) jobs) order) = mset jobs"
proof -
  have "mset (map ((!) jobs) order) = image_mset ((!) jobs) (mset [0..<length jobs])"
    using assms by (simp only: mset_map)
  also have "\<dots> = mset jobs" by (simp only: mset_map [symmetric] map_nth)
  finally show ?thesis .
qed

lemma collect_one_fields:
  "cn_name (fst (collect_one d prev m)) = container_name m"
  "fst (snd (collect_one d prev m)) = container_key m"
  "snd (snd (collect_one d prev m)) =
     (if text_or_empty (sm_state m) = ''running''
      then map_option (\<lambda>(_, _, _, s). s) (sample_stats (dk_stats d (container_key m)) (hget prev (container_key m)))
      else None)"
  by (auto simp: collect_one_def Let_def split: prod.split option.split)

text \<open>
  What a completed tick returns: each listed container once, and a reading for exactly the running
  containers whose statistics could be read.
\<close>

definition complete_tick ::
  "docker \<Rightarrow> cpu_sample hmap \<Rightarrow> summary list \<Rightarrow> container list \<Rightarrow> cpu_sample hmap \<Rightarrow> bool" where
  "complete_tick d prev list out prev' \<longleftrightarrow>
     mset out = mset (map (\<lambda>m. fst (collect_one d prev m)) list)
     \<and> wf_hmap prev' \<and> length prev' \<le> length list
     \<and> (\<forall>k. hget prev' k \<noteq> None \<longleftrightarrow>
         (\<exists>m\<in>set list. container_key m = k \<and> text_or_empty (sm_state m) = ''running''
            \<and> sample_stats (dk_stats d k) (hget prev k) \<noteq> None))"

lemma collected:
  assumes "docker_ok d" and "dk_list d = Done list" and "dk_in_budget d"
  shows "\<exists>out prev'. docker_collect d prev = (Inr out, prev') \<and> complete_tick d prev list out prev'"
proof -
  let ?jobs = "map (collect_one d prev) list"
  let ?rs = "map ((!) ?jobs) (dk_order d)"
  have perm: "mset ?rs = mset ?jobs"
    by (rule arranged) (use assms(1,2) in \<open>simp only: docker_ok_def length_map\<close>)
  note grown = next_samples_fold [OF wf_hmap_Nil, of ?rs, folded next_samples_def]
  have "mset (map fst ?rs) = mset (map (\<lambda>m. fst (collect_one d prev m)) list)"
    using arg_cong [OF perm, of "image_mset fst"] by (simp add: multiset.map_comp comp_def)
  moreover have "length ?rs = length list" using mset_eq_length [OF perm] by simp
  moreover have "hget (next_samples ?rs) k \<noteq> None \<longleftrightarrow>
      (\<exists>m\<in>set list. container_key m = k \<and> text_or_empty (sm_state m) = ''running''
         \<and> sample_stats (dk_stats d k) (hget prev k) \<noteq> None)" for k
  proof -
    have "hget (next_samples ?rs) k \<noteq> None \<longleftrightarrow> (\<exists>c s. (c, k, Some s) \<in> set ?jobs)"
      using grown mset_eq_setD [OF perm] by (simp add: hget_None_iff)
    also have "\<dots> \<longleftrightarrow> (\<exists>m\<in>set list. \<exists>c s. collect_one d prev m = (c, k, Some s))"
      by (auto simp: image_iff) metis+
    also have "\<dots> \<longleftrightarrow> (\<exists>m\<in>set list. fst (snd (collect_one d prev m)) = k \<and> snd (snd (collect_one d prev m)) \<noteq> None)"
    proof -
      have "(\<exists>c s. x = (c, k, Some s)) \<longleftrightarrow> fst (snd x) = k \<and> snd (snd x) \<noteq> None" for x :: "container \<times> string \<times> cpu_sample option"
        by (cases x) auto
      then show ?thesis by simp
    qed
    finally show ?thesis by (auto simp: collect_one_fields)
  qed
  ultimately have "complete_tick d prev list (map fst ?rs) (next_samples ?rs)"
    using grown unfolding complete_tick_def by (intro conjI allI) simp_all
  moreover have "docker_collect d prev = (Inr (map fst ?rs), next_samples ?rs)"
    using assms(2,3) by (simp add: docker_collect_def Let_def)
  ultimately show ?thesis by blast
qed

text \<open>
  C34. A tick fails only when the list cannot be read or the budget is exceeded, and then the
  previous samples are kept. Otherwise it reports each listed container exactly once, whatever the
  calls about single containers do, and the new samples are those of containers that are
  listed and running now: the map never outgrows the list.
\<close>

theorem one_sick_container_is_isolated:
  assumes "docker_ok d"
  shows "(\<exists>e. docker_collect d prev = (Inl e, prev)) = (\<not> (\<exists>list. dk_list d = Done list) \<or> \<not> dk_in_budget d)
    \<and> (\<forall>list. dk_list d = Done list \<longrightarrow> dk_in_budget d \<longrightarrow>
        (\<exists>out prev'. docker_collect d prev = (Inr out, prev') \<and> complete_tick d prev list out prev'))"
proof -
  have "(\<exists>e. docker_collect d prev = (Inl e, prev)) = (\<not> (\<exists>list. dk_list d = Done list) \<or> \<not> dk_in_budget d)"
    by (auto simp: docker_collect_def Let_def split: call.split)
  then show ?thesis using collected [OF assms] by blast
qed

text \<open>A reading of the host, and a daemon with two containers, one of which answers no call in time.\<close>

definition ex_host :: sysinfo where
  "ex_host =
     \<lparr>global_cpu_usage = Finite 12, total_memory = 4000, available_memory = 1000, used_swap = 0,
      disks = [(''/'', 200, 50)], load_average = (Finite 1, Finite 1, NaN), host_name = None, uptime = 7\<rparr>"

definition ex_docker :: docker where
  "ex_docker =
     \<lparr>dk_list = Done
        [\<lparr>sm_id = Some ''1f'', sm_names = Some [''/web''], sm_image = None, sm_state = Some ''running'', sm_status = None\<rparr>,
         \<lparr>sm_id = Some ''2f'', sm_names = None, sm_image = None, sm_state = Some ''running'', sm_status = None\<rparr>],
      dk_inspect = (\<lambda>_. TimedOut),
      dk_stats = (\<lambda>k. if k = ''1f'' then Done (Some ex_stats) else TimedOut),
      dk_in_budget = True, dk_order = [1, 0]\<rparr>"

theorem one_sick_container_is_isolated_witness:
  "\<exists>out prev'. docker_collect ex_docker [] = (Inr out, prev') \<and> length out = 2 \<and> length prev' \<le> 2
     \<and> hget prev' ''1f'' \<noteq> None \<and> hget prev' ''2f'' = None"
proof -
  have "docker_ok ex_docker"
    by (simp add: docker_ok_def ex_docker_def atLeast0_lessThan_Suc add_mset_commute)
  note iso = conjunct2 [OF one_sick_container_is_isolated [OF this, of "[]"]]
  obtain list where list: "dk_list ex_docker = Done list" "dk_in_budget ex_docker" "length list = 2"
    "container_key (list ! 0) = ''1f''" "text_or_empty (sm_state (list ! 0)) = ''running''"
    by (simp add: ex_docker_def container_key_def text_or_empty_def)
  with iso obtain out prev' where run: "docker_collect ex_docker [] = (Inr out, prev')"
    and tick: "complete_tick ex_docker [] list out prev'"
    by blast
  have "sample_stats (dk_stats ex_docker ''1f'') (hget [] ''1f'') \<noteq> None" by code_simp
  moreover have "sample_stats (dk_stats ex_docker ''2f'') (hget [] ''2f'') = None" by code_simp
  moreover have "list ! 0 \<in> set list" using list(3) by simp
  ultimately have "hget prev' ''1f'' \<noteq> None" "hget prev' ''2f'' = None"
    using tick list(4,5) unfolding complete_tick_def by blast+
  moreover have "length out = 2" "length prev' \<le> 2"
    using tick list(3) by (auto simp: complete_tick_def dest: arg_cong [of _ _ size])
  ultimately show ?thesis using run by blast
qed

end
