(* ===== verification/Socket_Addr.thy ===== *)
theory Socket_Addr
  imports Text
begin

text \<open>
  \<open>str::parse::<SocketAddr>()\<close> and \<open>IpAddr::is_loopback\<close> of Rust's standard library, on which the
  refusal to serve without authentication rests. A reader returns its value and the rest of the
  input, and consumes nothing when it fails.
\<close>

datatype ip_addr = V4 "int list" | V6 "int list"

record socket_addr =
  sa_ip :: ip_addr
  sa_port :: int

definition is_loopback :: "ip_addr \<Rightarrow> bool" where
  "is_loopback a =
     (case a of
        V4 o4 \<Rightarrow> take 1 o4 = [127]
      | V6 gs \<Rightarrow> gs = [0, 0, 0, 0, 0, 0, 0, 1])"

section \<open>Numbers\<close>

definition to_digit :: "int \<Rightarrow> char \<Rightarrow> int option" where
  "to_digit radix c =
     (let b = (of_char c :: int);
          d = (if 48 \<le> b \<and> b \<le> 57 then b - 48
               else if 97 \<le> b \<and> b \<le> 122 then b - 87
               else if 65 \<le> b \<and> b \<le> 90 then b - 55 else 99)
      in if d < radix then Some d else None)"

fun read_digits :: "int \<Rightarrow> string \<Rightarrow> int list \<times> string" where
  "read_digits radix [] = ([], [])"
| "read_digits radix (c # cs) =
     (case to_digit radix c of
        None \<Rightarrow> ([], c # cs)
      | Some d \<Rightarrow> (case read_digits radix cs of (ds, r) \<Rightarrow> (d # ds, r)))"

text \<open>At most \<open>max_digits\<close> digits, if given, and a value of at most \<open>bound\<close>.\<close>

definition read_number :: "int \<Rightarrow> nat option \<Rightarrow> bool \<Rightarrow> int \<Rightarrow> string \<Rightarrow> (int \<times> string) option" where
  "read_number radix max_digits zero_prefix bound s =
     (case read_digits radix s of (ds, r) \<Rightarrow>
        let v = foldl (\<lambda>v d. v * radix + d) 0 ds
        in if ds = [] \<or> (case max_digits of None \<Rightarrow> False | Some m \<Rightarrow> m < length ds) \<or> bound < v
              \<or> \<not> zero_prefix \<and> hd ds = 0 \<and> 1 < length ds
           then None else Some (v, r))"

section \<open>Addresses\<close>

definition read_separated :: "char \<Rightarrow> bool \<Rightarrow> (string \<Rightarrow> ('a \<times> string) option) \<Rightarrow> string \<Rightarrow> ('a \<times> string) option" where
  "read_separated c separated f s =
     (if separated then Option.bind (strip_prefix [c] s) f else f s)"

fun read_octets :: "nat \<Rightarrow> bool \<Rightarrow> string \<Rightarrow> (int list \<times> string) option" where
  "read_octets 0 separated s = Some ([], s)"
| "read_octets (Suc n) separated s =
     Option.bind (read_separated CHR ''.'' separated (read_number 10 (Some 3) False 255) s) (\<lambda>(v, r).
     Option.bind (read_octets n True r) (\<lambda>(vs, r'). Some (v # vs, r')))"

definition read_ipv4 :: "string \<Rightarrow> (int list \<times> string) option" where
  "read_ipv4 = read_octets 4 False"

text \<open>
  Up to \<open>n\<close> groups; while two are left an IPv4 address may take the place of the last two. The flag
  tells that one did.
\<close>

definition groups_of_ipv4 :: "int list \<Rightarrow> int list" where
  "groups_of_ipv4 v = [v ! 0 * 256 + v ! 1, v ! 2 * 256 + v ! 3]"

fun read_groups :: "nat \<Rightarrow> bool \<Rightarrow> string \<Rightarrow> int list \<times> bool \<times> string" where
  "read_groups 0 separated s = ([], False, s)"
| "read_groups (Suc n) separated s =
     (case (if 0 < n then read_separated CHR '':'' separated read_ipv4 s else None) of
        Some (v, r) \<Rightarrow> (groups_of_ipv4 v, True, r)
      | None \<Rightarrow>
          (case read_separated CHR '':'' separated (read_number 16 (Some 4) True 65535) s of
             Some (g, r) \<Rightarrow> (case read_groups n True r of (gs, v4, r') \<Rightarrow> (g # gs, v4, r'))
           | None \<Rightarrow> ([], False, s)))"

definition read_ipv6 :: "string \<Rightarrow> (int list \<times> string) option" where
  "read_ipv6 s =
     (case read_groups 8 False s of (head, v4, r) \<Rightarrow>
        if length head = 8 then Some (head, r)
        else if v4 then None
        else Option.bind (strip_prefix ''::'' r) (\<lambda>r'.
          case read_groups (7 - length head) False r' of (tail, _, r'') \<Rightarrow>
            Some (head @ replicate (8 - length head - length tail) 0 @ tail, r'')))"

definition read_port :: "string \<Rightarrow> (int \<times> string) option" where
  "read_port = read_separated CHR '':'' True (read_number 10 None True 65535)"

definition read_v4_socket :: "string \<Rightarrow> (socket_addr \<times> string) option" where
  "read_v4_socket s =
     Option.bind (read_ipv4 s) (\<lambda>(a, r).
     Option.bind (read_port r) (\<lambda>(p, r'). Some (\<lparr>sa_ip = V4 a, sa_port = p\<rparr>, r')))"

definition skip_scope :: "string \<Rightarrow> string" where
  "skip_scope s =
     (case read_separated CHR ''%'' True (read_number 10 None True (2 ^ 32 - 1)) s of
        None \<Rightarrow> s
      | Some (_, r) \<Rightarrow> r)"

definition read_v6_socket :: "string \<Rightarrow> (socket_addr \<times> string) option" where
  "read_v6_socket s =
     Option.bind (strip_prefix ''['' s) (\<lambda>r0.
     Option.bind (read_ipv6 r0) (\<lambda>(a, r).
     Option.bind (strip_prefix '']'' (skip_scope r)) (\<lambda>r'.
     Option.bind (read_port r') (\<lambda>(p, r''). Some (\<lparr>sa_ip = V6 a, sa_port = p\<rparr>, r'')))))"

definition parse_socket_addr :: "string \<Rightarrow> socket_addr option" where
  "parse_socket_addr s =
     (case (case read_v4_socket s of None \<Rightarrow> read_v6_socket s | Some x \<Rightarrow> Some x) of
        Some (a, []) \<Rightarrow> Some a
      | _ \<Rightarrow> None)"

section \<open>Well-formed results\<close>

definition addr_ok :: "socket_addr \<Rightarrow> bool" where
  "addr_ok a \<longleftrightarrow>
     (case sa_ip a of
        V4 vs \<Rightarrow> length vs = 4 \<and> (\<forall>v\<in>set vs. 0 \<le> v \<and> v \<le> 255)
      | V6 gs \<Rightarrow> length gs = 8 \<and> (\<forall>g\<in>set gs. 0 \<le> g \<and> g \<le> 65535))
     \<and> 0 \<le> sa_port a \<and> sa_port a \<le> 65535"

lemma digits_nonneg: "read_digits radix s = (ds, r) \<Longrightarrow> \<forall>d\<in>set ds. 0 \<le> d"
proof (induction s arbitrary: ds r)
  case (Cons c s)
  then show ?case
    by (fastforce simp: to_digit_def Let_def split: option.splits prod.splits if_splits)
qed simp

lemma value_nonneg: "\<forall>d\<in>set ds. 0 \<le> d \<Longrightarrow> 0 \<le> radix \<Longrightarrow> 0 \<le> v \<Longrightarrow> 0 \<le> foldl (\<lambda>v d. v * radix + d) v (ds :: int list)"
  by (induction ds arbitrary: v) auto

lemma number_range: "read_number radix m z bound s = Some (v, r) \<Longrightarrow> 0 \<le> radix \<Longrightarrow> 0 \<le> v \<and> v \<le> bound"
  using digits_nonneg value_nonneg
  by (fastforce simp: read_number_def Let_def split: prod.splits if_splits)

lemma separated_range:
  "read_separated c b (read_number radix m z bound) s = Some (v, r) \<Longrightarrow> 0 \<le> radix \<Longrightarrow> 0 \<le> v \<and> v \<le> bound"
  by (auto simp: read_separated_def number_range split: if_splits bind_splits)

lemma octets_ok:
  "read_octets n b s = Some (vs, r) \<Longrightarrow> length vs = n \<and> (\<forall>v\<in>set vs. 0 \<le> v \<and> v \<le> 255)"
proof (induction n arbitrary: b s vs r)
  case (Suc n)
  then obtain v r1 ws where v: "read_separated CHR ''.'' b (read_number 10 (Some 3) False 255) s = Some (v, r1)"
    "read_octets n True r1 = Some (ws, r)" "vs = v # ws"
    by (auto split: bind_splits)
  with separated_range [OF v(1)] Suc.IH [OF v(2)] show ?case by auto
qed simp

lemma ipv4_groups_ok:
  assumes "read_separated c b read_ipv4 s = Some (vs, r)"
  shows "\<forall>g\<in>set (groups_of_ipv4 vs). 0 \<le> g \<and> g \<le> 65535"
proof -
  obtain s' where "read_octets 4 False s' = Some (vs, r)"
    using assms by (auto simp: read_separated_def read_ipv4_def split: if_splits bind_splits)
  from octets_ok [OF this] have "length vs = 4" "\<forall>i<4. 0 \<le> vs ! i \<and> vs ! i \<le> 255" by auto
  then have "0 \<le> vs ! 0 \<and> vs ! 0 \<le> 255" "0 \<le> vs ! 1 \<and> vs ! 1 \<le> 255" "0 \<le> vs ! 2 \<and> vs ! 2 \<le> 255"
    "0 \<le> vs ! 3 \<and> vs ! 3 \<le> 255" by simp_all
  then show ?thesis by (auto simp: groups_of_ipv4_def)
qed

lemma groups_ok:
  "read_groups n b s = (gs, v4, r) \<Longrightarrow> length gs \<le> n \<and> (\<forall>g\<in>set gs. 0 \<le> g \<and> g \<le> 65535)"
proof (induction n arbitrary: b s gs v4 r)
  case (Suc n)
  show ?case
  proof (cases "if 0 < n then read_separated CHR '':'' b read_ipv4 s else None")
    case (Some x)
    then obtain vs r1 where x: "x = (vs, r1)" "0 < n" "read_separated CHR '':'' b read_ipv4 s = Some (vs, r1)"
      by (cases x) (auto split: if_splits)
    with Suc.prems have "gs = groups_of_ipv4 vs" by simp
    with ipv4_groups_ok [OF x(3)] x(2) show ?thesis by (simp add: groups_of_ipv4_def)
  next
    case None
    show ?thesis
    proof (cases "read_separated CHR '':'' b (read_number 16 (Some 4) True 65535) s")
      case None
      with Suc.prems \<open>(if 0 < n then _ else None) = None\<close> show ?thesis by simp
    next
      case (Some y)
      obtain g r1 hs w4 r2 where y: "y = (g, r1)" "read_groups n True r1 = (hs, w4, r2)"
        by (metis prod_cases3 surj_pair)
      with Suc.prems Some \<open>(if 0 < n then _ else None) = None\<close> have "gs = g # hs" by simp
      with separated_range [of _ _ 16] Some y Suc.IH [OF y(2)] show ?thesis by fastforce
    qed
  qed
qed simp

lemma ipv6_ok: "read_ipv6 s = Some (gs, r) \<Longrightarrow> length gs = 8 \<and> (\<forall>g\<in>set gs. 0 \<le> g \<and> g \<le> 65535)"
proof -
  assume "read_ipv6 s = Some (gs, r)"
  moreover obtain hs v4 r1 where h: "read_groups 8 False s = (hs, v4, r1)" by (metis prod_cases3)
  ultimately show ?thesis
  proof (cases "length hs = 8")
    case False
    with \<open>read_ipv6 s = Some (gs, r)\<close> h obtain r2 ts w4 where
      t: "read_groups (7 - length hs) False r2 = (ts, w4, r)"
      "gs = hs @ replicate (8 - length hs - length ts) 0 @ ts"
      by (auto simp: read_ipv6_def split: if_splits bind_splits prod.splits)
    with groups_ok [OF h] groups_ok [OF t(1)] False show ?thesis by auto
  qed (use groups_ok [OF h] in \<open>auto simp: read_ipv6_def\<close>)
qed

lemma port_ok: "read_port s = Some (p, r) \<Longrightarrow> 0 \<le> p \<and> p \<le> 65535"
  using separated_range [of _ _ 10] by (fastforce simp: read_port_def)

lemma parse_ok: "parse_socket_addr s = Some a \<Longrightarrow> addr_ok a"
proof -
  assume "parse_socket_addr s = Some a"
  then consider r where "read_v4_socket s = Some (a, r)" | r where "read_v6_socket s = Some (a, r)"
    by (auto simp: parse_socket_addr_def split: option.splits list.splits)
  then show ?thesis
  proof cases
    case 1
    then obtain vs r1 p where "read_ipv4 s = Some (vs, r1)" "read_port r1 = Some (p, r)"
      "a = \<lparr>sa_ip = V4 vs, sa_port = p\<rparr>"
      by (auto simp: read_v4_socket_def split: bind_splits)
    with octets_ok port_ok show ?thesis by (fastforce simp: addr_ok_def read_ipv4_def)
  next
    case 2
    then obtain s1 gs r1 r2 p where "read_ipv6 s1 = Some (gs, r1)" "read_port r2 = Some (p, r)"
      "a = \<lparr>sa_ip = V6 gs, sa_port = p\<rparr>"
      by (auto simp: read_v6_socket_def split: bind_splits)
    with ipv6_ok port_ok show ?thesis by (fastforce simp: addr_ok_def)
  qed
qed

end
