(* ===== verification/Config.thy ===== *)
theory Config
  imports Socket_Addr Rust_Int
begin

text \<open>
  \<open>src/src/config.rs\<close>: the deserialisation of the file, with its defaults and its refusal of
  unknown keys, and \<open>load\<close>. The parsers of the packages \<open>toml\<close> (text to a table) and \<open>humantime\<close>
  (text to a duration) are parameters. The sections are read from tables; a section written as an
  array is outside the model.
\<close>

datatype toml =
  TString string
| TInteger int
| TFloat float_val
| TBoolean bool
| TDatetime string
| TArray "toml list"
| TTable "(string \<times> toml) list"

type_synonym table = "(string \<times> toml) list"

record parsers =
  toml_parse :: "string \<Rightarrow> string + table"
  humantime_parse :: "string \<Rightarrow> string + time"

section \<open>The raw file\<close>

record web_raw =
  wr_bind :: string
  wr_token :: "string option"
  wr_rp_id :: "string option"
  wr_rp_origin :: "string option"
  wr_data_dir :: string

record docker_raw =
  dr_socket :: string

record raw =
  rw_interval :: time
  rw_web :: web_raw
  rw_docker :: docker_raw

definition default_interval :: time where
  "default_interval = from_secs 15"

definition default_bind :: string where
  "default_bind = ''127.0.0.1:9110''"

definition default_data_dir :: string where
  "default_data_dir = ''/var/lib/vitals''"

definition default_docker_socket :: string where
  "default_docker_socket = ''/var/run/docker.sock''"

definition default_web_raw :: web_raw where
  "default_web_raw =
     \<lparr>wr_bind = default_bind, wr_token = None, wr_rp_id = None, wr_rp_origin = None,
      wr_data_dir = default_data_dir\<rparr>"

definition default_docker_raw :: docker_raw where
  "default_docker_raw = \<lparr>dr_socket = default_docker_socket\<rparr>"

section \<open>Deserialisation\<close>

text \<open>The \<open>?\<close> operator on results.\<close>

definition bind_sum :: "'e + 'a \<Rightarrow> ('a \<Rightarrow> 'e + 'b) \<Rightarrow> 'e + 'b" where
  "bind_sum r k = (case r of Inl e \<Rightarrow> Inl e | Inr x \<Rightarrow> k x)"

lemma bind_sum_Inr_iff: "bind_sum r k = Inr y \<longleftrightarrow> (\<exists>x. r = Inr x \<and> k x = Inr y)"
  by (auto simp: bind_sum_def split: sum.split)

definition field :: "string \<Rightarrow> (toml \<Rightarrow> string + 'a) \<Rightarrow> 'a \<Rightarrow> table \<Rightarrow> string + 'a" where
  "field name f absent t =
     (case map_of t name of None \<Rightarrow> Inr absent | Some v \<Rightarrow> f v)"

fun de_string :: "toml \<Rightarrow> string + string" where
  "de_string (TString s) = Inr s"
| "de_string _ = Inl ''invalid type: expected a string''"

definition de_opt_string :: "toml \<Rightarrow> string + string option" where
  "de_opt_string v = bind_sum (de_string v) (\<lambda>s. Inr (Some s))"

definition deny_unknown :: "string list \<Rightarrow> table \<Rightarrow> string + unit" where
  "deny_unknown known t =
     (if list_all (\<lambda>(k, _). k \<in> set known) t then Inr () else Inl ''unknown field'')"

fun de_web :: "toml \<Rightarrow> string + web_raw" where
  "de_web (TTable t) =
     bind_sum (deny_unknown [''bind'', ''token'', ''rp_id'', ''rp_origin'', ''data_dir''] t) (\<lambda>_.
     bind_sum (field ''bind'' de_string default_bind t) (\<lambda>addr.
     bind_sum (field ''token'' de_opt_string None t) (\<lambda>token.
     bind_sum (field ''rp_id'' de_opt_string None t) (\<lambda>rp_id.
     bind_sum (field ''rp_origin'' de_opt_string None t) (\<lambda>rp_origin.
     bind_sum (field ''data_dir'' de_string default_data_dir t) (\<lambda>data_dir.
     Inr \<lparr>wr_bind = addr, wr_token = token, wr_rp_id = rp_id, wr_rp_origin = rp_origin,
          wr_data_dir = data_dir\<rparr>))))))"
| "de_web _ = Inl ''invalid type: expected struct WebRaw''"

fun de_docker :: "toml \<Rightarrow> string + docker_raw" where
  "de_docker (TTable t) =
     bind_sum (deny_unknown [''socket''] t) (\<lambda>_.
     bind_sum (field ''socket'' de_string default_docker_socket t) (\<lambda>socket.
     Inr \<lparr>dr_socket = socket\<rparr>))"
| "de_docker _ = Inl ''invalid type: expected struct DockerRaw''"

definition de_interval :: "parsers \<Rightarrow> toml \<Rightarrow> string + time" where
  "de_interval p v = bind_sum (de_string v) (humantime_parse p)"

definition de_raw :: "parsers \<Rightarrow> table \<Rightarrow> string + raw" where
  "de_raw p t =
     bind_sum (field ''interval'' (de_interval p) default_interval t) (\<lambda>interval.
     bind_sum (field ''web'' de_web default_web_raw t) (\<lambda>web.
     bind_sum (field ''docker'' de_docker default_docker_raw t) (\<lambda>docker.
     Inr \<lparr>rw_interval = interval, rw_web = web, rw_docker = docker\<rparr>)))"

section \<open>The configuration\<close>

datatype secret = Secret (expose: string)

definition debug_secret :: "secret \<Rightarrow> string" where
  "debug_secret s = ''Secret(***)''"

record config =
  cf_interval :: time
  cf_web_bind :: socket_addr
  cf_web_token :: "secret option"
  cf_rp_id :: "string option"
  cf_rp_origin :: "string option"
  cf_data_dir :: string
  cf_docker_socket :: string

definition MIN_TOKEN_LEN :: nat where
  "MIN_TOKEN_LEN = 16"

text \<open>
  What \<open>load\<close> asks of the process: its arguments after the program's name, \<open>$VITALS_TOKEN\<close> if it
  is set to UTF-8 text, and the files.
\<close>

record load_env =
  le_args :: "string list"
  le_token :: "string option"
  le_exists :: "string \<Rightarrow> bool"
  le_read :: "string \<Rightarrow> string option"

function config_path :: "string list \<Rightarrow> string option \<Rightarrow> string option" where
  "config_path [] path = path"
| "config_path (a # as) path =
     (if a = ''--config'' \<or> a = ''-c''
      then (case as of [] \<Rightarrow> None | v # rest \<Rightarrow> config_path rest (Some v))
      else config_path as path)"
  by pat_completeness auto
termination by (relation "measure (\<lambda>(as, _). length as)") auto

text \<open>The path of the file; a trailing \<open>-c\<close> without a value resets it.\<close>

definition used_path :: "load_env \<Rightarrow> string" where
  "used_path e =
     (case config_path (le_args e) None of Some f \<Rightarrow> f | None \<Rightarrow> ''/etc/vitals/config.toml'')"

definition read_raw :: "parsers \<Rightarrow> load_env \<Rightarrow> string \<Rightarrow> string + raw" where
  "read_raw p e path =
     (if le_exists e path
      then (case le_read e path of
              None \<Rightarrow> Inl ''io''
            | Some s \<Rightarrow> bind_sum (toml_parse p s) (de_raw p))
      else bind_sum (toml_parse p []) (de_raw p))"

text \<open>Trimmed, and unset if nothing is left.\<close>

definition nonblank :: "string option \<Rightarrow> string option" where
  "nonblank s =
     (case map_option trim s of Some (c # cs) \<Rightarrow> Some (c # cs) | _ \<Rightarrow> None)"

definition web_token :: "load_env \<Rightarrow> raw \<Rightarrow> string option" where
  "web_token e r =
     (let from_env = nonblank (le_token e); from_file = nonblank (wr_token (rw_web r))
      in case from_env of Some t \<Rightarrow> Some t | None \<Rightarrow> from_file)"

definition load :: "parsers \<Rightarrow> load_env \<Rightarrow> string + config" where
  "load p e =
     bind_sum (read_raw p e (used_path e)) (\<lambda>r.
       let token = web_token e r
       in if (case token of None \<Rightarrow> False | Some t \<Rightarrow> length t < MIN_TOKEN_LEN) then Inl ''web token too short''
          else case parse_socket_addr (wr_bind (rw_web r)) of
                 None \<Rightarrow> Inl ''invalid socket address''
               | Some addr \<Rightarrow>
                   Inr \<lparr>cf_interval = rw_interval r, cf_web_bind = addr,
                        cf_web_token = map_option Secret token,
                        cf_rp_id = wr_rp_id (rw_web r), cf_rp_origin = wr_rp_origin (rw_web r),
                        cf_data_dir = wr_data_dir (rw_web r), cf_docker_socket = dr_socket (rw_docker r)\<rparr>)"

lemma load_Inr_iff:
  "load p e = Inr cfg \<longleftrightarrow>
     (\<exists>r addr. read_raw p e (used_path e) = Inr r \<and> parse_socket_addr (wr_bind (rw_web r)) = Some addr
        \<and> (case web_token e r of None \<Rightarrow> True | Some t \<Rightarrow> MIN_TOKEN_LEN \<le> length t)
        \<and> cfg = \<lparr>cf_interval = rw_interval r, cf_web_bind = addr,
                 cf_web_token = map_option Secret (web_token e r),
                 cf_rp_id = wr_rp_id (rw_web r), cf_rp_origin = wr_rp_origin (rw_web r),
                 cf_data_dir = wr_data_dir (rw_web r), cf_docker_socket = dr_socket (rw_docker r)\<rparr>)"
  unfolding load_def bind_sum_Inr_iff Let_def
  by (intro iff_exI) (auto split: option.splits simp: not_less)

lemma nonblank_Some: "nonblank s = Some t \<Longrightarrow> t \<noteq> [] \<and> (\<exists>u. s = Some u \<and> t = trim u)"
  by (auto simp: nonblank_def split: option.splits list.splits)

section \<open>Properties\<close>


text \<open>
  The address of an accepted configuration is well formed: four octets or eight groups of sixteen
  bits and a port, each in its range, whatever text the file holds; so \<open>is_loopback\<close> looks at a real
  address, and it is one of \<open>127.0.0.0/8\<close> or \<open>::1\<close> exactly when it says so.
\<close>

theorem accepted_address:
  assumes "load p e = Inr cfg"
  shows "addr_ok (cf_web_bind cfg)
    \<and> (is_loopback (sa_ip (cf_web_bind cfg)) \<longleftrightarrow>
         (\<exists>b c d. sa_ip (cf_web_bind cfg) = V4 [127, b, c, d]) \<or> sa_ip (cf_web_bind cfg) = V6 [0, 0, 0, 0, 0, 0, 0, 1])"
proof -
  have ok: "addr_ok (cf_web_bind cfg)"
    using assms parse_ok unfolding load_Inr_iff by auto
  have "take 1 vs = [127] \<longleftrightarrow> (\<exists>b c d. vs = [127, b, c, d])" if "length vs = 4" for vs :: "int list"
    using that by (auto simp: length_Suc_conv eval_nat_numeral)
  with ok show ?thesis
    by (cases "sa_ip (cf_web_bind cfg)") (auto simp: addr_ok_def is_loopback_def)
qed

definition ex_parsers :: "table \<Rightarrow> parsers" where
  "ex_parsers t = \<lparr>toml_parse = (\<lambda>s. Inr (if s = [] then [] else t)), humantime_parse = (\<lambda>_. Inr (from_secs 15))\<rparr>"

definition ex_load_env :: "string option \<Rightarrow> load_env" where
  "ex_load_env tok = \<lparr>le_args = [''-c'', ''f''], le_token = tok, le_exists = (\<lambda>p. p = ''f''), le_read = (\<lambda>_. Some ''x'')\<rparr>"

definition ex_web :: table where
  "ex_web = [(''web'', TTable [(''token'', TString ''  0123456789abcdef ''), (''rp_id'', TString ''h'')]), (''alert'', TTable [])]"

lemma ex_load:
  "case load (ex_parsers ex_web) (ex_load_env (Some ''  '')) of
     Inr cfg \<Rightarrow> cf_web_token cfg = Some (Secret ''0123456789abcdef'') | Inl _ \<Rightarrow> False"
  by code_simp


theorem accepted_address_witness:
  "\<exists>cfg. load (ex_parsers ex_web) (ex_load_env (Some ''  '')) = Inr cfg \<and> addr_ok (cf_web_bind cfg)"
proof -
  obtain cfg where "load (ex_parsers ex_web) (ex_load_env (Some ''  '')) = Inr cfg"
    using ex_load by (auto split: sum.splits)
  with accepted_address [OF this] show ?thesis by blast
qed

definition unknown_key :: "string list \<Rightarrow> toml option \<Rightarrow> bool" where
  "unknown_key known section =
     (case section of Some (TTable t) \<Rightarrow> \<exists>k\<in>fst ` set t. k \<notin> set known | _ \<Rightarrow> False)"

text \<open>
  An unknown key inside \<open>[web]\<close> or \<open>[docker]\<close> is refused, whatever else the file holds; an
  unknown section or top-level key is ignored.
\<close>

theorem unknown_keys:
  "(unknown_key [''bind'', ''token'', ''rp_id'', ''rp_origin'', ''data_dir''] (map_of t ''web'')
      \<or> unknown_key [''socket''] (map_of t ''docker'') \<longrightarrow> (\<exists>e. de_raw p t = Inl e))
   \<and> de_raw p t = de_raw p (filter (\<lambda>(k, _). k \<in> {''interval'', ''web'', ''docker''}) t)"
proof -
  let ?t = "filter (\<lambda>(k, _). k \<in> {''interval'', ''web'', ''docker''}) t"
  have filtered: "map_of (filter (\<lambda>(k, _). k \<in> S) t) k = map_of t k" if "k \<in> S" for k :: string and S
    using that by (induction t) auto
  have keep: "map_of ?t ''interval'' = map_of t ''interval''" "map_of ?t ''web'' = map_of t ''web''"
    "map_of ?t ''docker'' = map_of t ''docker''"
    by (rule filtered, simp)+
  have deny: "deny_unknown known x = Inl ''unknown field''" if "\<exists>k\<in>fst ` set x. k \<notin> set known" for known and x :: table
    using that by (auto simp: deny_unknown_def list_all_iff)
  have web: "\<exists>e. field ''web'' de_web default_web_raw t = Inl e"
    if "unknown_key [''bind'', ''token'', ''rp_id'', ''rp_origin'', ''data_dir''] (map_of t ''web'')"
  proof -
    from that obtain x where "map_of t ''web'' = Some (TTable x)"
      "\<exists>k\<in>fst ` set x. k \<notin> set [''bind'', ''token'', ''rp_id'', ''rp_origin'', ''data_dir'']"
      by (auto simp: unknown_key_def simp del: set_simps split: option.splits toml.splits)
    with deny show ?thesis by (simp add: field_def bind_sum_def del: set_simps)
  qed
  have docker: "\<exists>e. field ''docker'' de_docker default_docker_raw t = Inl e"
    if "unknown_key [''socket''] (map_of t ''docker'')"
  proof -
    from that obtain x where "map_of t ''docker'' = Some (TTable x)" "\<exists>k\<in>fst ` set x. k \<notin> set [''socket'']"
      by (auto simp: unknown_key_def simp del: set_simps split: option.splits toml.splits)
    with deny show ?thesis by (simp add: field_def bind_sum_def del: set_simps)
  qed
  have "\<exists>e. de_raw p t = Inl e" if "(\<exists>e. field ''web'' de_web default_web_raw t = Inl e)
      \<or> (\<exists>e. field ''docker'' de_docker default_docker_raw t = Inl e)"
    using that by (auto simp: de_raw_def bind_sum_def split: sum.split)
  moreover have "de_raw p ?t = de_raw p t"
    unfolding de_raw_def field_def keep by (rule refl)
  ultimately show ?thesis using web docker by metis
qed

theorem unknown_keys_witness:
  "\<exists>e. de_raw (ex_parsers []) [(''web'', TTable [(''trust_proxy_auth'', TBoolean True)])] = Inl e"
proof -
  have "unknown_key [''bind'', ''token'', ''rp_id'', ''rp_origin'', ''data_dir'']
      (map_of [(''web'', TTable [(''trust_proxy_auth'', TBoolean True)])] ''web'')"
    by (simp add: unknown_key_def)
  with unknown_keys [of "[(''web'', TTable [(''trust_proxy_auth'', TBoolean True)])]" "ex_parsers []"]
  show ?thesis by blast
qed

end
