(* ===== verification/Web.thy ===== *)
theory Web
  imports Auth_Trace Store Collect Config
begin

text \<open>
  \<open>src/src/web.rs\<close>: the router, the handlers of the JSON API and of \<open>/healthz\<close>, the gate in front of
  the API and the response headers. A request is what the handlers see of it: method, path, the
  \<open>Authorization\<close> header, the cookies, and the results of the extractors of the package \<open>axum\<close>,
  whose rejections are part of the request.
\<close>

section \<open>State, requests, responses\<close>

record 'w app_state =
  ap_snapshot :: "snapshot option"
  ap_token :: "secret option"
  ap_auth :: "'w auth_state option"
  ap_store :: store

datatype http_method = GET | HEAD | POST | OtherMethod

record series_query =
  sq_metric :: string
  sq_from :: i64
  sq_to :: i64
  sq_res :: "i64 option"

record 'w request =
  rq_method :: http_method
  rq_path :: string
  rq_authorization :: "string option"
  rq_jar :: jar
  rq_code :: "string option option"
  rq_credential :: "status_code + 'w"
  rq_series :: "status_code + series_query"

datatype 'w body =
  EmptyBody
| Plain string
| Failure message
| Html page
| AuthJson bool bool
| Challenge 'w
| SnapshotJson "snapshot option"
| SeriesJson i64 series

record 'w response =
  rs_status :: status_code
  rs_headers :: "(string \<times> string) list"
  rs_cookies :: "jar_op list"
  rs_body :: "'w body"

definition response :: "status_code \<Rightarrow> 'w body \<Rightarrow> 'w response" where
  "response s b = \<lparr>rs_status = s, rs_headers = [], rs_cookies = [], rs_body = b\<rparr>"

section \<open>Health\<close>

text \<open>\<open>to_string\<close> of an unsigned integer.\<close>

function decimal :: "int \<Rightarrow> string" where
  "decimal n =
     (if n < 10 then [char_of (48 + n)] else decimal (n div 10) @ [char_of (48 + n mod 10)])"
  by pat_completeness auto
termination by (relation "measure nat") auto

declare decimal.simps [simp del]

definition newline :: string where
  "newline = [CHR 0x0A]"

text \<open>The clock is read once to compare and once for the message.\<close>

definition healthz :: "time \<Rightarrow> time \<Rightarrow> snapshot option \<Rightarrow> status_code \<times> string" where
  "healthz now1 now2 snapshot =
     (case snapshot of
        None \<Rightarrow> (SERVICE_UNAVAILABLE, ''starting: no snapshot yet'' @ newline)
      | Some s \<Rightarrow>
          if sn_stale_after_secs s < age_secs now1 s
          then (SERVICE_UNAVAILABLE,
                ''stale: last collection '' @ decimal (uint (age_secs now2 s)) @ ''s ago'' @ newline)
          else (case sn_docker_error s of
                  Some e \<Rightarrow> (SERVICE_UNAVAILABLE, ''degraded: docker unreachable ('' @ e @ '')'' @ newline)
                | None \<Rightarrow> (OK, ''ok'' @ newline)))"

section \<open>The JSON API\<close>

definition status :: "snapshot option \<Rightarrow> 'w body" where
  "status snapshot = SnapshotJson snapshot"

definition MAX_POINTS :: u64 where
  "MAX_POINTS = 20000"

text \<open>\<open>joined\<close> is false when the blocking task of the query did not return.\<close>

definition series_points ::
  "(nat \<Rightarrow> bool) \<Rightarrow> bool \<Rightarrow> series_query \<Rightarrow> store \<Rightarrow> status_code \<times> string + i64 \<times> series" where
  "series_points ok joined q s =
     (if sq_to q < sq_from q then Inl (BAD_REQUEST, ''to must be >= from'')
      else
        let secs = sat_sub_i64 (sq_to q) (sq_from q)
        in case (case sq_res q of
                   None \<Rightarrow> Some (pick_res secs)
                 | Some r \<Rightarrow> if is_valid_res r then Some r else None) of
             None \<Rightarrow> Inl (BAD_REQUEST, ''res must be one of 15, 300, 3600'')
           | Some res \<Rightarrow>
               if \<not> joined then Inl (INTERNAL_SERVER_ERROR, ''query failed'')
               else case fst (series_of ok (sq_metric q) (sq_from q) (sq_to q) res MAX_POINTS s) of
                      Ok y \<Rightarrow> Inr (res, y)
                    | _ \<Rightarrow> Inl (INTERNAL_SERVER_ERROR, ''query failed''))"

section \<open>The gate of the API\<close>

text \<open>\<open>HeaderValue::to_str\<close>: visible ASCII and tab only.\<close>

definition visible_ascii :: "string \<Rightarrow> bool" where
  "visible_ascii s \<longleftrightarrow>
     list_all (\<lambda>c. let b = (of_char c :: int) in b = 9 \<or> 32 \<le> b \<and> b < 127) s"

definition to_str :: "string \<Rightarrow> string option" where
  "to_str s = (if visible_ascii s then Some s else None)"

definition bearer_ok :: "secret \<Rightarrow> string option \<Rightarrow> bool" where
  "bearer_ok expected header =
     (case Option.bind (Option.bind header to_str) (strip_prefix ''Bearer '') of
        None \<Rightarrow> False
      | Some got \<Rightarrow> ct_eq (as_bytes got) (as_bytes (expose expected)))"

definition require_api_auth ::
  "time \<Rightarrow> secret option \<Rightarrow> string option \<Rightarrow> jar \<Rightarrow> ('w auth_state option, unit, bool) prog" where
  "require_api_auth now token header jar auth =
     (if (case token of None \<Rightarrow> False | Some expected \<Rightarrow> bearer_ok expected header) then (Ok True, auth)
      else case auth of
             Some a \<Rightarrow> (case session_valid now jar a of (r, a') \<Rightarrow> (r, Some a'))
           | None \<Rightarrow> (Ok (token = None), None))"

section \<open>Response headers\<close>

definition quoted :: "string \<Rightarrow> string" where
  "quoted s = CHR 0x27 # s @ [CHR 0x27]"

definition CSP :: string where
  "CSP =
     ''default-src '' @ quoted ''none''
     @ ''; script-src '' @ quoted ''unsafe-inline''
     @ ''; style-src '' @ quoted ''unsafe-inline''
     @ ''; img-src '' @ quoted ''self'' @ '' data:''
     @ ''; connect-src '' @ quoted ''self''
     @ ''; base-uri '' @ quoted ''none''
     @ ''; form-action '' @ quoted ''self''
     @ ''; frame-ancestors '' @ quoted ''none''"

definition security_headers :: "'w response \<Rightarrow> 'w response" where
  "security_headers r =
     r\<lparr>rs_headers :=
         hinsert ''vary'' ''Cookie''
           (hinsert ''cache-control'' ''no-store, private''
             (hinsert ''referrer-policy'' ''no-referrer''
               (hinsert ''x-frame-options'' ''DENY''
                 (hinsert ''x-content-type-options'' ''nosniff''
                   (hinsert ''content-security-policy'' CSP (rs_headers r))))))\<rparr>"

section \<open>The router\<close>

datatype endpoint =
  Index | Healthz | LogoutPage | AuthStatus | RegisterBegin | RegisterEnd | LoginBegin | LoginEnd
| Status | Series

definition routes :: "(string \<times> http_method \<times> endpoint) list" where
  "routes =
     [(''/'', GET, Index),
      (''/healthz'', GET, Healthz),
      (''/logout'', POST, LogoutPage),
      (''/auth/status'', GET, AuthStatus),
      (''/auth/register/start'', POST, RegisterBegin),
      (''/auth/register/finish'', POST, RegisterEnd),
      (''/auth/login/start'', POST, LoginBegin),
      (''/auth/login/finish'', POST, LoginEnd),
      (''/api/status'', GET, Status),
      (''/api/series'', GET, Series)]"

text \<open>\<open>get(h)\<close> serves \<open>HEAD\<close> as well.\<close>

definition route :: "http_method \<Rightarrow> string \<Rightarrow> status_code + endpoint" where
  "route m p =
     (case map_of routes p of
        None \<Rightarrow> Inl NOT_FOUND
      | Some (m', e) \<Rightarrow> if m = m' \<or> m = HEAD \<and> m' = GET then Inr e else Inl METHOD_NOT_ALLOWED)"

definition api_endpoint :: "endpoint \<Rightarrow> bool" where
  "api_endpoint e \<longleftrightarrow> e = Status \<or> e = Series"

definition api_path :: "string \<Rightarrow> bool" where
  "api_path p = (case map_of routes p of None \<Rightarrow> False | Some (_, e) \<Rightarrow> api_endpoint e)"

text \<open>A panic of the handler is no response at all.\<close>

definition reply ::
  "(http_error, 'a) outcome \<Rightarrow> ('a \<Rightarrow> 'w response) \<Rightarrow> 'w response option" where
  "reply r f =
     (case r of
        Ok x \<Rightarrow> Some (f x)
      | Err (s, m) \<Rightarrow> Some (response s (Failure m))
      | Panic \<Rightarrow> None)"

definition run_auth ::
  "('w auth_state option, http_error, 'a) prog \<Rightarrow> ('a \<Rightarrow> 'w response)
     \<Rightarrow> 'w app_state \<Rightarrow> 'w response option \<times> 'w app_state" where
  "run_auth h f st = (case h (ap_auth st) of (r, a) \<Rightarrow> (reply r f, st\<lparr>ap_auth := a\<rparr>))"

text \<open>What the outside decides for one request: \<open>env\<close>, the SQL statements, the blocking task.\<close>

record world =
  wd_env :: env
  wd_sql :: "nat \<Rightarrow> bool"
  wd_joined :: bool

definition api_response ::
  "world \<Rightarrow> 'w request \<Rightarrow> endpoint \<Rightarrow> 'w app_state \<Rightarrow> 'w response" where
  "api_response x rq e st =
     (if e = Status then response OK (status (ap_snapshot st))
      else case rq_series rq of
             Inl s \<Rightarrow> response s EmptyBody
           | Inr q \<Rightarrow>
               (case series_points (wd_sql x) (wd_joined x) q (ap_store st) of
                  Inl (s, m) \<Rightarrow> response s (Plain m)
                | Inr (res, y) \<Rightarrow> response OK (SeriesJson res y)))"

text \<open>
  \<open>route_layer\<close> puts the gate in front of the two routes, whatever the method: the reply is \<open>k\<close> of
  the state after the check, or an empty 401.
\<close>

definition gated :: "world \<Rightarrow> 'w request \<Rightarrow> ('w app_state \<Rightarrow> 'w response) \<Rightarrow> 'w app_state \<Rightarrow> 'w response option \<times> 'w app_state" where
  "gated x rq k st =
     (case require_api_auth (clk (wd_env x) 0) (ap_token st) (rq_authorization rq) (rq_jar rq) (ap_auth st) of
        (Ok True, a) \<Rightarrow> (Some (k st), st\<lparr>ap_auth := a\<rparr>)
      | (Ok False, a) \<Rightarrow> (Some (response UNAUTHORIZED EmptyBody), st\<lparr>ap_auth := a\<rparr>)
      | (_, a) \<Rightarrow> (None, st\<lparr>ap_auth := a\<rparr>))"

definition endpoint_response ::
  "'w webauthn \<Rightarrow> 'w codec \<Rightarrow> world \<Rightarrow> 'w request \<Rightarrow> endpoint \<Rightarrow> 'w app_state
     \<Rightarrow> 'w response option \<times> 'w app_state" where
  "endpoint_response w c x rq e st =
     (let env = wd_env x; now = clk env 0; jar = rq_jar rq
      in case e of
           Index \<Rightarrow> run_auth (index now jar) (\<lambda>p. response OK (Html p)) st
         | Healthz \<Rightarrow>
             (case healthz now (clk env 1) (ap_snapshot st) of (s, t) \<Rightarrow> (Some (response s (Plain t)), st))
         | LogoutPage \<Rightarrow>
             run_auth (logout jar) (\<lambda>(ops, s, _). (response s EmptyBody)\<lparr>rs_cookies := ops\<rparr>) st
         | AuthStatus \<Rightarrow> run_auth (auth_status now jar) (\<lambda>(r, s). response OK (AuthJson r s)) st
         | RegisterBegin \<Rightarrow>
             run_auth (on_auth (register_start w env jar (rq_code rq)))
               (\<lambda>(ops, ch). (response OK (Challenge ch))\<lparr>rs_cookies := ops\<rparr>) st
         | RegisterEnd \<Rightarrow>
             (case rq_credential rq of
                Inl s \<Rightarrow> (Some (response s EmptyBody), st)
              | Inr cred \<Rightarrow>
                  run_auth (on_auth (register_finish w c env jar cred))
                    (\<lambda>(ops, s). (response s EmptyBody)\<lparr>rs_cookies := ops\<rparr>) st)
         | LoginBegin \<Rightarrow>
             run_auth (on_auth (login_start w env))
               (\<lambda>(ops, ch). (response OK (Challenge ch))\<lparr>rs_cookies := ops\<rparr>) st
         | LoginEnd \<Rightarrow>
             (case rq_credential rq of
                Inl s \<Rightarrow> (Some (response s EmptyBody), st)
              | Inr cred \<Rightarrow>
                  run_auth (on_auth (login_finish w c env jar cred))
                    (\<lambda>(ops, s). (response s EmptyBody)\<lparr>rs_cookies := ops\<rparr>) st)
         | _ \<Rightarrow> gated x rq (api_response x rq e) st)"

definition serve ::
  "'w webauthn \<Rightarrow> 'w codec \<Rightarrow> world \<Rightarrow> 'w request \<Rightarrow> 'w app_state
     \<Rightarrow> 'w response option \<times> 'w app_state" where
  "serve w c x rq st =
     (case (case route (rq_method rq) (rq_path rq) of
              Inl s \<Rightarrow>
                if api_path (rq_path rq) then gated x rq (\<lambda>_. response s EmptyBody) st
                else (Some (response s EmptyBody), st)
            | Inr e \<Rightarrow> endpoint_response w c x rq e st) of
        (r, st') \<Rightarrow> (map_option security_headers r, st'))"

end
