(* ===== verification/Service.thy ===== *)
theory Service
  imports Web
begin

text \<open>
  \<open>src/src/main.rs\<close>: start-up with its refusals, one turn of the three background loops (collector,
  compactor, sweeper) and the points a snapshot gives to the store. The clients of Docker and the
  listening socket are the outside.
\<close>

section \<open>Start-up\<close>

definition connect_docker ::
  "(string \<Rightarrow> string + unit) \<Rightarrow> (string \<Rightarrow> string + unit) \<Rightarrow> string \<Rightarrow> string + unit" where
  "connect_docker with_http with_unix endpoint =
     (if starts_with ''tcp://'' endpoint \<or> starts_with ''http://'' endpoint
      then with_http endpoint else with_unix endpoint)"

text \<open>What start-up asks of the outside.\<close>

record 'w boot =
  bt_parsers :: parsers
  bt_load :: load_env
  bt_data_dir_ok :: bool
  bt_platform :: "'w platform"
  bt_codec :: "'w codec"
  bt_env :: boot_env
  bt_fs :: fs
  bt_sql :: "nat \<Rightarrow> bool"
  bt_db :: db
  bt_listen :: bool

definition setup_auth :: "'w boot \<Rightarrow> config \<Rightarrow> string + ('w webauthn \<times> 'w auth_state) option" where
  "setup_auth b cfg =
     (case (cf_rp_id cfg, cf_rp_origin cfg) of
        (Some rp_id, Some origin) \<Rightarrow>
          bind_sum (auth_new (bt_platform b) (bt_codec b) (bt_env b) (bt_fs b) rp_id origin (cf_data_dir cfg))
            (\<lambda>a. Inr (Some a))
      | (None, None) \<Rightarrow> Inr None
      | _ \<Rightarrow> Inl ''web.rp_id and web.rp_origin must be set together'')"

definition check_exposure :: "config \<Rightarrow> bool \<Rightarrow> string + unit" where
  "check_exposure cfg has_auth =
     (if \<not> has_auth \<and> cf_web_token cfg = None
      then if is_loopback (sa_ip (cf_web_bind cfg)) then Inr () else Inl ''refusing to serve unauthenticated''
      else Inr ())"

definition app_of :: "config \<Rightarrow> ('w webauthn \<times> 'w auth_state) option \<Rightarrow> store \<Rightarrow> 'w app_state" where
  "app_of cfg auth s =
     \<lparr>ap_snapshot = None, ap_token = cf_web_token cfg, ap_auth = map_option snd auth, ap_store = s\<rparr>"

definition startup :: "'w boot \<Rightarrow> string + config \<times> 'w webauthn option \<times> 'w app_state" where
  "startup b =
     bind_sum (load (bt_parsers b) (bt_load b)) (\<lambda>cfg.
     bind_sum (if bt_data_dir_ok b then Inr () else Inl ''creating data_dir'') (\<lambda>_.
     bind_sum (setup_auth b cfg) (\<lambda>auth.
     bind_sum (check_exposure cfg (auth \<noteq> None)) (\<lambda>_.
     bind_sum (open_store (bt_sql b) (bt_db b)) (\<lambda>s.
     bind_sum (if bt_listen b then Inr () else Inl ''bind'') (\<lambda>_.
     Inr (cfg, map_option fst auth, app_of cfg auth s)))))))"

section \<open>The collector\<close>

text \<open>\<open>tokio::time::interval\<close> panics on a period of zero.\<close>

definition interval :: "time \<Rightarrow> (string, unit) outcome" where
  "interval period = (if period = 0 then Panic else Ok ())"

text \<open>\<open>Duration::mul_f32\<close>, with its rounding to whole nanoseconds.\<close>

definition as_secs_f32 :: "time \<Rightarrow> rat" where
  "as_secs_f32 d =
     fl 24 (fl 24 (of_int (d div 10 ^ 9)) + fl 24 (fl 24 (of_int (d mod 10 ^ 9)) / fl 24 (10 ^ 9)))"

definition mul_f32 :: "time \<Rightarrow> rat \<Rightarrow> time" where
  "mul_f32 d x = round_even (fl 24 (fl 24 x * as_secs_f32 d) * 10 ^ 9)"

definition budget :: "time \<Rightarrow> time" where
  "budget tick = max (mul_f32 tick (6 / 10)) (from_secs 2)"

definition stale_after :: "time \<Rightarrow> u64" where
  "stale_after tick = max (sat_mul_u64 (word_of_int (tick div 10 ^ 9)) 3) 30"

lemma unat_stale_after:
  "unat (stale_after tick) = max 30 (min (3 * unat (word_of_int (tick div 10 ^ 9) :: u64)) (2 ^ 64 - 1))"
proof -
  let ?w = "word_of_int (tick div 10 ^ 9) :: u64"
  have "unat (sat_mul_u64 ?w 3) = min (3 * unat ?w) (2 ^ 64 - 1)"
  proof (cases "unat ?w * 3 < 2 ^ 64")
    case True
    then have "unat (?w * 3) = unat ?w * unat (3 :: u64)" by (subst unat_mult_lem [symmetric]) simp
    with True show ?thesis by (simp add: sat_mul_u64_def)
  next
    case False
    moreover have "unat (- 1 :: u64) = 2 ^ 64 - 1" by (simp add: unsigned_minus_1_eq_mask mask_eq_exp_minus_1)
    ultimately show ?thesis by (simp add: sat_mul_u64_def)
  qed
  moreover have "unat (max a b) = max (unat b) (unat a)" for a b :: u64
    by (simp add: max_def word_le_nat_alt)
  ultimately show ?thesis by (simp add: stale_after_def del: max.commute)
qed

text \<open>The points of a snapshot; the separator \<open>U+0001\<close> keeps a container's name apart.\<close>

definition container_point :: "string \<Rightarrow> string \<Rightarrow> string" where
  "container_point name kind = ''c'' @ [CHR 0x01] @ name @ [CHR 0x01] @ kind"

definition container_points :: "container \<Rightarrow> points" where
  "container_points c =
     (case cn_cpu_pct c of None \<Rightarrow> [] | Some v \<Rightarrow> [(container_point (cn_name c) ''cpu'', v)])
     @ (case cn_mem_mb c of None \<Rightarrow> [] | Some v \<Rightarrow> [(container_point (cn_name c) ''mem'', Finite (u64_as_f64 v))])"

definition sample_points :: "snapshot \<Rightarrow> points" where
  "sample_points s =
     [(''host.cpu'', h_cpu_pct (sn_host s)),
      (''host.mem'', h_mem_used_pct (sn_host s)),
      (''host.disk'', h_disk_used_pct (sn_host s)),
      (''host.load'', h_load1 (sn_host s)),
      (''host.swap'', Finite (u64_as_f64 (h_swap_used_mb (sn_host s))))]
     @ concat (map container_points (sn_containers s))"

record collector =
  cl_docker :: bool
  cl_warned :: bool
  cl_prev :: "cpu_sample hmap"

definition new_collector :: collector where
  "new_collector = \<lparr>cl_docker = False, cl_warned = False, cl_prev = []\<rparr>"

text \<open>The outside of one turn.\<close>

record turn =
  tn_connect :: "string + unit"
  tn_now :: time
  tn_host :: sysinfo
  tn_docker :: docker

text \<open>The connection, made again when it was dropped; a warning is logged once per outage.\<close>

definition reconnect :: "turn \<Rightarrow> collector \<Rightarrow> collector" where
  "reconnect t c =
     (if cl_docker c then c
      else case tn_connect t of
             Inr _ \<Rightarrow> c\<lparr>cl_docker := True, cl_warned := False\<rparr>
           | Inl _ \<Rightarrow> c\<lparr>cl_warned := True\<rparr>)"

definition take_snapshot :: "time \<Rightarrow> turn \<Rightarrow> collector \<Rightarrow> snapshot \<times> collector" where
  "take_snapshot tick t c0 =
     (let c = reconnect t c0
      in case collect_snapshot (tn_now t) (tn_host t) (if cl_docker c then Some (tn_docker t) else None) (cl_prev c) of
           (snap, prev) \<Rightarrow>
             (snap\<lparr>sn_stale_after_secs := stale_after tick\<rparr>,
              c\<lparr>cl_prev := prev, cl_docker := cl_docker c \<and> sn_docker_error snap = None\<rparr>))"

text \<open>The snapshot is published before it is written to the store.\<close>

definition publish :: "snapshot \<Rightarrow> 'w app_state \<Rightarrow> 'w app_state" where
  "publish snap st = st\<lparr>ap_snapshot := Some snap\<rparr>"

definition record_points ::
  "(nat \<Rightarrow> bool) \<Rightarrow> (i64 list \<Rightarrow> i64) \<Rightarrow> snapshot \<Rightarrow> 'w app_state \<Rightarrow> 'w app_state" where
  "record_points ok rowid snap st =
     st\<lparr>ap_store := write_samples ok rowid (sn_ts snap) (sample_points snap) (ap_store st)\<rparr>"

definition collector_turn ::
  "time \<Rightarrow> (nat \<Rightarrow> bool) \<Rightarrow> (i64 list \<Rightarrow> i64) \<Rightarrow> turn \<Rightarrow> collector \<times> 'w app_state \<Rightarrow> collector \<times> 'w app_state" where
  "collector_turn tick ok rowid t s =
     (case take_snapshot tick t (fst s) of
        (snap, c) \<Rightarrow> (c, record_points ok rowid snap (publish snap (snd s))))"

section \<open>The compactor and the sweeper\<close>

definition compactor_turn :: "time \<Rightarrow> (nat \<Rightarrow> bool) \<Rightarrow> 'w app_state \<Rightarrow> 'w app_state" where
  "compactor_turn now ok st =
     st\<lparr>ap_store := compact_store ok (as_i64 (now_secs now)) (ap_store st)\<rparr>"

definition sweeper_turn :: "time \<Rightarrow> 'w app_state \<Rightarrow> 'w app_state" where
  "sweeper_turn now st = st\<lparr>ap_auth := map_option (sweep now) (ap_auth st)\<rparr>"

end
