(* ===== verification/Docker_Deadline.thy ===== *)
theory Docker_Deadline
  imports Docker_Time Collect_Props Service
begin

text \<open>
  One collection against its deadlines: the timeout of the list and the budget that \<open>main.rs\<close> gives
  it. The timed daemon is one of the daemons of the model of a tick.
\<close>

section \<open>The collection with its times\<close>

definition job_times :: "timed_docker \<Rightarrow> duration list" where
  "job_times d =
     (case fst (timeout PER_CALL_TIMEOUT (td_list d)) of Done list \<Rightarrow> map (job_time d) list | _ \<Rightarrow> [])"

text \<open>What the collection sees of a daemon whose containers are queried as in the final state \<open>s\<close>.\<close>

definition seen :: "timed_docker \<Rightarrow> duration \<Rightarrow> inflight \<Rightarrow> docker" where
  "seen d limit s =
     \<lparr>dk_list = fst (timeout PER_CALL_TIMEOUT (td_list d)),
      dk_inspect = (\<lambda>key. fst (timeout PER_CALL_TIMEOUT (td_inspect d key))),
      dk_stats = (\<lambda>key. fst (timeout PER_CALL_TIMEOUT (td_stats d key))),
      dk_in_budget = (bf_clock s \<le> limit), dk_order = bf_results s\<rparr>"

definition collect_timed ::
  "timed_docker \<Rightarrow> duration \<Rightarrow> inflight \<Rightarrow> cpu_sample hmap
     \<Rightarrow> ((string + container list) \<times> cpu_sample hmap) \<times> duration" where
  "collect_timed d limit s prev =
     (docker_collect (seen d limit s) prev,
      snd (timeout PER_CALL_TIMEOUT (td_list d)) + min (bf_clock s) limit)"

lemma drained_results:
  assumes "buffer_reachable durs s" and "drained durs s"
  shows "mset (bf_results s) = mset [0..<length durs]"
  using buffer.inv_reachable [OF assms(1)] assms(2) by (simp add: buffer_inv_def drained_def)

lemma drained_late:
  assumes "buffer_reachable durs s" and "drained durs s" and "d \<in> set durs"
  shows "d \<le> bf_clock s"
proof -
  obtain j where "j < length durs" "durs ! j = d" using assms(3) by (auto simp: in_set_conv_nth)
  moreover from this have "j \<in> set (bf_results s)" using mset_eq_setD [OF drained_results [OF assms(1,2)]] by simp
  ultimately show ?thesis using buffer.inv_reachable [OF assms(1)] by (auto simp: buffer_inv_def)
qed

lemma drained_soon:
  assumes "buffer_reachable durs s" and "drained durs s" and "\<forall>d\<in>set durs. d \<le> D"
  shows "bf_clock s \<le> (length durs + 15) div 16 * D"
  using pace.inv_reachable [OF assms(1)] assms(2,3) by (simp add: paced_def drained_def MAX_INFLIGHT_def)

lemma seen_ok:
  assumes "buffer_reachable (job_times d) s" and "drained (job_times d) s"
  shows "docker_ok (seen d limit s)"
  using drained_results [OF assms] by (auto simp: docker_ok_def seen_def job_times_def)

lemma job_times_limit: "\<forall>t\<in>set (job_times d). t \<le> 2 * PER_CALL_TIMEOUT"
  by (auto simp: job_times_def job_time_limit split: call.split)

section \<open>The budget\<close>

text \<open>Six tenths of the tick, up to the rounding of \<open>f32\<close> and the floor of two seconds.\<close>

lemma fl24_near: "0 \<le> x \<Longrightarrow> fl 24 x \<le> x * 10000001 / 10000000 \<and> x * 9999999 / 10000000 \<le> fl 24 x \<and> 0 \<le> fl 24 x"
  using fl_near [of x 24] fl_nonneg [of x 24] unfolding abs_le_iff by simp

lemma billion: "fl 24 (10 ^ 9) = 10 ^ 9" and six_tenths: "fl 24 (6 / 10) = 10066330 / 2 ^ 24"
  by code_simp+

lemma as_secs_near:
  assumes "0 \<le> d"
  shows "as_secs_f32 d * 10 ^ 9 \<le> of_int d * 1000001 / 1000000 \<and> of_int d * 999999 / 1000000 \<le> as_secs_f32 d * 10 ^ 9"
proof -
  let ?s = "of_int (d div 10 ^ 9) :: rat" and ?n = "of_int (d mod 10 ^ 9) :: rat"
  have nonneg: "0 \<le> ?s" "0 \<le> ?n" using assms by (simp_all add: pos_imp_zdiv_nonneg_iff)
  have "of_int d = (of_int (d div 10 ^ 9 * 10 ^ 9 + d mod 10 ^ 9) :: rat)" by (simp only: div_mult_mod_eq)
  also have "\<dots> = ?s * 10 ^ 9 + ?n" by (simp only: of_int_add of_int_mult of_int_power of_int_numeral)
  finally have d: "of_int d = ?s * 10 ^ 9 + ?n" .
  let ?a = "fl 24 ?s" and ?b = "fl 24 (fl 24 ?n / 10 ^ 9)"
  have a: "?a \<le> ?s * 10000001 / 10000000" "?s * 9999999 / 10000000 \<le> ?a" "0 \<le> ?a"
    using fl24_near [OF nonneg(1)] by auto
  have n: "fl 24 ?n \<le> ?n * 10000001 / 10000000" "?n * 9999999 / 10000000 \<le> fl 24 ?n" "0 \<le> fl 24 ?n"
    using fl24_near [OF nonneg(2)] by auto
  have b: "?b * 10 ^ 9 \<le> fl 24 ?n * 10000001 / 10000000" "fl 24 ?n * 9999999 / 10000000 \<le> ?b * 10 ^ 9" "0 \<le> ?b"
    using fl24_near [of "fl 24 ?n / 10 ^ 9"] n(3) by auto
  have c: "fl 24 (?a + ?b) \<le> (?a + ?b) * 10000001 / 10000000" "(?a + ?b) * 9999999 / 10000000 \<le> fl 24 (?a + ?b)"
    using fl24_near [of "?a + ?b"] a(3) b(3) by auto
  have "as_secs_f32 d = fl 24 (?a + ?b)" by (simp add: as_secs_f32_def billion [simplified])
  then show ?thesis unfolding d using a b n nonneg c by simp
qed

lemma budget_near:
  assumes "0 \<le> tick"
  shows "budget tick \<le> max (from_secs 2) (61 * tick div 100)" and "59 * tick \<le> 100 * budget tick"
proof -
  let ?x = "fl 24 (6 / 10) * as_secs_f32 tick"
  note secs = as_secs_near [OF assms]
  have t: "0 \<le> (of_int tick :: rat)" using assms by simp
  have "0 \<le> as_secs_f32 tick * 10 ^ 9" using secs t by simp
  then have "0 \<le> as_secs_f32 tick" by simp
  then have x: "fl 24 ?x \<le> ?x * 10000001 / 10000000" "?x * 9999999 / 10000000 \<le> fl 24 ?x"
    using fl24_near [of ?x] by (auto simp: six_tenths [simplified])
  let ?y = "fl 24 ?x * 10 ^ 9"
  have y: "?y \<le> of_int tick * 601 / 1000" "of_int tick * 599 / 1000 \<le> ?y"
    using x secs t unfolding six_tenths by simp_all
  have "of_int (mul_f32 tick (6 / 10)) \<le> ?y + 1 / 2" "?y - 1 / 2 \<le> of_int (mul_f32 tick (6 / 10))"
    using round_even_near [of ?y] unfolding mul_f32_def abs_le_iff by linarith+
  with y have "(of_int (2000 * mul_f32 tick (6 / 10)) :: rat) \<le> of_int (1202 * tick + 1000)"
    "(of_int (1198 * tick - 1000) :: rat) \<le> of_int (2000 * mul_f32 tick (6 / 10))" by simp_all
  then have m: "2000 * mul_f32 tick (6 / 10) \<le> 1202 * tick + 1000" "1198 * tick - 1000 \<le> 2000 * mul_f32 tick (6 / 10)"
    by (simp_all only: of_int_le_iff)
  then show "budget tick \<le> max (from_secs 2) (61 * tick div 100)"
    by (cases "tick < 1000") (auto simp: budget_def from_secs_def)
  show "59 * tick \<le> 100 * budget tick"
    using m by (cases "tick < 1000") (auto simp: budget_def from_secs_def)
qed

text \<open>
  Ten whole seconds of the tick give at least six of the budget, without any rounding: the factor is
  rounded up, and whole numbers of seconds below \<open>2 ^ 24\<close> are exact.
\<close>

lemma budget_whole:
  assumes "0 \<le> n" and "10 * n < 2 ^ 24" and "from_secs (10 * n) \<le> tick"
  shows "from_secs (6 * n) \<le> budget tick"
proof -
  have "10 * n \<le> tick div 10 ^ 9"
    using zdiv_mono1 [OF assms(3), of "10 ^ 9"] by (simp add: from_secs_def)
  then have "of_int (10 * n) \<le> fl 24 (of_int (tick div 10 ^ 9))"
    using assms(1,2) by (intro fl_ge_int) (simp_all add: order_trans)
  moreover have "0 \<le> fl 24 (fl 24 (of_int (tick mod 10 ^ 9)) / fl 24 (10 ^ 9))"
    unfolding billion by (intro fl_nonneg divide_nonneg_nonneg) simp_all
  ultimately have "of_int (10 * n) \<le> as_secs_f32 tick"
    unfolding as_secs_f32_def using assms(1,2) by (intro fl_ge_int) (linarith | simp)+
  then have "of_int (6 * n) \<le> fl 24 (6 / 10) * as_secs_f32 tick"
    using assms(1) unfolding six_tenths by simp
  then have "of_int (6 * n) \<le> fl 24 (fl 24 (6 / 10) * as_secs_f32 tick)"
    using assms(1,2) by (intro fl_ge_int) simp_all
  then have "of_int (6 * n * 10 ^ 9) \<le> fl 24 (fl 24 (6 / 10) * as_secs_f32 tick) * 10 ^ 9"
    by simp
  from round_even_mono [OF this] show ?thesis
    by (simp only: round_even_of_int mul_f32_def [symmetric]) (simp add: budget_def from_secs_def)
qed

section \<open>Deadlines\<close>

lemma budget_nonneg: "0 \<le> budget tick"
  by (simp add: budget_def from_secs_def)

lemma collection_time:
  "int (snd (collect_timed d (nat (budget tick)) s prev)) \<le> from_secs 3 + budget tick"
proof -
  have "min (bf_clock s) (nat (budget tick)) \<le> nat (budget tick)" by simp
  then have "int (snd (timeout PER_CALL_TIMEOUT (td_list d)) + min (bf_clock s) (nat (budget tick))) \<le> int PER_CALL_TIMEOUT + budget tick"
    using timeout_limit [of PER_CALL_TIMEOUT "td_list d"] budget_nonneg [of tick] by linarith
  then show ?thesis by (simp add: collect_timed_def PER_CALL_TIMEOUT_def from_secs_def del: of_nat_add of_nat_min)
qed

text \<open>
  C29. The Docker part of a tick ends, whatever the daemon does: after at most three seconds for the
  list and the budget for the containers, which is less than the tick when that is eight seconds
  or more. What it yields is a collection of the model: its results come in an order of the listed
  containers.
\<close>

theorem collection_meets_deadline:
  assumes "0 \<le> tick" and "buffer_reachable (job_times d) s" and "drained (job_times d) s"
  shows "case collect_timed d (nat (budget tick)) s prev of
    (result, elapsed) \<Rightarrow>
      result = docker_collect (seen d (nat (budget tick)) s) prev
      \<and> docker_ok (seen d (nat (budget tick)) s)
      \<and> int elapsed \<le> from_secs 3 + budget tick
      \<and> (from_secs 8 \<le> tick \<longrightarrow> int elapsed < tick)"
proof -
  have "int (snd (collect_timed d (nat (budget tick)) s prev)) < tick" if "from_secs 8 \<le> tick"
    using collection_time [of d tick s prev] that budget_near(1) [OF assms(1)] by (auto simp: from_secs_def)
  then show ?thesis
    using seen_ok [OF assms(2,3)] collection_time [of d tick s prev]
    by (simp add: collect_timed_def del: of_nat_add of_nat_min)
qed

text \<open>
  C31. Sick containers cost only their own figures as long as their number fits the budget: when
  six seconds for every sixteen containers are within six tenths of the tick, that is, ten seconds of
  the tick for every sixteen, a list that was answered in time always gives a complete collection,
  however many of its containers answer nothing. The bound on the number, \<open>2 ^ 24\<close>, keeps the whole
  seconds exact in \<open>f32\<close>.
\<close>

theorem sick_containers_fit_budget:
  assumes "buffer_reachable (job_times d) s" and "drained (job_times d) s"
    and "fst (timeout PER_CALL_TIMEOUT (td_list d)) = Done list"
    and "from_secs (10 * int ((length list + 15) div 16)) \<le> tick" and "length list \<le> 2 ^ 24"
  shows "\<exists>out prev'. fst (collect_timed d (nat (budget tick)) s prev) = (Inr out, prev')
    \<and> complete_tick (seen d (nat (budget tick)) s) prev list out prev'"
proof -
  let ?n = "int ((length list + 15) div 16)"
  have "length (job_times d) = length list" using assms(3) by (simp add: job_times_def)
  with drained_soon [OF assms(1,2) job_times_limit]
  have "bf_clock s \<le> (length list + 15) div 16 * (2 * PER_CALL_TIMEOUT)" by simp
  then have "int (bf_clock s) \<le> from_secs (6 * ?n)"
    by (simp add: PER_CALL_TIMEOUT_def from_secs_def flip: of_nat_mult)
  also have "\<dots> \<le> budget tick" using assms(4,5) by (intro budget_whole) simp_all
  finally have "bf_clock s \<le> nat (budget tick)" by linarith
  with collected [OF seen_ok [OF assms(1,2)], of "nat (budget tick)" list prev] assms(3)
  show ?thesis by (simp add: seen_def collect_timed_def)
qed

text \<open>
  C32. On a tick of up to 9.8 seconds a single running container that answers neither call is
  enough to lose the collection: the two timeouts are longer than the budget, so every
  container is missing from the snapshot and the health check fails for as long as that one hangs.
  (Just below ten seconds \<open>f32\<close> rounds the budget up to the six seconds of the two timeouts.)
\<close>

theorem one_hanging_container_blinds:
  assumes "0 \<le> tick" and "tick \<le> 98 * 10 ^ 8"
    and "buffer_reachable (job_times d) s" and "drained (job_times d) s"
    and "fst (timeout PER_CALL_TIMEOUT (td_list d)) = Done list"
    and "m \<in> set list" and "text_or_empty (sm_state m) = ''running''"
    and "an_after (td_inspect d (container_key m)) = None" and "an_after (td_stats d (container_key m)) = None"
    and "cl_docker c" and "tn_docker t = seen d (nat (budget tick)) s"
  shows "fst (collect_timed d (nat (budget tick)) s prev) = (Inl ''container collection exceeded its budget'', prev)
    \<and> (case take_snapshot tick t c of (snap, c') \<Rightarrow>
        sn_containers snap = [] \<and> cl_prev c' = cl_prev c
        \<and> fst (healthz now1 now2 (Some snap)) = SERVICE_UNAVAILABLE)"
proof -
  have "job_time d m \<in> set (job_times d)" using assms(5,6) by (simp add: job_times_def)
  moreover have "job_time d m = 2 * PER_CALL_TIMEOUT"
    using assms(7-9) by (simp add: job_time_def timeout_def Let_def)
  ultimately have "2 * PER_CALL_TIMEOUT \<le> bf_clock s" using drained_late [OF assms(3,4)] by metis
  moreover have "budget tick < 2 * int PER_CALL_TIMEOUT"
    using budget_near(1) [OF assms(1)] assms(2) by (auto simp: PER_CALL_TIMEOUT_def from_secs_def)
  then have "nat (budget tick) < 2 * PER_CALL_TIMEOUT" using budget_nonneg [of tick] by (simp add: nat_less_iff)
  ultimately have "\<not> bf_clock s \<le> nat (budget tick)" by simp
  then have lost: "docker_collect (seen d (nat (budget tick)) s) p = (Inl ''container collection exceeded its budget'', p)" for p
    using assms(5) by (simp add: docker_collect_def seen_def)
  then show ?thesis
    using assms(10,11)
    by (auto simp: collect_timed_def take_snapshot_def reconnect_def collect_snapshot_def healthz_def Let_def)
qed

section \<open>A daemon that hangs\<close>

text \<open>Two containers, of which the first answers after a tenth of a second and the other never.\<close>

definition ex_summary :: "string \<Rightarrow> summary" where
  "ex_summary i = \<lparr>sm_id = Some i, sm_names = None, sm_image = None, sm_state = Some ''running'', sm_status = None\<rparr>"

definition ex_hanging :: timed_docker where
  "ex_hanging =
     \<lparr>td_list = \<lparr>an_after = Some (10 ^ 7), an_result = Inr [ex_summary ''1f'', ex_summary ''2f'']\<rparr>,
      td_inspect = (\<lambda>k. \<lparr>an_after = if k = ''1f'' then Some (10 ^ 8) else None, an_result = Inl ''no such container''\<rparr>),
      td_stats = (\<lambda>k. \<lparr>an_after = if k = ''1f'' then Some (10 ^ 8) else None, an_result = Inr (Some ex_stats)\<rparr>)\<rparr>"

lemma ex_hanging_run: "buffer_reachable (job_times ex_hanging) (run_all (job_times ex_hanging))"
  "drained (job_times ex_hanging) (run_all (job_times ex_hanging))"
  using run_all_drained by blast+

lemma ex_hanging_list:
  "fst (timeout PER_CALL_TIMEOUT (td_list ex_hanging)) = Done [ex_summary ''1f'', ex_summary ''2f'']"
  by (simp add: ex_hanging_def timeout_def PER_CALL_TIMEOUT_def)

lemma ex_hanging_second:
  "ex_summary ''2f'' \<in> set [ex_summary ''1f'', ex_summary ''2f'']"
  "text_or_empty (sm_state (ex_summary ''2f'')) = ''running''"
  "an_after (td_inspect ex_hanging (container_key (ex_summary ''2f''))) = None"
  "an_after (td_stats ex_hanging (container_key (ex_summary ''2f''))) = None"
  by (simp_all add: ex_hanging_def ex_summary_def text_or_empty_def container_key_def)

lemma ticks: "0 \<le> from_secs 15" "from_secs 8 \<le> from_secs 15" "0 \<le> from_secs 5" "from_secs 5 \<le> 98 * 10 ^ 8"
  by (simp_all add: from_secs_def)

theorem collection_meets_deadline_witness:
  "int (snd (collect_timed ex_hanging (nat (budget (from_secs 15))) (run_all (job_times ex_hanging)) [])) < from_secs 15"
  using collection_meets_deadline [OF ticks(1) ex_hanging_run, of "[]"] ticks(2) by (auto split: prod.splits)

theorem sick_containers_fit_budget_witness:
  "\<exists>out prev'. fst (collect_timed ex_hanging (nat (budget (from_secs 15))) (run_all (job_times ex_hanging)) []) = (Inr out, prev')
     \<and> length out = 2"
proof -
  have "from_secs (10 * int ((length [ex_summary ''1f'', ex_summary ''2f''] + 15) div 16)) \<le> from_secs 15"
    "length [ex_summary ''1f'', ex_summary ''2f''] \<le> 2 ^ 24"
    by (simp_all add: from_secs_def)
  from sick_containers_fit_budget [OF ex_hanging_run ex_hanging_list this, of "[]"]
  obtain out prev' where run:
    "fst (collect_timed ex_hanging (nat (budget (from_secs 15))) (run_all (job_times ex_hanging)) []) = (Inr out, prev')"
    and tick: "complete_tick (seen ex_hanging (nat (budget (from_secs 15))) (run_all (job_times ex_hanging))) []
      [ex_summary ''1f'', ex_summary ''2f''] out prev'"
    by blast
  have "length out = 2"
    using mset_eq_length [OF conjunct1 [OF tick [unfolded complete_tick_def]]] by (simp only: length_map) simp
  with run show ?thesis by blast
qed

theorem one_hanging_container_blinds_witness:
  "fst (healthz 0 0 (Some (fst (take_snapshot (from_secs 5)
      \<lparr>tn_connect = Inr (), tn_now = 0, tn_host = ex_host,
       tn_docker = seen ex_hanging (nat (budget (from_secs 5))) (run_all (job_times ex_hanging))\<rparr>
      (new_collector\<lparr>cl_docker := True\<rparr>))))) = SERVICE_UNAVAILABLE"
proof -
  have "cl_docker (new_collector\<lparr>cl_docker := True\<rparr>)" by simp
  from one_hanging_container_blinds [OF ticks(3,4) ex_hanging_run ex_hanging_list ex_hanging_second this turn.select_convs(4)]
  show ?thesis by (simp only: case_prod_unfold)
qed

end
