(* ===== verification/Timers.thy ===== *)
theory Timers
  imports Docker_Deadline Store_Props
begin

text \<open>
  The timers of the background loops of \<open>src/src/main.rs\<close>: when their turns begin, given how long each
  takes and how late the runtime is. The clock of the machine is taken to run evenly; it is read
  as the seconds of \<open>now_secs\<close>. \<open>tokio::time::interval\<close> is taken by its documentation: the first tick comes at
  once, a tick is never early, and with \<open>MissedTickBehavior::Delay\<close> a tick that came too late sets
  the next one a period after itself.
\<close>

section \<open>Intervals\<close>

text \<open>
  The deadline of tick \<open>k\<close> and the time at which the loop has it. Turn \<open>k\<close> takes \<open>took k\<close>, the loop is
  resumed \<open>late k\<close> after it could be, and a tick more than \<open>tol\<close> behind its deadline is a missed one.
\<close>

primrec interval_loop ::
  "time \<Rightarrow> time \<Rightarrow> time \<Rightarrow> (nat \<Rightarrow> time) \<Rightarrow> (nat \<Rightarrow> time) \<Rightarrow> nat \<Rightarrow> time \<times> time" where
  "interval_loop tol period start took late 0 = (start, start + late 0)"
| "interval_loop tol period start took late (Suc k) =
     (case interval_loop tol period start took late k of
        (deadline, now) \<Rightarrow>
          let next = (if deadline + tol < now then now else deadline) + period
          in (next, max (now + took k) next + late (Suc k)))"

definition ticked :: "time \<Rightarrow> time \<Rightarrow> time \<Rightarrow> (nat \<Rightarrow> time) \<Rightarrow> (nat \<Rightarrow> time) \<Rightarrow> nat \<Rightarrow> time" where
  "ticked tol period start took late k = snd (interval_loop tol period start took late k)"

lemma deadline_le:
  "0 \<le> period \<Longrightarrow> \<forall>k. 0 \<le> late k \<Longrightarrow>
   fst (interval_loop tol period start took late k) \<le> snd (interval_loop tol period start took late k)"
  by (cases k) (auto simp: Let_def add_increasing2 le_max_iff_disj split: prod.split)

text \<open>Two ticks are a period apart, up to what the loop and the runtime add, and less at most by the tolerance.\<close>

lemma ticked_Suc:
  assumes "0 \<le> period" and "\<forall>k. 0 \<le> late k" and "0 \<le> tol"
  shows "ticked tol period start took late (Suc k) \<le>
      ticked tol period start took late k + max (took k) period + late (Suc k)"
    and "ticked tol period start took late k + period - tol \<le> ticked tol period start took late (Suc k)"
  using deadline_le [OF assms(1,2), of tol start took k] assms(2) [rule_format, of "Suc k"] assms(3)
  unfolding ticked_def by (auto simp: Let_def split: prod.split)

lemma ticked_mono:
  assumes "0 \<le> period" and "\<forall>k. 0 \<le> late k" and "0 \<le> tol" and "tol \<le> period" and "0 \<le> start"
  shows "0 \<le> ticked tol period start took late k"
proof (induction k)
  case 0
  with assms(2,5) show ?case by (simp add: ticked_def)
next
  case (Suc k)
  with ticked_Suc(2) [OF assms(1-3), of start took k] assms(4) show ?case by simp
qed

section \<open>The compactor\<close>

definition compact_period :: time where
  "compact_period = from_secs 300"

text \<open>The time that compaction \<open>k\<close> of a run takes for \<open>now\<close>.\<close>

definition compact_now :: "time \<Rightarrow> time \<Rightarrow> (nat \<Rightarrow> time) \<Rightarrow> (nat \<Rightarrow> time) \<Rightarrow> nat \<Rightarrow> i64" where
  "compact_now tol start took late k = as_i64 (now_secs (ticked tol compact_period start took late k))"

lemma uint_now_secs: "0 \<le> t \<Longrightarrow> t < from_secs (2 ^ 62) \<Longrightarrow> uint (now_secs t) = t div 10 ^ 9 \<and> t div 10 ^ 9 < 2 ^ 62"
proof -
  assume "0 \<le> t" and "t < from_secs (2 ^ 62)"
  then have "0 \<le> t div 10 ^ 9" "t div 10 ^ 9 < 2 ^ 62" by (simp_all add: from_secs_def pos_imp_zdiv_nonneg_iff)
  with \<open>0 \<le> t\<close> show ?thesis by (simp add: now_secs_def uint_word_of_int_eq take_bit_int_eq_self)
qed

lemma now_secs_i64: "0 \<le> t \<Longrightarrow> t < from_secs (2 ^ 62) \<Longrightarrow> as_i64 (now_secs t) = t div 10 ^ 9"
  using uint_now_secs [of t] as_i64_small [of "now_secs t"] by simp

lemma time_ok_now: "0 \<le> t \<Longrightarrow> t < from_secs (2 ^ 62) \<Longrightarrow> time_ok (as_i64 (now_secs t))"
  using uint_now_secs [of t] by (simp add: now_secs_i64 time_ok_def pos_imp_zdiv_nonneg_iff)

lemma seconds_apart:
  fixes a b :: int
  shows "a + 10 ^ 9 \<le> b \<Longrightarrow> a div 10 ^ 9 < b div 10 ^ 9"
    and "b \<le> a + n * 10 ^ 9 \<Longrightarrow> b div 10 ^ 9 \<le> a div 10 ^ 9 + n"
    and "b < n * 10 ^ 9 \<Longrightarrow> b div 10 ^ 9 < n"
  using zdiv_mono1 [of "a + 10 ^ 9" b "10 ^ 9"] zdiv_mono1 [of b "a + n * 10 ^ 9" "10 ^ 9"]
    zdiv_mono1 [of b "n * 10 ^ 9 - 1" "10 ^ 9"] by simp_all

lemma compact_gap:
  assumes "\<forall>k. 0 \<le> late k \<and> late k \<le> from_secs 1" and "\<forall>k. took k \<le> from_secs 300"
    and "0 \<le> tol" and "tol \<le> from_secs 1" and "0 \<le> start"
    and "ticked tol compact_period start took late (Suc k) < from_secs (2 ^ 62)"
  defines "now \<equiv> compact_now tol start took late"
  shows "time_ok (now k)" and "time_ok (now (Suc k))" and "now k < now (Suc k)" and "now (Suc k) \<le> now k + 301"
proof -
  let ?t = "ticked tol compact_period start took late"
  have late: "\<forall>k. 0 \<le> late k" using assms(1) by blast
  have period: "0 \<le> compact_period" "tol \<le> compact_period" using assms(4) by (simp_all add: compact_period_def from_secs_def)
  note range = ticked_mono [OF period(1) late assms(3) period(2) assms(5)]
  have gap: "?t (Suc k) \<le> ?t k + 301 * 10 ^ 9" "?t k + 299 * 10 ^ 9 \<le> ?t (Suc k)"
    using ticked_Suc [OF period(1) late assms(3), of start took k] assms(1) [rule_format, of "Suc k"]
      assms(2) [rule_format, of k] assms(4) by (simp_all add: compact_period_def from_secs_def)
  then have "?t k < from_secs (2 ^ 62)" using assms(6) by linarith
  then have now: "now k = ?t k div 10 ^ 9" "now (Suc k) = ?t (Suc k) div 10 ^ 9"
    unfolding now_def compact_now_def using range assms(6) by (simp_all only: now_secs_i64)
  show "time_ok (now k)" "time_ok (now (Suc k))"
    using range assms(6) \<open>?t k < _\<close> by (auto simp: now time_ok_def from_secs_def pos_imp_zdiv_nonneg_iff)
  show "now k < now (Suc k)" "now (Suc k) \<le> now k + 301"
    unfolding now by (rule seconds_apart, use gap in linarith)+
qed

text \<open>
  The store under the compactor and the collector: the state is the number of compactions since the
  first of this run, the log of the samples, and the store. Two conditions on the environment are guards:
  a sample that is committed is not older than the bucket in which the last compaction ran, and
  every compaction commits. The run starts from any history that is on schedule, empty or not, whose last
  compaction is the first of the timer.
\<close>

inductive timed_step ::
  "(i64 list \<Rightarrow> i64) \<Rightarrow> (nat \<Rightarrow> i64) \<Rightarrow> nat \<times> samples \<times> store \<Rightarrow> nat \<times> samples \<times> store \<Rightarrow> bool"
  for f :: "i64 list \<Rightarrow> i64" and now :: "nat \<Rightarrow> i64" where
  timed_write:
    "try_write ok f ts pts s = (r, s') \<Longrightarrow> bucket_of 300 (now k) \<le> as_i64 ts \<Longrightarrow>
     timed_step f now (k, ghost, s) (k, logged (as_i64 ts) (st_db s') ghost, s')"
| timed_compact:
    "try_compact ok (now (Suc k)) s = (Ok u, s') \<Longrightarrow> ok 0 \<Longrightarrow>
     timed_step f now (k, ghost, s) (Suc k, ghost, s')"

definition timed_init :: "(i64 list \<Rightarrow> i64) \<Rightarrow> (nat \<Rightarrow> i64) \<Rightarrow> nat \<times> samples \<times> store \<Rightarrow> bool" where
  "timed_init f now c \<longleftrightarrow>
     (\<exists>g s. c = (0, g, s) \<and> reachable (sched_init f) (sched_step f) (g, s) \<and> last_compact True (st_db s) = now 0)"

definition on_schedule :: "(i64 list \<Rightarrow> i64) \<Rightarrow> (nat \<Rightarrow> i64) \<Rightarrow> (nat \<Rightarrow> bool) \<Rightarrow> nat \<times> samples \<times> store \<Rightarrow> bool" where
  "on_schedule f now inside c \<longleftrightarrow>
     (case c of (k, g, s) \<Rightarrow> inside k \<longrightarrow>
        reachable (sched_init f) (sched_step f) (g, s) \<and> last_compact True (st_db s) = now k)"

lemma timed_on_schedule:
  assumes "reachable (timed_init f now) (timed_step f now) c"
    and gap: "\<And>k. inside (Suc k) \<Longrightarrow> inside k \<and> time_ok (now (Suc k)) \<and> now k < now (Suc k) \<and> now (Suc k) \<le> now k + 301"
  shows "on_schedule f now inside c"
  using assms(1)
proof (induction rule: reachable.induct)
  case (reachable_init c)
  then show ?case by (auto simp: timed_init_def on_schedule_def)
next
  case (reachable_step c d)
  from reachable_step.hyps(2) show ?case
  proof cases
    case (timed_write ok ts pts s r s' k ghost)
    have "reachable (sched_init f) (sched_step f) (logged (as_i64 ts) (st_db s') ghost, s')
        \<and> last_compact True (st_db s') = now k" if "inside k"
    proof -
      have before: "reachable (sched_init f) (sched_step f) (ghost, s)" "last_compact True (st_db s) = now k"
        using reachable_step.IH timed_write(1) that by (auto simp: on_schedule_def)
      have "sched_step f (ghost, s) (logged (as_i64 ts) (st_db s') ghost, s')"
        by (rule sched_write [OF timed_write(3)]) (simp add: before timed_write(4))
      moreover from try_write_frame [OF sched_invD(1,2) [OF sched.inv_reachable [OF before(1)]] timed_write(3)]
      have "last_compact True (st_db s') = now k" using before(2) by (simp add: write_frame_def last_compact_def)
      ultimately show ?thesis using before(1) by (blast intro: reachable.reachable_step)
    qed
    with timed_write show ?thesis by (simp add: on_schedule_def)
  next
    case (timed_compact ok k s u s' ghost)
    have "reachable (sched_init f) (sched_step f) (ghost, s') \<and> last_compact True (st_db s') = now (Suc k)"
      if "inside (Suc k)"
    proof -
      from gap [OF that] reachable_step.IH timed_compact(1)
      have before: "reachable (sched_init f) (sched_step f) (ghost, s)" "last_compact True (st_db s) = now k"
        and now: "time_ok (now (Suc k))" "now k < now (Suc k)" "now (Suc k) \<le> now k + 301"
        by (auto simp: on_schedule_def)
      have "sched_step f (ghost, s) (ghost, s')"
        by (rule sched_compact [OF timed_compact(3,4)]) (simp_all add: before now)
      moreover have "last_compact True (st_db s') = now (Suc k)"
        using compaction_Ok [OF timed_compact(3) sched_invD(2) [OF sched.inv_reachable [OF before(1)]]] by blast
      ultimately show ?thesis using before(1) by (blast intro: reachable.reachable_step)
    qed
    with timed_compact show ?thesis by (simp add: on_schedule_def)
  qed
qed

text \<open>
  C13. The timer of the compactor provides the compactions of the schedule on which the history is
  exact. Take a history that was on schedule when the timer fired first; when every compaction commits
  within five minutes of its start and the runtime resumes the loop at most a second late, and as long
  as no sample is committed after a compaction that ran in a later five-minute bucket than the sample's,
  the service stays in states of the schedule, however many samples it writes and whichever writes
  fail; so its closed buckets and hours are the aggregates of everything that was recorded. A
  failed compaction, a pause of more than 301 seconds between two, or a late sample leaves the schedule;
  what then happens is \<open>late_samples_stay_out\<close>.
\<close>

theorem compactor_keeps_schedule:
  assumes "\<forall>k. 0 \<le> late k \<and> late k \<le> from_secs 1" and "\<forall>k. took k \<le> from_secs 300"
    and "0 \<le> tol" and "tol \<le> from_secs 1" and "0 \<le> start"
    and "reachable (timed_init f (compact_now tol start took late)) (timed_step f (compact_now tol start took late)) (k, ghost, s)"
    and "ticked tol compact_period start took late k < from_secs (2 ^ 62)"
  shows "reachable (sched_init f) (sched_step f) (ghost, s)
    \<and> last_compact True (st_db s) = compact_now tol start took late k"
proof -
  let ?in = "\<lambda>k. ticked tol compact_period start took late k < from_secs (2 ^ 62)"
  have late: "\<forall>k. 0 \<le> late k" using assms(1) by blast
  have period: "0 \<le> compact_period" "tol \<le> compact_period" using assms(4) by (simp_all add: compact_period_def from_secs_def)
  have "?in k" if "?in (Suc k)" for k
    using that ticked_Suc(2) [OF period(1) late assms(3), of start took k] period(2) by linarith
  then have "on_schedule f (compact_now tol start took late) ?in (k, ghost, s)"
    using compact_gap [OF assms(1-5)]
    by (intro timed_on_schedule [OF assms(6)]) auto
  with assms(7) show ?thesis by (simp add: on_schedule_def)
qed

definition ex_now :: "nat \<Rightarrow> i64" where
  "ex_now = compact_now 0 (from_secs 3000) (\<lambda>_. 0) (\<lambda>_. 0)"

definition ex_wrote :: store where
  "ex_wrote = write_samples all_ok next_rowid 3100 [(''a'', Finite 1)] ex_started"

lemma ex_now: "ex_now 0 = 3000" "ex_now (Suc 0) = 3300"
  by code_simp+

lemma ex_compacted_again: "fst (try_compact all_ok 3300 ex_wrote) = Ok ()"
  by code_simp

lemma ex_timed:
  "reachable (timed_init next_rowid ex_now) (timed_step next_rowid ex_now)
     (Suc 0, logged 3100 (st_db ex_wrote) [], compact_store all_ok 3300 ex_wrote)"
proof -
  have "sched_init next_rowid ([], ex_started)"
    using compact_db ex_open_coherent next_rowid_ok ex_started_empty
    by (simp add: sched_init_def coherent_def time_ok_def) (simp add: ex_started_def)
  then have "timed_init next_rowid ex_now (0, [], ex_started)"
    using ex_started_empty by (auto simp: timed_init_def ex_now intro: reachable_init)
  moreover have "timed_step next_rowid ex_now (0, [], ex_started) (0, logged 3100 (st_db ex_wrote) [], ex_wrote)"
    using timed_write [OF prod.collapse [symmetric], where now = ex_now and k = 0 and ts = 3100 and ok = all_ok
        and f = next_rowid and pts = "[(''a'', Finite 1)]" and s = ex_started and ghost = "[]"]
    by (simp add: ex_now bucket_of_eq as_i64_small write_samples_def ex_wrote_def)
  moreover have "timed_step next_rowid ex_now (0, logged 3100 (st_db ex_wrote) [], ex_wrote)
      (Suc 0, logged 3100 (st_db ex_wrote) [], compact_store all_ok 3300 ex_wrote)"
    by (rule timed_compact [of all_ok]) (simp_all add: ex_now compact_store_def ex_compacted_again prod_eq_iff all_ok_def)
  ultimately show ?thesis by (meson reachable.intros)
qed

theorem compactor_keeps_schedule_witness:
  "reachable (sched_init next_rowid) (sched_step next_rowid) (logged 3100 (st_db ex_wrote) [], compact_store all_ok 3300 ex_wrote)
   \<and> last_compact True (st_db (compact_store all_ok 3300 ex_wrote)) = ex_now (Suc 0)"
  unfolding ex_now_def
  by (rule compactor_keeps_schedule [OF _ _ _ _ _ ex_timed [unfolded ex_now_def]])
    (simp_all add: from_secs_def ticked_def compact_period_def)

section \<open>The collector\<close>

text \<open>What turn \<open>k\<close> of the collector spends on reading the host, on Docker and on the store.\<close>

record spent =
  sp_host :: time
  sp_docker :: time
  sp_write :: time

definition collector_tick :: "time \<Rightarrow> time \<Rightarrow> time \<Rightarrow> (nat \<Rightarrow> spent) \<Rightarrow> (nat \<Rightarrow> time) \<Rightarrow> nat \<Rightarrow> time" where
  "collector_tick tol tick start sp late =
     ticked tol tick start (\<lambda>k. sp_host (sp k) + sp_docker (sp k) + sp_write (sp k)) late"

definition published_at :: "time \<Rightarrow> time \<Rightarrow> time \<Rightarrow> (nat \<Rightarrow> spent) \<Rightarrow> (nat \<Rightarrow> time) \<Rightarrow> nat \<Rightarrow> time" where
  "published_at tol tick start sp late k = collector_tick tol tick start sp late k + sp_host (sp k) + sp_docker (sp k)"

text \<open>Three ticks, and thirty seconds at least, are more than two collections and a tick.\<close>

lemma fresh_arith:
  fixes tick d h h' age :: int
  assumes "0 < tick" and "d \<le> 3 * 10 ^ 9 + max (2 * 10 ^ 9) (61 * tick div 100)"
    and "h \<le> 4 * 10 ^ 9" and "h' \<le> 4 * 10 ^ 9" and "age \<le> max (d + h) tick + d + h'"
  shows "age div 10 ^ 9 + 1 \<le> max 30 (3 * (tick div 10 ^ 9))"
proof -
  let ?n = "tick div 10 ^ 9" and ?m = "61 * tick div 100"
  have n: "n * 10 ^ 9 \<le> tick \<and> tick < n * 10 ^ 9 + 10 ^ 9" if "n = ?n" for n
    using div_mult_mod_eq [of tick "10 ^ 9"] pos_mod_bound [of "10 ^ 9" tick] pos_mod_sign [of "10 ^ 9" tick]
    unfolding that [symmetric] by auto
  obtain n where n: "n = ?n" "n * 10 ^ 9 \<le> tick" "tick < n * 10 ^ 9 + 10 ^ 9" using n by blast
  have m: "100 * m \<le> 61 * tick" if "m = ?m" for m
    using div_mult_mod_eq [of "61 * tick" 100] pos_mod_sign [of 100 "61 * tick"] unfolding that [symmetric] by auto
  then have m: "100 * ?m \<le> 61 * tick" by blast
  have d: "d \<le> 5 * 10 ^ 9 \<or> 100 * d \<le> 300 * 10 ^ 9 + 61 * tick" using assms(2) m by linarith
  have age: "age \<le> 2 * d + h + h' \<or> age \<le> tick + d + h'" using assms(5) by linarith
  have "age < 30 * 10 ^ 9 \<or> age < 3 * n * 10 ^ 9"
  proof (cases "n \<le> 9")
    case True
    then have "tick < 10 * 10 ^ 9" using n(3) by simp
    with d age assms(3,4) show ?thesis by auto
  next
    case False
    with n(2,3) d age assms(3,4) show ?thesis by auto
  qed
  then have "age div 10 ^ 9 < 30 \<or> age div 10 ^ 9 < 3 * ?n"
    unfolding n(1) using seconds_apart(3) [of age] by blast
  then show ?thesis by linarith
qed

text \<open>A turn without a connection spends nothing on Docker; one with it, what its collection takes.\<close>

definition docker_spends :: "time \<Rightarrow> time \<Rightarrow> bool" where
  "docker_spends tick x \<longleftrightarrow>
     x = 0 \<or> (\<exists>d s prev. buffer_reachable (job_times d) s \<and> drained (job_times d) s
                \<and> x = int (snd (collect_timed d (nat (budget tick)) s prev)))"

lemma docker_spends_bounds:
  assumes "docker_spends tick x" and "0 \<le> tick"
  shows "0 \<le> x" and "x \<le> 3 * 10 ^ 9 + max (2 * 10 ^ 9) (61 * tick div 100)"
proof -
  have "x \<le> from_secs 3 + budget tick"
    using assms(1) collection_time [of _ tick] budget_nonneg [of tick]
    by (auto simp: docker_spends_def from_secs_def)
  then show "x \<le> 3 * 10 ^ 9 + max (2 * 10 ^ 9) (61 * tick div 100)"
    using budget_near(1) [OF assms(2)] by (simp add: from_secs_def)
  show "0 \<le> x" using assms(1) by (auto simp: docker_spends_def)
qed

lemma ticked_after: "\<forall>k. 0 \<le> late k \<Longrightarrow>
   ticked tol period start took late k + took k \<le> ticked tol period start took late (Suc k)"
  by (auto simp: ticked_def Let_def add_increasing2 le_max_iff_disj split: prod.split)

lemma uint_stale_after:
  assumes "0 \<le> tick" and "tick < from_secs (2 ^ 64)"
  shows "uint (stale_after tick) = max 30 (min (3 * (tick div 10 ^ 9)) (2 ^ 64 - 1))"
proof -
  have "0 \<le> tick div 10 ^ 9" using assms(1) by (simp add: pos_imp_zdiv_nonneg_iff)
  moreover have "tick div 10 ^ 9 < 2 ^ 64" by (rule seconds_apart(3)) (use assms(2) in \<open>simp add: from_secs_def\<close>)
  ultimately have "int (unat (word_of_int (tick div 10 ^ 9) :: u64)) = tick div 10 ^ 9"
    by (simp add: uint_word_of_int_eq take_bit_int_eq_self)
  moreover have "int (max 30 (min (3 * m) (2 ^ 64 - 1))) = max 30 (min (3 * int m) (2 ^ 64 - 1))" for m :: nat
    by (auto simp: max_def min_def)
  moreover have "uint (stale_after tick) = int (unat (stale_after tick))" by simp
  ultimately show ?thesis by (simp only: unat_stale_after)
qed

text \<open>The age of a snapshot in whole seconds, at most one more than the time that has passed.\<close>

lemma age_secs_le:
  assumes "sn_ts snap = now_secs t" and "0 \<le> t" and "t \<le> now" and "now < from_secs (2 ^ 62)"
  shows "uint (age_secs now snap) \<le> (now - t) div 10 ^ 9 + 1" and "uint (age_secs now snap) < 2 ^ 62"
proof -
  have u: "uint (now_secs t) = t div 10 ^ 9" "uint (now_secs now) = now div 10 ^ 9" "now div 10 ^ 9 < 2 ^ 62"
    using uint_now_secs [of t] uint_now_secs [of now] assms(2-4) by auto
  have "int (m - n) = max 0 (int m - int n)" for m n :: nat by linarith
  then have "int (unat (age_secs now snap)) = max 0 (int (unat (now_secs now)) - int (unat (now_secs t)))"
    by (simp only: age_secs_def unat_sat_sub_u64 assms(1))
  then have age: "uint (age_secs now snap) = max 0 (now div 10 ^ 9 - t div 10 ^ 9)" by (simp add: u)
  have "0 \<le> t div 10 ^ 9" using assms(2) by (simp add: pos_imp_zdiv_nonneg_iff)
  with age u(3) show "uint (age_secs now snap) < 2 ^ 62" by simp
  have "(now - t) mod 10 ^ 9 < 10 ^ 9" by simp
  with div_mult_mod_eq [of "now - t" "10 ^ 9"] have "now \<le> t + ((now - t) div 10 ^ 9 + 1) * 10 ^ 9"
    by (simp add: algebra_simps)
  from seconds_apart(2) [OF this] have "now div 10 ^ 9 - t div 10 ^ 9 \<le> (now - t) div 10 ^ 9 + 1" by linarith
  moreover have "0 \<le> (now - t) div 10 ^ 9" using assms(3) by (simp add: pos_imp_zdiv_nonneg_iff)
  ultimately show "uint (age_secs now snap) \<le> (now - t) div 10 ^ 9 + 1" by (simp add: age)
qed

text \<open>
  C30. The limit for a stale snapshot leaves room for every fault of Docker. As long as reading the host,
  writing to the store and the lateness of the runtime take four seconds together in every turn, the
  snapshot that is published is never too old before the next one replaces it, on any tick and
  whatever the daemon does: until then the health check fails only for the error that the snapshot
  itself reports.
\<close>

theorem snapshot_stays_fresh:
  assumes "0 < tick" and "tick < from_secs (2 ^ 64)" and "0 \<le> tol" and "0 \<le> start"
    and "\<forall>k. 0 \<le> late k \<and> 0 \<le> sp_host (sp k) \<and> 0 \<le> sp_write (sp k) \<and> docker_spends tick (sp_docker (sp k))"
    and "\<forall>k. late k + sp_host (sp k) + sp_write (sp k) \<le> from_secs 4"
    and "tn_now t = collector_tick tol tick start sp late k" and "take_snapshot tick t c = (snap, c')"
    and "published_at tol tick start sp late k \<le> now" and "now \<le> published_at tol tick start sp late (Suc k)"
    and "now < from_secs (2 ^ 62)"
  shows "fst (healthz now now' (Some snap)) = SERVICE_UNAVAILABLE \<longleftrightarrow> sn_docker_error snap \<noteq> None"
proof -
  let ?f = "collector_tick tol tick start sp late"
  let ?D = "3 * 10 ^ 9 + max (2 * 10 ^ 9) (61 * tick div 100)"
  have late: "\<forall>k. 0 \<le> late k" using assms(5) by blast
  have tick: "0 \<le> tick" using assms(1) by simp
  have d: "0 \<le> sp_docker (sp k)" "sp_docker (sp k) \<le> ?D" for k
    using docker_spends_bounds [OF _ tick] assms(5) by blast+
  have h: "0 \<le> sp_host (sp k)" "0 \<le> sp_write (sp k)" "late k + sp_host (sp k) + sp_write (sp k) \<le> 4 * 10 ^ 9" for k
    using assms(5,6) by (simp_all add: from_secs_def)
  have f: "0 \<le> ?f k" for k
  proof (induction k)
    case 0
    with assms(4) late show ?case by (simp add: collector_tick_def ticked_def)
  next
    case (Suc k)
    have "?f k + (sp_host (sp k) + sp_docker (sp k) + sp_write (sp k)) \<le> ?f (Suc k)"
      unfolding collector_tick_def by (rule ticked_after [OF late])
    with Suc d(1) [of k] h(1,2) [of k] show ?case by linarith
  qed
  have "?f (Suc k) \<le> ?f k + max (sp_host (sp k) + sp_docker (sp k) + sp_write (sp k)) tick + late (Suc k)"
    using ticked_Suc(1) [OF tick late assms(3)] by (simp add: collector_tick_def)
  then have "now - ?f k \<le> max (?D + (sp_host (sp k) + sp_write (sp k))) tick + ?D + (late (Suc k) + sp_host (sp (Suc k)))"
    using assms(10) d(2) [of k] d(2) [of "Suc k"] unfolding published_at_def by linarith
  from fresh_arith [OF assms(1) order_refl _ _ this] h [of k] h [of "Suc k"] late [rule_format, of k]
  have limit: "(now - ?f k) div 10 ^ 9 + 1 \<le> max 30 (3 * (tick div 10 ^ 9))" by linarith
  have snap: "sn_ts snap = now_secs (?f k)" "sn_stale_after_secs snap = stale_after tick"
    using assms(7,8) by (auto simp: take_snapshot_def collect_snapshot_def Let_def split: prod.splits)
  have "?f k \<le> now" using assms(9) d(1) [of k] h(1) [of k] unfolding published_at_def by linarith
  note age = age_secs_le [OF snap(1) f this assms(11)]
  have "x < 2 ^ 62 \<Longrightarrow> x \<le> max 30 y \<Longrightarrow> x \<le> max 30 (min y (2 ^ 64 - 1))" for x y :: int by simp
  from this [OF age(2) order_trans [OF age(1) limit]]
  have "uint (age_secs now snap) \<le> uint (sn_stale_after_secs snap)"
    by (simp only: snap(2) uint_stale_after [OF tick assms(2)])
  then have "\<not> sn_stale_after_secs snap < age_secs now snap" by (simp add: word_less_def)
  then show ?thesis by (simp add: healthz_def split: option.split)
qed

text \<open>Turns of fifteen seconds with the daemon that hangs.\<close>

definition ex_spent :: spent where
  "ex_spent =
     \<lparr>sp_host = 10 ^ 7,
      sp_docker = int (snd (collect_timed ex_hanging (nat (budget (from_secs 15))) (run_all (job_times ex_hanging)) [])),
      sp_write = 5 * 10 ^ 7\<rparr>"

definition ex_turn :: turn where
  "ex_turn =
     \<lparr>tn_connect = Inr (), tn_now = 0, tn_host = ex_host,
      tn_docker = seen ex_hanging (nat (budget (from_secs 15))) (run_all (job_times ex_hanging))\<rparr>"

lemma ex_spends: "docker_spends (from_secs 15) (sp_docker ex_spent)"
  unfolding docker_spends_def using ex_hanging_run by (fastforce simp: ex_spent_def)

theorem snapshot_stays_fresh_witness:
  "let snap = fst (take_snapshot (from_secs 15) ex_turn new_collector);
       now = published_at 0 (from_secs 15) 0 (\<lambda>_. ex_spent) (\<lambda>_. 0) 0
   in fst (healthz now now (Some snap)) = SERVICE_UNAVAILABLE \<longleftrightarrow> sn_docker_error snap \<noteq> None"
proof -
  let ?at = "published_at 0 (from_secs 15) 0 (\<lambda>_. ex_spent) (\<lambda>_. 0)"
  have d: "0 \<le> sp_docker ex_spent" "sp_docker ex_spent \<le> 3 * 10 ^ 9 + max (2 * 10 ^ 9) (61 * from_secs 15 div 100)"
    using docker_spends_bounds [OF ex_spends ticks(1)] by blast+
  have start: "collector_tick 0 (from_secs 15) 0 (\<lambda>_. ex_spent) (\<lambda>_. 0) 0 = 0" by (simp add: collector_tick_def ticked_def)
  have spent: "sp_host ex_spent = 10 ^ 7" "sp_write ex_spent = 5 * 10 ^ 7" by (simp_all add: ex_spent_def)
  have "?at 0 \<le> ?at (Suc 0)" "?at 0 < from_secs (2 ^ 62)"
    using ticked_after [of "\<lambda>_. 0" 0 "from_secs 15" 0 "\<lambda>_. sp_host ex_spent + sp_docker ex_spent + sp_write ex_spent" 0] d
    by (simp_all add: published_at_def collector_tick_def spent ticked_def from_secs_def)
  moreover have "tn_now ex_turn = collector_tick 0 (from_secs 15) 0 (\<lambda>_. ex_spent) (\<lambda>_. 0) 0"
    by (simp add: start ex_turn_def)
  ultimately show ?thesis
    unfolding Let_def using ex_spends
    by (intro snapshot_stays_fresh [where tol = 0 and start = 0 and k = 0 and sp = "\<lambda>_. ex_spent" and late = "\<lambda>_. 0"
          and t = ex_turn, OF _ _ _ _ _ _ _ prod.collapse [symmetric] order_refl])
      (simp_all add: spent from_secs_def)
qed

end
