(* ===== verification/Web_Props.thy ===== *)
theory Web_Props
  imports Web Store_Props Auth_Example Collect_Props
begin

text \<open>The properties of the HTTP surface: the gate, the health check, the query, the headers.\<close>

section \<open>The gate\<close>

definition authorised :: "time \<Rightarrow> 'w request \<Rightarrow> 'w app_state \<Rightarrow> bool" where
  "authorised now rq st \<longleftrightarrow>
     (\<exists>t. ap_token st = Some t \<and> rq_authorization rq = Some (''Bearer '' @ expose t))
     \<or> (case ap_auth st of Some a \<Rightarrow> live_session now (rq_jar rq) a | None \<Rightarrow> ap_token st = None)"

definition carries_metrics :: "'w body \<Rightarrow> bool" where
  "carries_metrics b = (case b of SnapshotJson _ \<Rightarrow> True | SeriesJson _ _ \<Rightarrow> True | _ \<Rightarrow> False)"

lemma bearer_okD: "bearer_ok t h \<Longrightarrow> h = Some (''Bearer '' @ expose t)"
  by (auto simp: bearer_ok_def to_str_def strip_prefix_Some split: option.splits bind_splits if_splits)

lemma session_valid_sound: "session_valid now jar a = (Ok True, a') \<Longrightarrow> live_session now jar a"
  by (auto simp: session_valid_def live_session_def with_lock_def lock_def ret_def split: option.splits if_splits)

lemma gate_sound:
  assumes "require_api_auth now (ap_token st) (rq_authorization rq) (rq_jar rq) (ap_auth st) = (Ok True, a)"
  shows "authorised now rq st"
proof (cases "case ap_token st of None \<Rightarrow> False | Some t \<Rightarrow> bearer_ok t (rq_authorization rq)")
  case True
  then show ?thesis by (auto simp: authorised_def dest: bearer_okD split: option.splits)
next
  case False
  with assms show ?thesis
    by (auto simp: require_api_auth_def authorised_def dest: session_valid_sound split: option.splits prod.splits)
qed

lemma reply_metrics: "reply r f = Some x \<Longrightarrow> (\<And>y. \<not> carries_metrics (rs_body (f y))) \<Longrightarrow> \<not> carries_metrics (rs_body x)"
  by (auto simp: reply_def carries_metrics_def response_def split: outcome.splits prod.splits)

lemma run_auth_metrics:
  assumes "run_auth h f st = (Some r, st')" and "\<And>y. \<not> carries_metrics (rs_body (f y))"
  shows "\<not> carries_metrics (rs_body r)"
proof -
  obtain q a where "h (ap_auth st) = (q, a)" by (metis surj_pair)
  with assms(1) have "reply q f = Some r" by (simp add: run_auth_def)
  then show ?thesis by (rule reply_metrics) (rule assms(2))
qed

lemma only_the_api_carries_metrics:
  assumes "endpoint_response w c x rq e st = (Some r, st')" and "carries_metrics (rs_body r)"
  shows "api_endpoint e"
proof (rule ccontr)
  assume e: "\<not> api_endpoint e"
  note R = run_auth_metrics [OF _, of _ _ st r st']
  show False
    using assms e
    by (cases e)
      (auto simp: endpoint_response_def Let_def api_endpoint_def carries_metrics_def response_def
        dest!: R split: sum.splits prod.splits)
qed

lemma gated_response:
  assumes "gated x rq k st = (Some r, st')"
  shows "if authorised (clk (wd_env x) 0) rq st then r = k st \<or> r = response UNAUTHORIZED EmptyBody
    else r = response UNAUTHORIZED EmptyBody"
proof -
  obtain q a where g: "require_api_auth (clk (wd_env x) 0) (ap_token st) (rq_authorization rq) (rq_jar rq) (ap_auth st) = (q, a)"
    by (metis surj_pair)
  with assms gate_sound [of "clk (wd_env x) 0" st rq a] show ?thesis
    by (auto simp: gated_def split: outcome.splits bool.splits)
qed

lemma gated_endpoint: "api_endpoint e \<Longrightarrow> endpoint_response w c x rq e st = gated x rq (api_response x rq e) st"
  by (auto simp: endpoint_response_def api_endpoint_def Let_def)

lemma routed_api: "route m p = Inr e \<Longrightarrow> api_path p = api_endpoint e"
  by (auto simp: route_def api_path_def split: option.splits if_splits)

text \<open>The ways a request is answered: without a handler, behind the gate, or by another handler.\<close>

lemma serve_Some:
  assumes "serve w c x rq st = (Some r, st')"
  obtains (unrouted) s where "\<not> api_path (rq_path rq)" and "route (rq_method rq) (rq_path rq) = Inl s"
      and "r = security_headers (response s EmptyBody)"
  | (api) k r' where "api_path (rq_path rq)" and "gated x rq k st = (Some r', st')" and "r = security_headers r'"
      and "\<And>s. route (rq_method rq) (rq_path rq) = Inl s \<Longrightarrow> k = (\<lambda>_. response s EmptyBody)"
  | (other) e r' where "route (rq_method rq) (rq_path rq) = Inr e" and "\<not> api_endpoint e"
      and "endpoint_response w c x rq e st = (Some r', st')" and "r = security_headers r'"
proof (cases "route (rq_method rq) (rq_path rq)")
  case (Inl s)
  with assms show ?thesis
    by (cases "api_path (rq_path rq)")
      (auto simp: serve_def split: prod.splits intro: unrouted api)
next
  case (Inr e)
  with assms obtain r' where r': "endpoint_response w c x rq e st = (Some r', st')" "r = security_headers r'"
    by (auto simp: serve_def split: prod.splits)
  show ?thesis
  proof (cases "api_endpoint e")
    case True
    with r' Inr routed_api [OF Inr] gated_endpoint [OF True, of w c x rq st] show ?thesis by (intro api) auto
  qed (use r' Inr other in blast)
qed

lemma security_headers_body [simp]: "rs_body (security_headers r) = rs_body r" "rs_status (security_headers r) = rs_status r"
  by (simp_all add: security_headers_def)

lemma no_metrics [simp]: "\<not> carries_metrics (rs_body (response s EmptyBody))"
  by (simp add: carries_metrics_def response_def)

lemma served_metrics:
  assumes "serve w c x rq st = (Some r, st')" and "carries_metrics (rs_body r)"
  shows "authorised (clk (wd_env x) 0) rq st \<and> (\<exists>e. route (rq_method rq) (rq_path rq) = Inr e \<and> api_endpoint e)"
  using assms(1)
proof (cases rule: serve_Some)
  case (unrouted s)
  with assms(2) show ?thesis by simp
next
  case (api k r')
  with assms(2) have "authorised (clk (wd_env x) 0) rq st" "r' = k st"
    using gated_response [OF api(2)] by (auto split: if_splits)
  moreover have "\<exists>e. route (rq_method rq) (rq_path rq) = Inr e"
    using api(3,4) assms(2) calculation(2) by (cases "route (rq_method rq) (rq_path rq)") auto
  ultimately show ?thesis using routed_api api(1) by auto
next
  case (other e r')
  with assms(2) show ?thesis using only_the_api_carries_metrics [OF other(3)] by simp
qed

text \<open>
  C12. Metrics leave the service only through the two API routes, and only for a request that
  carries the configured token or the cookie of a live session, or when neither a token nor
  sign-in is configured; any other request to these paths, whatever its method, gets an empty 401.
\<close>

theorem metrics_need_authorisation:
  assumes "serve w c x rq st = (Some r, st')"
  shows "(carries_metrics (rs_body r) \<longrightarrow>
      authorised (clk (wd_env x) 0) rq st \<and> (\<exists>e. route (rq_method rq) (rq_path rq) = Inr e \<and> api_endpoint e))
    \<and> (api_path (rq_path rq) \<longrightarrow>
        \<not> authorised (clk (wd_env x) 0) rq st \<longrightarrow> r = security_headers (response UNAUTHORIZED EmptyBody))
    \<and> (\<forall>e. route (rq_method rq) (rq_path rq) = Inr e \<longrightarrow> api_endpoint e \<longrightarrow> api_path (rq_path rq))"
proof (intro conjI impI allI)
  assume api: "api_path (rq_path rq)" "\<not> authorised (clk (wd_env x) 0) rq st"
  from assms show "r = security_headers (response UNAUTHORIZED EmptyBody)"
    by (cases rule: serve_Some) (use api routed_api in \<open>auto dest: gated_response\<close>)
qed (simp_all add: served_metrics [OF assms] routed_api)

text \<open>A service with a token, and requests to it.\<close>

definition ex_app :: "nat app_state" where
  "ex_app = \<lparr>ap_snapshot = None, ap_token = Some (Secret ''0123456789abcdef''), ap_auth = None, ap_store = ex_open\<rparr>"

definition ex_request :: "string \<Rightarrow> string \<Rightarrow> nat request" where
  "ex_request path token =
     \<lparr>rq_method = GET, rq_path = path, rq_authorization = Some (''Bearer '' @ token), rq_jar = Map.empty,
      rq_code = None, rq_credential = Inl BAD_REQUEST, rq_series = Inl BAD_REQUEST\<rparr>"

definition ex_world :: world where
  "ex_world = \<lparr>wd_env = ex_env 1 1, wd_sql = all_ok, wd_joined = True\<rparr>"

lemma ex_served:
  "fst (serve ex_w ex_c ex_world (ex_request ''/api/status'' ''0123456789abcdef'') ex_app) =
     Some (security_headers (response OK (SnapshotJson None)))"
  by code_simp

theorem metrics_need_authorisation_witness:
  "authorised (clk (wd_env ex_world) 0) (ex_request ''/api/status'' ''0123456789abcdef'') ex_app"
proof -
  obtain r st where "serve ex_w ex_c ex_world (ex_request ''/api/status'' ''0123456789abcdef'') ex_app = (Some r, st)"
    and "carries_metrics (rs_body r)"
    using ex_served by (cases "serve ex_w ex_c ex_world (ex_request ''/api/status'' ''0123456789abcdef'') ex_app")
      (auto simp: carries_metrics_def response_def)
  with metrics_need_authorisation [OF this(1)] show ?thesis by blast
qed

text \<open>
  A token with a character outside visible ASCII passes the length check of the configuration,
  which counts bytes, but no request can ever present it: the header is read as visible ASCII only.
  Eight letters of two bytes are such a token.
\<close>

theorem accented_token_locks_out:
  "(\<not> visible_ascii (expose t) \<longrightarrow> \<not> bearer_ok t header)
   \<and> (case load (ex_parsers [(''web'', TTable [(''token'', TString (concat (replicate 8 [CHR 0xC3, CHR 0xA9])))])])
             (ex_load_env None) of
        Inr cfg \<Rightarrow> cf_web_token cfg = Some (Secret (concat (replicate 8 [CHR 0xC3, CHR 0xA9])))
      | Inl _ \<Rightarrow> False)
   \<and> \<not> visible_ascii (concat (replicate 8 [CHR 0xC3, CHR 0xA9]))"
proof -
  have "\<not> bearer_ok t header" if "\<not> visible_ascii (expose t)"
  proof
    assume "bearer_ok t header"
    then have "visible_ascii (''Bearer '' @ expose t)"
      by (auto simp: bearer_ok_def to_str_def strip_prefix_Some split: option.splits bind_splits if_splits)
    with that show False by (simp add: visible_ascii_def)
  qed
  moreover have "case load (ex_parsers [(''web'', TTable [(''token'', TString (concat (replicate 8 [CHR 0xC3, CHR 0xA9])))])])
             (ex_load_env None) of
        Inr cfg \<Rightarrow> cf_web_token cfg = Some (Secret (concat (replicate 8 [CHR 0xC3, CHR 0xA9])))
      | Inl _ \<Rightarrow> False"
    by code_simp
  moreover have "\<not> visible_ascii (concat (replicate 8 [CHR 0xC3, CHR 0xA9]))" by code_simp
  ultimately show ?thesis by blast
qed

theorem accented_token_locks_out_witness:
  "\<not> bearer_ok (Secret [CHR 0xC3, CHR 0xA9]) (Some (''Bearer '' @ [CHR 0xC3, CHR 0xA9]))"
proof -
  have "\<not> visible_ascii (expose (Secret [CHR 0xC3, CHR 0xA9]))" by code_simp
  with accented_token_locks_out show ?thesis by blast
qed

section \<open>Health\<close>

text \<open>
  The health check answers OK exactly when there is a snapshot that is not older than its limit
  and Docker answered for it; every other state is 503.
\<close>

theorem healthz_is_honest:
  "fst (healthz now1 now2 snap) =
     (if \<exists>s. snap = Some s \<and> unat (now_secs now1) - unat (sn_ts s) \<le> unat (sn_stale_after_secs s)
           \<and> sn_docker_error s = None
      then OK else SERVICE_UNAVAILABLE)"
  by (auto simp: healthz_def age_secs_def word_less_nat_alt unat_sat_sub_u64 split: option.splits)

section \<open>Queries\<close>

lemma series_of_points:
  assumes "db_ok (st_db s)" and "fst (series_of ok m from to res MAX_POINTS s) = Ok y"
  shows "length (y_t y) \<le> 20000 \<and> (\<forall>t\<in>set (y_t y). from \<le> t \<and> t \<le> to)"
proof (cases "y = empty_series")
  case False
  have "as_i64 MAX_POINTS = 20000" by (simp add: MAX_POINTS_def as_i64_def)
  moreover have sorted: "sorted_table (rows (st_db s))" using assms(1) by (simp add: db_ok_def table_ok_def)
  ultimately obtain i where y: "y_t y = map (\<lambda>(k, _). k_ts k) (query_rows (st_db s) i res from to 20000)"
    using assms(2) False by (auto simp: series_of_defs Let_def split: option.splits if_splits)
  moreover have "query_rows (st_db s) i res from to 20000 = take 20000 (in_range (st_db s) i res from to)"
    using query_rows_exact(1) [OF sorted _ refl, of 20000 i res "from" to] by simp
  ultimately show ?thesis
    by (auto simp: in_range_def select_def dest: in_set_takeD)
qed (simp add: empty_series_def)

text \<open>
  C27. A query fails with 400 exactly for a reversed range or a resolution that is not a tier, for
  every pair of 64-bit bounds and without overflow; a result has one of the three tiers, at most
  20000 points, and every point inside the range.
\<close>

theorem queries_are_bounded:
  assumes "db_ok (st_db s)"
  shows "(case series_points ok joined q s of
      Inl (c, _) \<Rightarrow> (c = BAD_REQUEST) =
        (sq_to q < sq_from q \<or> (\<exists>r. sq_res q = Some r \<and> r \<notin> {15, 300, 3600}))
    | Inr (res, y) \<Rightarrow> is_valid_res res \<and> sq_from q \<le> sq_to q \<and> length (y_t y) \<le> 20000
        \<and> (\<forall>t\<in>set (y_t y). sq_from q \<le> t \<and> t \<le> sq_to q))
    \<and> in_i64 (sat_sub_i64 (sq_to q) (sq_from q))"
proof -
  let ?res = "case sq_res q of None \<Rightarrow> Some (pick_res (sat_sub_i64 (sq_to q) (sq_from q)))
      | Some r \<Rightarrow> if is_valid_res r then Some r else None"
  have valid: "is_valid_res (pick_res n)" for n
    by (simp add: pick_res_def is_valid_res_def RAW_def FIVE_MIN_def HOUR_def)
  have tiers: "is_valid_res r \<longleftrightarrow> r \<in> {15, 300, 3600}" for r
    by (auto simp: is_valid_res_def RAW_def FIVE_MIN_def HOUR_def)
  have "case series_points ok joined q s of
      Inl (c, _) \<Rightarrow> (c = BAD_REQUEST) =
        (sq_to q < sq_from q \<or> (\<exists>r. sq_res q = Some r \<and> r \<notin> {15, 300, 3600}))
    | Inr (res, y) \<Rightarrow> is_valid_res res \<and> sq_from q \<le> sq_to q \<and> length (y_t y) \<le> 20000
        \<and> (\<forall>t\<in>set (y_t y). sq_from q \<le> t \<and> t \<le> sq_to q)"
  proof (cases "sq_to q < sq_from q")
    case False
    show ?thesis
    proof (cases "?res")
      case None
      then have "\<exists>r. sq_res q = Some r \<and> r \<notin> {15, 300, 3600}"
        by (simp add: tiers split: option.splits if_splits)
      with None False show ?thesis by (simp add: series_points_def Let_def)
    next
      case (Some res)
      then have "\<not> (\<exists>r. sq_res q = Some r \<and> r \<notin> {15, 300, 3600})" and "is_valid_res res"
        using valid by (auto simp: tiers split: option.splits if_splits)
      with Some False show ?thesis
        using series_of_points [OF assms, of ok "sq_metric q" "sq_from q" "sq_to q" res]
        by (auto simp: series_points_def Let_def split: outcome.splits)
    qed
  qed (simp add: series_points_def)
  then show ?thesis using sat_sub_i64_range by blast
qed

theorem queries_are_bounded_witness:
  "case series_points all_ok True \<lparr>sq_metric = ''a'', sq_from = i64_min, sq_to = i64_max, sq_res = None\<rparr>
        (run_store [W 300 [(''a'', Finite 1)]] ex_open) of
     Inl (c, _) \<Rightarrow> c \<noteq> BAD_REQUEST | Inr (res, y) \<Rightarrow> length (y_t y) \<le> 20000"
  using queries_are_bounded [OF run_store_db_ok [of "[W 300 [(''a'', Finite 1)]]"],
      where ok = all_ok and joined = True and q = "\<lparr>sq_metric = ''a'', sq_from = i64_min, sq_to = i64_max, sq_res = None\<rparr>"]
  by (auto simp: i64_min_def i64_max_def split: sum.splits)

section \<open>Headers\<close>

text \<open>
  Every response, errors and unknown paths included, carries the hardening headers: no external origin, no framing, no caching.
\<close>

theorem every_response_is_hardened:
  "case fst (serve w c x rq st) of
     Some r \<Rightarrow> hget (rs_headers r) ''x-frame-options'' = Some ''DENY''
       \<and> hget (rs_headers r) ''cache-control'' = Some ''no-store, private''
       \<and> hget (rs_headers r) ''x-content-type-options'' = Some ''nosniff''
       \<and> hget (rs_headers r) ''content-security-policy'' = Some CSP
       \<and> hget (rs_headers r) ''vary'' = Some ''Cookie''
       \<and> hget (rs_headers r) ''referrer-policy'' = Some ''no-referrer''
   | None \<Rightarrow> True"
proof (cases "fst (serve w c x rq st)")
  case (Some r)
  then obtain r' where "r = security_headers r'"
    by (auto simp: serve_def split: prod.splits)
  with Some show ?thesis by (simp add: security_headers_def hget_hinsert)
qed simp

end
