(* ===== verification/System.thy ===== *)
theory System
  imports Service Web_Props
begin

text \<open>
  The running service: requests, the turns of the collector (a publication and, later, the write to
  the store), of the compactor and of the sweeper, in any order and with any faults. Its parts are
  the machines of the components: every reachable state of the system has a reachable store and a
  reachable authentication state.
\<close>

record 'w system =
  sy_app :: "'w app_state"
  sy_collector :: collector
  sy_pending :: "snapshot option"

text \<open>
  A start that \<open>run\<close> reports as successful, from a credential file that can be examined and a
  history file that is sound or of another version. \<open>w\<close> is the relying party when sign-in is
  configured, \<open>ids\<close> are the credentials then on the disk, \<open>code\<close> the one-time code that is drawn.
\<close>

definition boot_ok :: "'w webauthn \<Rightarrow> 'w codec \<Rightarrow> (i64 list \<Rightarrow> i64) \<Rightarrow> 'w boot \<Rightarrow> bool" where
  "boot_ok w c f b \<longleftrightarrow>
     wa_ok w \<and> codec_ok c \<and> bt_codec b = c \<and> rowid_ok f \<and> file_ok (bt_db b)
     \<and> stat_ok (bt_env b) \<and> wf_fs (bt_fs b)"

definition sys_init ::
  "'w webauthn \<Rightarrow> 'w codec \<Rightarrow> (i64 list \<Rightarrow> i64) \<Rightarrow> config \<Rightarrow> string \<Rightarrow> 'w list \<Rightarrow> 'w system \<Rightarrow> bool" where
  "sys_init w c f cfg code ids s \<longleftrightarrow>
     (\<exists>b wo app. startup b = Inr (cfg, wo, app) \<and> boot_ok w c f b
        \<and> (wo = None \<or> wo = Some w)
        \<and> (\<forall>a. ap_auth app = Some a \<longrightarrow> map (cred_id w) (passkeys (inner (a_store a))) = ids)
        \<and> distinct ids \<and> code = hex32 (boot_rand (bt_env b))
        \<and> s = \<lparr>sy_app = app, sy_collector = new_collector, sy_pending = None\<rparr>)"

inductive sys_step ::
  "'w webauthn \<Rightarrow> 'w codec \<Rightarrow> (i64 list \<Rightarrow> i64) \<Rightarrow> config \<Rightarrow> 'w system \<Rightarrow> 'w system \<Rightarrow> bool"
  for w :: "'w webauthn" and c :: "'w codec" and f :: "i64 list \<Rightarrow> i64" and cfg :: config where
  sys_request:
    "env_ok (wd_env x) \<Longrightarrow> serve w c x rq (sy_app s) = (r, app) \<Longrightarrow> sys_step w c f cfg s (s\<lparr>sy_app := app\<rparr>)"
| sys_rehash:
    "ap_auth (sy_app s) = Some a \<Longrightarrow> permuted a a' \<Longrightarrow>
     sys_step w c f cfg s (s\<lparr>sy_app := (sy_app s)\<lparr>ap_auth := Some a'\<rparr>\<rparr>)"
| sys_collect:
    "sy_pending s = None \<Longrightarrow> take_snapshot (cf_interval cfg) t (sy_collector s) = (snap, cl) \<Longrightarrow>
     sys_step w c f cfg s \<lparr>sy_app = publish snap (sy_app s), sy_collector = cl, sy_pending = Some snap\<rparr>"
| sys_write:
    "sy_pending s = Some snap \<Longrightarrow>
     sys_step w c f cfg s (s\<lparr>sy_app := record_points ok f snap (sy_app s), sy_pending := None\<rparr>)"
| sys_compact: "sys_step w c f cfg s (s\<lparr>sy_app := compactor_turn now ok (sy_app s)\<rparr>)"
| sys_sweep: "sys_step w c f cfg s (s\<lparr>sy_app := sweeper_turn now (sy_app s)\<rparr>)"

abbreviation sys_reachable ::
  "'w webauthn \<Rightarrow> 'w codec \<Rightarrow> (i64 list \<Rightarrow> i64) \<Rightarrow> config \<Rightarrow> string \<Rightarrow> 'w list \<Rightarrow> 'w system \<Rightarrow> bool" where
  "sys_reachable w c f cfg code ids s \<equiv> reachable (sys_init w c f cfg code ids) (sys_step w c f cfg) s"

section \<open>What a request does to the parts\<close>

text \<open>Nothing, or one action of the authentication machine.\<close>

definition acts :: "'w webauthn \<Rightarrow> 'w codec \<Rightarrow> 'w auth_state option \<Rightarrow> 'w auth_state option \<Rightarrow> bool" where
  "acts w c u v \<longleftrightarrow>
     u = v \<or> (\<exists>a a' act ok. u = Some a \<and> v = Some a' \<and> action_ok act \<and> exec w c act a = (ok, a'))"

lemma acts_refl [simp]: "acts w c u u"
  by (simp add: acts_def)

lemma acts_check:
  fixes a :: "'w auth_state"
  assumes "clean a"
  shows "acts w c (Some a) (Some (drop_expired now jar a))"
proof -
  have "exec w c (CheckSession now jar) a = (live_session now jar a, drop_expired now jar a)"
    using assms by (simp add: session_valid_eq)
  then show ?thesis unfolding acts_def by (metis action_ok.simps(6))
qed

lemma acts_on_auth:
  assumes "\<And>a. exec w c act a = map_prod is_ok id (h a)" and "action_ok act"
  shows "acts w c u (snd (on_auth h u))"
proof (cases u)
  case (Some a)
  obtain r a' where "h a = (r, a')" by (metis surj_pair)
  with Some assms show ?thesis by (fastforce simp: on_auth_def acts_def)
qed (simp add: on_auth_def)

lemma run_auth_ap: "ap_auth (snd (run_auth h g st)) = snd (h (ap_auth st))"
  "ap_store (snd (run_auth h g st)) = ap_store st" "ap_token (snd (run_auth h g st)) = ap_token st"
  by (simp_all add: run_auth_def split: prod.split)

lemma acts_pages:
  assumes "\<And>a. u = Some a \<Longrightarrow> clean a"
  shows "acts w c u (snd (index now jar u))" and "acts w c u (snd (auth_status now jar u))"
    and "acts w c u (snd (logout jar u))"
proof -
  show "acts w c u (snd (index now jar u))"
    using assms acts_check
    by (cases u) (auto simp: index_def lift_auth_def bind_def ret_def session_valid_eq)
  show "acts w c u (snd (auth_status now jar u))"
    using assms acts_check
    by (cases u) (auto simp: auth_status_def lift_auth_def bind_def ret_def session_valid_eq)
  show "acts w c u (snd (logout jar u))"
  proof (cases u)
    case None
    then show ?thesis by (simp add: logout_def split: option.split)
  next
    case (Some a)
    let ?b = "case jar SESSION_COOKIE of None \<Rightarrow> a
      | Some tok \<Rightarrow> a\<lparr>a_sessions := put (hremove tok (inner (a_sessions a))) (a_sessions a)\<rparr>"
    have "exec w c (Logout jar) a = (True, ?b)"
      using assms [OF Some] by (simp add: logout_eq)
    then have "acts w c (Some a) (Some ?b)" unfolding acts_def by (metis action_ok.simps(5))
    then show ?thesis using assms [OF Some] by (simp add: Some logout_eq)
  qed
qed

lemma gate_acts:
  assumes "\<And>a. u = Some a \<Longrightarrow> clean a"
  shows "acts w c u (snd (require_api_auth now token header jar u))"
  using assms acts_check
  by (cases u) (auto simp: require_api_auth_def session_valid_eq split: option.split)

lemma gated_parts:
  assumes "\<And>a. ap_auth st = Some a \<Longrightarrow> clean a"
  shows "ap_store (snd (gated x rq k st)) = ap_store st \<and> ap_token (snd (gated x rq k st)) = ap_token st
    \<and> acts w c (ap_auth st) (ap_auth (snd (gated x rq k st)))"
proof -
  let ?g = "require_api_auth (clk (wd_env x) 0) (ap_token st) (rq_authorization rq) (rq_jar rq) (ap_auth st)"
  have "acts w c (ap_auth st) (snd ?g)" by (rule gate_acts [OF assms])
  then show ?thesis by (cases ?g) (auto simp: gated_def split: outcome.split bool.split)
qed

lemma endpoint_parts:
  assumes "env_ok (wd_env x)" and "\<And>a. ap_auth st = Some a \<Longrightarrow> clean a"
    and "endpoint_response w c x rq e st = (r, st')"
  shows "ap_store st' = ap_store st \<and> ap_token st' = ap_token st \<and> acts w c (ap_auth st) (ap_auth st')"
proof -
  let ?e = "wd_env x" and ?jar = "rq_jar rq"
  have start: "acts w c u (snd (on_auth (register_start w ?e ?jar body) u))" for u body
    by (rule acts_on_auth [of _ _ "RegStart ?e ?jar body"]) (simp_all add: assms(1))
  have finish: "acts w c u (snd (on_auth (register_finish w c ?e ?jar cred) u))" for u cred
    by (rule acts_on_auth [of _ _ "RegFinish ?e ?jar cred"]) (simp_all add: assms(1))
  have login: "acts w c u (snd (on_auth (login_start w ?e) u))" for u
    by (rule acts_on_auth [of _ _ "LoginStart ?e"]) (simp_all add: assms(1))
  have sign: "acts w c u (snd (on_auth (login_finish w c ?e ?jar cred) u))" for u cred
    by (rule acts_on_auth [of _ _ "LoginFinish ?e ?jar cred"]) (simp_all add: assms(1))
  note pages = acts_pages [OF assms(2), of "ap_auth st"]
  have "st' = snd (endpoint_response w c x rq e st)" using assms(3) by simp
  moreover have "ap_store (snd (endpoint_response w c x rq e st)) = ap_store st"
    "ap_token (snd (endpoint_response w c x rq e st)) = ap_token st"
    by (cases e; auto simp: endpoint_response_def gated_def Let_def run_auth_ap split: sum.split prod.split outcome.split bool.split)+
  moreover have "acts w c (ap_auth st) (ap_auth (snd (endpoint_response w c x rq e st)))"
  proof (cases "api_endpoint e")
    case True
    then have "endpoint_response w c x rq e st = gated x rq (api_response x rq e) st"
      by (auto simp: endpoint_response_def api_endpoint_def Let_def)
    with gated_parts [OF assms(2)] show ?thesis by simp
  next
    case False
    then show ?thesis
      by (cases e)
        (auto simp: endpoint_response_def api_endpoint_def Let_def run_auth_ap start finish login sign pages
          split: sum.split prod.split)
  qed
  ultimately show ?thesis by simp
qed

lemma serve_parts:
  assumes "env_ok (wd_env x)" and "\<And>a. ap_auth st = Some a \<Longrightarrow> clean a" and "serve w c x rq st = (r, st')"
  shows "ap_store st' = ap_store st \<and> ap_token st' = ap_token st \<and> acts w c (ap_auth st) (ap_auth st')"
  using assms(3) endpoint_parts [OF assms(1,2)] gated_parts [OF assms(2)]
  by (fastforce simp: serve_def prod_eq_iff split: sum.splits prod.splits if_splits)

section \<open>The invariant of the system\<close>

text \<open>
  The store and the authentication state are reachable in their own machines; the token is the
  configured one and not short, sign-in is on or off as at the start, and when both are missing the address is
  the loopback.
\<close>

definition exposed_safely :: "config \<Rightarrow> 'w app_state \<Rightarrow> bool" where
  "exposed_safely cfg app \<longleftrightarrow>
     ap_token app = cf_web_token cfg
     \<and> (\<forall>t. ap_token app = Some t \<longrightarrow> MIN_TOKEN_LEN \<le> length (expose t))
     \<and> (ap_auth app = None \<longrightarrow> ap_token app = None \<longrightarrow> is_loopback (sa_ip (cf_web_bind cfg)))"

definition auth_part :: "'w webauthn \<Rightarrow> 'w codec \<Rightarrow> string \<Rightarrow> 'w list \<Rightarrow> 'w auth_state option \<Rightarrow> bool" where
  "auth_part w c code ids u \<longleftrightarrow> (\<forall>a. u = Some a \<longrightarrow> (\<exists>h. auth_reachable w c code ids h a))"

definition sys_inv ::
  "'w webauthn \<Rightarrow> 'w codec \<Rightarrow> (i64 list \<Rightarrow> i64) \<Rightarrow> config \<Rightarrow> string \<Rightarrow> 'w list \<Rightarrow> 'w system \<Rightarrow> bool" where
  "sys_inv w c f cfg code ids s \<longleftrightarrow>
     exposed_safely cfg (sy_app s) \<and> auth_part w c code ids (ap_auth (sy_app s))
     \<and> reachable (store_init f) (store_step f) (ap_store (sy_app s))"

lemma auth_part_clean: "auth_part w c code ids u \<Longrightarrow> u = Some a \<Longrightarrow> clean a"
  using reachable_inv auth_inv_clean unfolding auth_part_def by blast

lemma auth_part_acts: "auth_part w c code ids u \<Longrightarrow> acts w c u v \<Longrightarrow> auth_part w c code ids v"
  unfolding auth_part_def acts_def by (metis option.inject reachable_step request)

lemma acts_None [simp]: "\<not> acts w c (Some a) None" "acts w c None v \<longleftrightarrow> v = None"
  by (auto simp: acts_def)

lemma setup_auth_part:
  assumes "setup_auth b cfg = Inr u" and "boot_ok w c f b" and "u = None \<or> map_option fst u = Some w"
    and "\<forall>a. map_option snd u = Some a \<longrightarrow> map (cred_id w) (passkeys (inner (a_store a))) = ids" and "distinct ids"
  shows "auth_part w c (hex32 (boot_rand (bt_env b))) ids (map_option snd u)"
proof (cases u)
  case (Some wa)
  obtain a where wa: "wa = (w, a)" using assms(3) Some by (cases wa) auto
  from assms(1) obtain rp_id origin where
    "auth_new (bt_platform b) (bt_codec b) (bt_env b) (bt_fs b) rp_id origin (cf_data_dir cfg) = Inr (w, a)"
    by (auto simp: setup_auth_def Some wa bind_sum_Inr_iff split: option.splits)
  then obtain st where "load_store (bt_codec b) (bt_env b) (bt_fs b) (path_join (cf_data_dir cfg) ''auth.json'') = Inr st"
    and "a = fresh_auth_state (bt_env b) (bt_fs b) (path_join (cf_data_dir cfg) ''auth.json'') st"
    by (auto simp: auth_new_def Let_def split: sum.splits if_splits)
  moreover from this(2) assms(4) have "map (cred_id w) (passkeys st) = ids"
    by (simp add: Some wa fresh_auth_state_def)
  ultimately have "auth_init w c (hex32 (boot_rand (bt_env b))) ids ([], a)"
    using assms(2,5) unfolding auth_init_def boot_ok_def by auto
  then show ?thesis by (auto simp: auth_part_def Some wa intro: reachable_init)
qed (simp add: auth_part_def)

lemma startup_Inr:
  assumes "startup b = Inr (cfg, wo, app)"
  obtains u st where "setup_auth b cfg = Inr u" and "check_exposure cfg (u \<noteq> None) = Inr ()"
    and "open_store (bt_sql b) (bt_db b) = Inr st" and "wo = map_option fst u" and "app = app_of cfg u st"
    and "load (bt_parsers b) (bt_load b) = Inr cfg"
  using assms by (auto simp: startup_def bind_sum_Inr_iff)

lemma sys_init_inv: "sys_init w c f cfg code ids s \<Longrightarrow> sys_inv w c f cfg code ids s"
proof -
  assume "sys_init w c f cfg code ids s"
  then obtain b wo app where start: "startup b = Inr (cfg, wo, app)" and b: "boot_ok w c f b"
    and w: "wo = None \<or> wo = Some w"
    and ids: "\<forall>a. ap_auth app = Some a \<longrightarrow> map (cred_id w) (passkeys (inner (a_store a))) = ids" "distinct ids"
    and code: "code = hex32 (boot_rand (bt_env b))" and s: "sy_app s = app"
    by (auto simp: sys_init_def)
  from start obtain u st where parts: "setup_auth b cfg = Inr u" "check_exposure cfg (u \<noteq> None) = Inr ()"
    "open_store (bt_sql b) (bt_db b) = Inr st" "wo = map_option fst u" "app = app_of cfg u st"
    and load: "load (bt_parsers b) (bt_load b) = Inr cfg"
    by (rule startup_Inr)
  have "MIN_TOKEN_LEN \<le> length (expose t)" if "cf_web_token cfg = Some t" for t
    using load that by (auto simp: load_Inr_iff)
  then have "exposed_safely cfg app"
    using parts(2,5) by (auto simp: exposed_safely_def app_of_def check_exposure_def split: if_splits)
  moreover have "auth_part w c code ids (ap_auth app)"
    using setup_auth_part [OF parts(1) b _ _ ids(2)] w ids(1) parts(4,5) by (auto simp: app_of_def code)
  moreover have "store_init f (ap_store app)"
    using b parts(3,5) by (auto simp: store_init_def boot_ok_def app_of_def)
  ultimately show ?thesis using s by (simp add: sys_inv_def reachable_init)
qed

lemma sys_step_inv:
  assumes "sys_step w c f cfg s t" and "sys_inv w c f cfg code ids s"
  shows "sys_inv w c f cfg code ids t"
  using assms
proof (cases rule: sys_step.cases)
  case (sys_request x rq r app)
  have clean: "ap_auth (sy_app s) = Some a \<Longrightarrow> clean a" for a
    using assms(2) auth_part_clean unfolding sys_inv_def by blast
  from serve_parts [OF sys_request(2) clean sys_request(3)] assms(2) sys_request(1)
  show ?thesis
    by (auto simp: sys_inv_def exposed_safely_def intro: auth_part_acts)
next
  case (sys_rehash a a')
  have "auth_part w c code ids (Some a')"
    using assms(2) sys_rehash(2,3) unfolding sys_inv_def auth_part_def
    by (metis option.inject reachable_step rehash)
  with assms(2) sys_rehash show ?thesis by (simp add: sys_inv_def exposed_safely_def)
next
  case (sys_collect tn snap cl)
  with assms(2) show ?thesis by (simp add: sys_inv_def exposed_safely_def publish_def)
next
  case (sys_write snap ok)
  have "store_step f (ap_store (sy_app s)) (ap_store (record_points ok f snap (sy_app s)))"
    by (simp add: record_points_def store_step.intros(1))
  with assms(2) sys_write show ?thesis
    by (auto simp: sys_inv_def exposed_safely_def record_points_def intro: reachable_step)
next
  case (sys_compact now ok)
  have "store_step f (ap_store (sy_app s)) (ap_store (compactor_turn now ok (sy_app s)))"
    by (simp add: compactor_turn_def store_step.intros(2))
  with assms(2) sys_compact show ?thesis
    by (auto simp: sys_inv_def exposed_safely_def compactor_turn_def intro: reachable_step)
next
  case (sys_sweep now)
  have "acts w c (ap_auth (sy_app s)) (ap_auth (sweeper_turn now (sy_app s)))"
  proof (cases "ap_auth (sy_app s)")
    case (Some a)
    have "exec w c (Sweep now) a = (True, sweep now a)" by simp
    then show ?thesis unfolding acts_def sweeper_turn_def using Some by (auto intro!: exI [of _ "Sweep now"])
  qed (simp add: sweeper_turn_def)
  with assms(2) sys_sweep show ?thesis
    by (auto simp: sys_inv_def exposed_safely_def sweeper_turn_def intro: auth_part_acts)
qed

interpretation sys: invariant_of "sys_init w c f cfg code ids" "sys_step w c f cfg" "sys_inv w c f cfg code ids"
  for w :: "'w webauthn" and c :: "'w codec" and f :: "i64 list \<Rightarrow> i64" and cfg :: config
    and code :: string and ids :: "'w list"
  by unfold_locales (auto intro: sys_init_inv sys_step_inv)

end
