(* ===== verification/System_Example.thy ===== *)
theory System_Example
  imports System Auth_Example Store_Props
begin

text \<open>
  Concrete starts of the service, with sign-in and without, and the running systems they give.
\<close>

text \<open>A boot with sign-in configured, and one on the loopback with nothing configured.\<close>

definition ex_platform :: "nat platform" where
  "ex_platform = \<lparr>parse_url = (\<lambda>_. Inr 0), build_webauthn = (\<lambda>_ _. Inr ex_w)\<rparr>"

definition ex_service :: "table \<Rightarrow> nat boot" where
  "ex_service web =
     \<lparr>bt_parsers = ex_parsers [(''web'', TTable web)], bt_load = ex_load_env None, bt_data_dir_ok = True,
      bt_platform = ex_platform, bt_codec = ex_c, bt_env = ex_boot, bt_fs = empty_fs,
      bt_sql = all_ok, bt_db = empty_db, bt_listen = True\<rparr>"

definition ex_sign_in_web :: table where
  "ex_sign_in_web =
     [(''bind'', TString ''0.0.0.0:80''), (''rp_id'', TString ''h''), (''rp_origin'', TString ''https://h''),
      (''data_dir'', TString ''/data'')]"

definition ex_cfg :: "string option \<Rightarrow> int list \<Rightarrow> int \<Rightarrow> config" where
  "ex_cfg rp ip port =
     \<lparr>cf_interval = from_secs 15, cf_web_bind = \<lparr>sa_ip = V4 ip, sa_port = port\<rparr>, cf_web_token = None,
      cf_rp_id = rp, cf_rp_origin = map_option (\<lambda>h. ''https://'' @ h) rp,
      cf_data_dir = (if rp = None then ''/var/lib/vitals'' else ''/data''),
      cf_docker_socket = ''/var/run/docker.sock''\<rparr>"

lemma ex_loaded:
  "load (bt_parsers (ex_service ex_sign_in_web)) (bt_load (ex_service ex_sign_in_web)) = Inr (ex_cfg (Some ''h'') [0, 0, 0, 0] 80)"
  "load (bt_parsers (ex_service [])) (bt_load (ex_service [])) = Inr (ex_cfg None [127, 0, 0, 1] 9110)"
  by code_simp+

lemma ex_open_bt: "open_store (bt_sql (ex_service web)) (bt_db (ex_service web)) = Inr ex_open"
  by (simp add: ex_service_def ex_open)

definition ex_auth_app :: "nat app_state" where
  "ex_auth_app = app_of (ex_cfg (Some ''h'') [0, 0, 0, 0] 80) (Some (ex_w, snd ex_start)) ex_open"

definition ex_open_app :: "nat app_state" where
  "ex_open_app = app_of (ex_cfg None [127, 0, 0, 1] 9110) None ex_open"

lemma ex_setup_auth:
  "setup_auth (ex_service ex_sign_in_web) (ex_cfg (Some ''h'') [0, 0, 0, 0] 80) = Inr (Some (ex_w, snd ex_start))"
proof -
  have "load_store ex_c ex_boot empty_fs p = Inr default_store" for p
    by (simp add: load_store_def path_exists_def empty_fs_def)
  moreover have "mkdir_ok ex_boot" by (simp add: ex_boot_def)
  ultimately show ?thesis
    by (simp add: setup_auth_def ex_cfg_def ex_service_def ex_platform_def auth_new_def ex_start_def
        ex_path_def bind_sum_def Let_def)
qed

lemma ex_startup:
  "startup (ex_service ex_sign_in_web) = Inr (ex_cfg (Some ''h'') [0, 0, 0, 0] 80, Some ex_w, ex_auth_app)"
  "startup (ex_service []) = Inr (ex_cfg None [127, 0, 0, 1] 9110, None, ex_open_app)"
  by (simp_all add: startup_def ex_loaded ex_setup_auth ex_open_bt bind_sum_def check_exposure_def
      ex_auth_app_def ex_open_app_def)
    (simp_all add: ex_service_def ex_cfg_def setup_auth_def is_loopback_def)

lemma ex_boot_ok: "boot_ok ex_w ex_c next_rowid (ex_service web)"
proof -
  have "file_ok empty_db" by (simp add: file_ok_def empty_db_def SCHEMA_VERSION_def)
  then show ?thesis
    by (simp add: boot_ok_def ex_service_def ex_w_ok ex_c_ok next_rowid_ok ex_boot_def wf_fs_def empty_fs_def)
qed

definition ex_system :: "nat app_state \<Rightarrow> nat system" where
  "ex_system app = \<lparr>sy_app = app, sy_collector = new_collector, sy_pending = None\<rparr>"

lemma ex_sys_init:
  "sys_reachable ex_w ex_c next_rowid (ex_cfg (Some ''h'') [0, 0, 0, 0] 80) ex_code [] (ex_system ex_auth_app)"
  "sys_reachable ex_w ex_c next_rowid (ex_cfg None [127, 0, 0, 1] 9110) ex_code [] (ex_system ex_open_app)"
proof -
  have code: "ex_code = hex32 (boot_rand (bt_env (ex_service web)))" for web
    by (simp add: ex_code_def ex_service_def ex_boot_def)
  have "sys_init ex_w ex_c next_rowid (ex_cfg (Some ''h'') [0, 0, 0, 0] 80) ex_code [] (ex_system ex_auth_app)"
    unfolding sys_init_def using ex_startup(1) ex_boot_ok code
    by (intro exI conjI)
      (assumption | auto simp: ex_system_def ex_auth_app_def app_of_def ex_start_def fresh_auth_state_def default_store_def)+
  then show "sys_reachable ex_w ex_c next_rowid (ex_cfg (Some ''h'') [0, 0, 0, 0] 80) ex_code [] (ex_system ex_auth_app)"
    by (rule reachable_init)
  have "sys_init ex_w ex_c next_rowid (ex_cfg None [127, 0, 0, 1] 9110) ex_code [] (ex_system ex_open_app)"
    unfolding sys_init_def using ex_startup(2) ex_boot_ok code
    by (intro exI conjI) (assumption | auto simp: ex_system_def ex_open_app_def app_of_def)+
  then show "sys_reachable ex_w ex_c next_rowid (ex_cfg None [127, 0, 0, 1] 9110) ex_code [] (ex_system ex_open_app)"
    by (rule reachable_init)
qed

end
