(* ===== verification/Auth_Props.thy ===== *)
theory Auth_Props
  imports Auth_Example
begin

text \<open>
  The properties of the authentication service, over every state its machine can reach. Each
  with a hypothesis is followed by a theorem that applies it to a run of \<open>Auth_Example\<close>.
\<close>

lemmas reach = reachable_inv reachable_prov

lemma ex_reach_claim: "auth_reachable ex_w ex_c ex_code [] (ex_h ex_claim) (ex_a ex_claim)"
  by (rule ex_reachable) simp

lemma ex_reach_sign_in:
  "auth_reachable ex_w ex_c ex_code [] (ex_h (ex_claim @ ex_sign_in)) (ex_a (ex_claim @ ex_sign_in))"
  by (rule ex_reachable) simp

section \<open>The account\<close>

lemma reload_disk:
  assumes "disk_has w c d p ids" and "stat_ok b" and "read_ok b"
  shows "\<exists>st. load_store c b d p = Inr st \<and> map (cred_id w) (passkeys st) = ids"
  using assms
  by (auto simp: disk_has_def load_store_def path_exists_def file_at_def default_store_def
      split: option.splits)

text \<open>
  Enrolment survives a restart: from the disk of any reachable state, \<open>new\<close> builds a service
  with the same credential ids, registered exactly when the old one was, whose enrolment code is
  drawn only if no credential exists.
\<close>

theorem enrolment_survives_restart:
  assumes "auth_reachable w c code ids h a" and "a_path a = path_join dir ''auth.json''"
    and "stat_ok b" and "read_ok b" and "mkdir_ok b"
    and "parse_url pf origin = Inr u" and "build_webauthn pf rp u = Inr w'"
  shows "\<exists>a'. auth_new pf c b (a_disk a) rp origin dir = Inr (w', a')
    \<and> cred_ids w a' = cred_ids w a \<and> registered a' = registered a
    \<and> bootstrap_token a' = (if creds a = [] then Some (hex32 (boot_rand b)) else None)"
proof -
  have inv: "auth_inv w c a" using reach(1) [OF assms(1)] by simp
  then have "disk_has w c (a_disk a) (a_path a) (cred_ids w a)"
    by (simp add: auth_inv_def disk_ok_def)
  from reload_disk [OF this assms(3,4)] obtain st where
    st: "load_store c b (a_disk a) (a_path a) = Inr st" "map (cred_id w) (passkeys st) = cred_ids w a"
    by blast
  have "passkeys st = [] \<longleftrightarrow> creds a = []" using st(2) by (simp add: cred_ids_def) (metis map_is_Nil_conv)
  moreover have "registered a \<longleftrightarrow> creds a \<noteq> []"
    using inv by (simp add: registered_def creds_def auth_inv_def clean_def)
  ultimately show ?thesis
    using st assms(2,5-)
    by (simp add: auth_new_def Let_def cred_ids_def creds_def fresh_auth_state_def registered_def
        bootstrap_token_def)
qed

definition ex_pf :: "nat platform" where
  "ex_pf = \<lparr>parse_url = (\<lambda>s. Inr 0), build_webauthn = (\<lambda>rp u. Inr ex_w)\<rparr>"

theorem enrolment_survives_restart_witness:
  "\<exists>a'. auth_new ex_pf ex_c ex_boot (a_disk (ex_a ex_claim)) ''localhost'' ''http://localhost'' ''/data''
      = Inr (ex_w, a') \<and> cred_ids ex_w a' = cred_ids ex_w (ex_a ex_claim)
    \<and> registered a' = registered (ex_a ex_claim)
    \<and> bootstrap_token a' = (if creds (ex_a ex_claim) = [] then Some (hex32 (boot_rand ex_boot)) else None)"
  by (rule enrolment_survives_restart [OF ex_reach_claim])
    (simp_all add: ex_path_run ex_path_def ex_boot_def ex_pf_def)

text \<open>
  The first credential needs the code: as long as no registration was started with it, the
  account has no credential.
\<close>

definition code_given :: "string \<Rightarrow> 'w history \<Rightarrow> bool" where
  "code_given code h \<longleftrightarrow> (\<exists>e jar body ok. (RegStart e jar body, ok) \<in> set h \<and> given_code body = code)"

lemma code_given_append [simp]: "code_given code (h @ h') \<longleftrightarrow> code_given code h \<or> code_given code h'"
  unfolding code_given_def set_append by blast

lemma register_start_creds:
  "clean a \<Longrightarrow> register_start w e jar body a = (r, a') \<Longrightarrow> creds a' = creds a"
  by (elim register_start_cases) (auto simp: creds_def)

lemma exec_unclaimed:
  assumes inv: "auth_inv w c a" "wa_ok w" "codec_ok c" and prov: "prov_inv w code ids h a"
    and "action_ok act" and run: "exec w c act a = (ok, a')"
    and none: "creds a = []" and some: "creds a' \<noteq> []"
  shows "code_given code h"
proof (cases act)
  case (RegFinish e jar cred)
  then obtain r where fin: "register_finish w c e jar cred a = (r, a')" and e: "env_ok e"
    using run assms(5) by (auto simp: map_prod_def split: prod.splits)
  show ?thesis
  proof (cases rule: register_finish_cases [OF inv(1,3) e fin, case_names refused enrolled])
    case refused
    with none some show ?thesis by (simp add: refused_def)
  next
    case (enrolled rid st m x pk)
    have entry: "(rid, st, m, x) \<in> set (inner (a_reg a))" using enrolled(3) by (rule hget_SomeD)
    with inv none have "m = Bootstrap"
      by (force simp: auth_inv_def unclaimed_ok_def only_bootstrap_def)
    with prov_regD [OF prov entry] show ?thesis
      unfolding reg_started_def code_given_def by blast
  qed
next
  case (LoginFinish e jar cred)
  then obtain r where fin: "login_finish w c e jar cred a = (r, a')" and e: "env_ok e"
    using run assms(5) by (auto simp: map_prod_def split: prod.splits)
  show ?thesis
    by (cases rule: login_finish_cases [OF inv(1,2,3) e fin])
      (use none some in \<open>auto simp: refused_def\<close>)
qed (use run none some auth_inv_clean [OF inv(1)] in
    \<open>auto simp: map_prod_def logout_eq session_valid_eq login_start_eq creds_def sweep_def
      dest: register_start_creds split: prod.splits if_splits sum.splits option.splits\<close>)

lemma unclaimed_without_code:
  assumes "auth_reachable w c code [] h a" and "\<not> code_given code h"
  shows "creds a = []"
proof -
  have "reachable (auth_init w c code []) (auth_step w c) s \<Longrightarrow>
      \<not> code_given code (fst s) \<Longrightarrow> creds (snd s) = []" for s
  proof (induction rule: reachable.induct)
    case (reachable_init s)
    then show ?case by (auto simp: auth_init_def fresh_auth_state_def creds_def)
  next
    case (reachable_step s t)
    obtain h a where s: "s = (h, a)" by (cases s)
    with reachable_step.hyps(1) have r: "auth_reachable w c code [] h a" by simp
    from reachable_step.hyps(2) show ?case
    proof (cases rule: auth_step.cases)
      case (request act a0 ok a' h0)
      with s reachable_step.prems reachable_step.IH have "creds a = []" and "\<not> code_given code h"
        by auto
      with request s reach(1) [OF r] exec_unclaimed [OF _ _ _ reach(2) [OF r]] show ?thesis by auto
    next
      case (rehash a0 a' h0)
      with s reachable_step show ?thesis by (auto simp: permuted_def creds_def)
    qed
  qed
  from this [of "(h, a)"] assms show ?thesis by simp
qed

text \<open>
  Nobody takes over an unclaimed service without the one-time code: in a run that started
  with no credential and in which no request presented the code, there is no credential, no
  session and no pending sign-in, and the code is still in force.
\<close>

theorem no_takeover_without_code:
  assumes "auth_reachable w c code [] h a"
    and "\<And>e jar body ok. (RegStart e jar body, ok) \<in> set h \<Longrightarrow> given_code body \<noteq> code"
  shows "creds a = [] \<and> inner (a_sessions a) = [] \<and> inner (a_auth a) = []
    \<and> bootstrap_token a = Some code"
proof -
  have "\<not> code_given code h" using assms(2) by (auto simp: code_given_def)
  with assms(1) have none: "creds a = []" by (rule unclaimed_without_code)
  moreover obtain t where "inner (a_bootstrap a) = Some t"
    using none reach(1) [OF assms(1)] by (auto simp: auth_inv_def bootstrap_ok_def)
  moreover from this have "t = code" using prov_codeD [OF reach(2) [OF assms(1)]] by simp
  ultimately show ?thesis
    using reach(1) [OF assms(1)]
    by (auto simp: auth_inv_def unclaimed_ok_def clean_def bootstrap_token_def)
qed

definition ex_probe :: "nat action list" where
  "ex_probe =
     [RegStart (ex_env 10 1) Map.empty (Some (Some ''guess'')),
      RegFinish (ex_env 20 2) (ex_jar REG_COOKIE 1) 1]"

theorem no_takeover_without_code_witness:
  "creds (ex_a ex_probe) = [] \<and> inner (a_sessions (ex_a ex_probe)) = []
   \<and> inner (a_auth (ex_a ex_probe)) = [] \<and> bootstrap_token (ex_a ex_probe) = Some ex_code"
proof (rule no_takeover_without_code)
  show "auth_reachable ex_w ex_c ex_code [] (ex_h ex_probe) (ex_a ex_probe)"
    by (rule ex_reachable) (simp add: ex_probe_def)
next
  fix e jar body ok
  assume "(RegStart e jar body, ok) \<in> set (ex_h ex_probe)"
  then have "body = Some (Some ''guess'')"
    by (auto simp: ex_h_def ex_probe_def ex_start_def split: prod.splits)
  moreover have "length (given_code (Some (Some ''guess''))) \<le> 5"
    unfolding given_code_def using length_trim [of "''guess''"] by simp
  moreover have "length ex_code = 64" by (simp add: ex_code_def length_hex32 ex_token_def)
  ultimately show "given_code body \<noteq> ex_code" by auto
qed

text \<open>
  C6. Authorisation is checked again at the end of a registration: once a credential exists, a
  registration succeeds only for a caller with a live session whose ceremony was started as
  "add a device", so a bootstrap ceremony parked before cannot be redeemed. It adds exactly the
  credential the library verified, of an id that is new.
\<close>

theorem enrolment_needs_admin:
  assumes "auth_reachable w c code ids h a" and "env_ok e" and "creds a \<noteq> []"
    and "register_finish w c e jar cred a = (Ok v, a')"
  shows "live_session (clk e 1) jar a
    \<and> (\<exists>rid st expiry pk. jar REG_COOKIE = Some rid \<and> hget (inner (a_reg a)) rid = Some (st, AddDevice, expiry)
         \<and> clk e 0 < expiry \<and> finish_reg w cred st = Inr pk
         \<and> cred_id w pk \<notin> set (cred_ids w a) \<and> creds a' = creds a @ [pk])"
proof -
  have inv: "auth_inv w c a" "codec_ok c" using reach(1) [OF assms(1)] by auto
  show ?thesis
  proof (cases rule: register_finish_cases [OF inv assms(2,4), case_names refused enrolled])
    case refused
    then show ?thesis by simp
  next
    case (enrolled rid st m x pk)
    then have "m = AddDevice" using assms(3) by (cases m) auto
    with enrolled show ?thesis by auto
  qed
qed

definition ex_add_start :: "nat action list" where
  "ex_add_start = ex_claim @ [RegStart (ex_env 30 3) (ex_jar SESSION_COOKIE 2) None]"

definition ex_add_jar :: jar where
  "ex_add_jar = [SESSION_COOKIE \<mapsto> hex32 (ex_token 2), REG_COOKIE \<mapsto> hex32 (ex_token 3)]"

lemma ex_view_add_start:
  "ex_view (ex_a ex_add_start) =
     ([1], [(hex32 (ex_token 3), (3, AddDevice, from_secs 30 + CEREMONY_TTL))], [],
      [(hex32 (ex_token 2), from_secs 20 + SESSION_TTL)], None)"
  by code_simp

lemma ex_add_finish:
  "fst (register_finish ex_w ex_c (ex_env 40 4) ex_add_jar 3 (ex_a ex_add_start)) =
     Ok ([JarRemove (clear_cookie REG_COOKIE), JarAdd (build_cookie SESSION_COOKIE (hex32 (ex_token 4)))], OK)"
  by code_simp

lemmas ex_add_run = prod_eqI [of _ "(_, snd _)", unfolded fst_conv snd_conv, OF ex_add_finish refl]

lemma ex_reach_add: "auth_reachable ex_w ex_c ex_code [] (ex_h ex_add_start) (ex_a ex_add_start)"
  by (rule ex_reachable) (simp add: ex_add_start_def)

theorem enrolment_needs_admin_witness:
  "live_session (clk (ex_env 40 4) 1) ex_add_jar (ex_a ex_add_start)
    \<and> (\<exists>rid st expiry pk. ex_add_jar REG_COOKIE = Some rid
         \<and> hget (inner (a_reg (ex_a ex_add_start))) rid = Some (st, AddDevice, expiry)
         \<and> clk (ex_env 40 4) 0 < expiry \<and> finish_reg ex_w 3 st = Inr pk
         \<and> cred_id ex_w pk \<notin> set (cred_ids ex_w (ex_a ex_add_start))
         \<and> creds (snd (register_finish ex_w ex_c (ex_env 40 4) ex_add_jar 3 (ex_a ex_add_start)))
             = creds (ex_a ex_add_start) @ [pk])"
  by (rule enrolment_needs_admin [OF ex_reach_add ex_env_ok _ ex_add_run])
    (use ex_view_add_start in \<open>simp add: ex_view_def\<close>)

section \<open>Where sessions and credentials come from\<close>

text \<open>
  C7. Every session of a reachable state has a derivation in the history: a sign-in whose
  response the library verified against a ceremony that had not expired and was started with keys
  that were each loaded at the start or enrolled before by a derivation of their own, a
  registration started with the one-time code, or a registration finished under an earlier session
  that had itself such a derivation.
\<close>

theorem session_provenance:
  assumes "auth_reachable w c code ids h a" and "hget (inner (a_sessions a)) tok = Some expiry"
  shows "issued w code ids h tok expiry"
  using prov_sessionD [OF reach(2) [OF assms(1)] hget_SomeD [OF assms(2)]] .

theorem session_provenance_witness:
  "issued ex_w ex_code [] (ex_h (ex_claim @ ex_sign_in)) (hex32 (ex_token 4)) (from_secs 40 + SESSION_TTL)"
  by (rule session_provenance [OF ex_reach_sign_in])
    (use ex_view_sign_in in \<open>simp add: ex_view_def hget_def\<close>)

text \<open>
  C8. As long as requests are handled one after another, credentials are never lost or replaced: the
  ids of a reachable state of the machine of whole handlers are those the service started with, in
  the same order, followed by ids that each have a successful registration in the history, started
  with the code or finished under a session with a derivation. Requests that overlap can lose a
  credential that was added (\<open>Race_Saves\<close>); of them only what \<open>Auth_Race\<close> shows holds.
\<close>

theorem credential_provenance:
  assumes "auth_reachable w c code ids h a"
  shows "\<exists>new. cred_ids w a = ids @ new \<and> distinct (ids @ new) \<and> (\<forall>i\<in>set new. enrolled_id w code ids h i)"
  using prov_credsD [OF reach(2) [OF assms]] reach(1) [OF assms] by (auto simp: auth_inv_def)

theorem credential_provenance_witness:
  "\<exists>new. cred_ids ex_w (ex_a ex_claim) = [] @ new \<and> distinct ([] @ new)
     \<and> (\<forall>i\<in>set new. enrolled_id ex_w ex_code [] (ex_h ex_claim) i)"
  by (rule credential_provenance [OF ex_reach_claim])

section \<open>Ceremonies\<close>

text \<open>
  C23. A ceremony is used at most once: after a registration or a sign-in was finished, whatever
  its outcome, the same ceremony id is refused with "ceremony expired" and the refusal changes
  nothing.
\<close>

theorem ceremony_single_use:
  assumes "auth_reachable w c code ids h a" and "env_ok e"
    and "jar REG_COOKIE = jar' REG_COOKIE" and "jar AUTH_COOKIE = jar' AUTH_COOKIE"
    and "jar REG_COOKIE \<noteq> None" and "jar AUTH_COOKIE \<noteq> None"
  shows "(let a' = snd (register_finish w c e jar cred a)
      in register_finish w c e' jar' cred' a' = (Err (BAD_REQUEST, CeremonyExpired), a'))
    \<and> (let a' = snd (login_finish w c e jar cred a)
      in login_finish w c e' jar' cred' a' = (Err (BAD_REQUEST, CeremonyExpired), a'))"
proof -
  have inv: "auth_inv w c a" "wa_ok w" "codec_ok c" using reach(1) [OF assms(1)] by auto
  obtain rid aid where id: "jar' REG_COOKIE = Some rid" "jar' AUTH_COOKIE = Some aid" using assms(3-) by auto
  obtain r a' where fin: "register_finish w c e jar cred a = (r, a')" by (metis surj_pair)
  have cl: "clean a'"
    using keepsD [OF keeps_register_finish [OF inv(3) assms(2)] inv(1) fin] by (rule auth_inv_clean)
  have "hget (inner (a_reg a')) rid = None"
    by (cases rule: register_finish_cases [OF inv(1,3) assms(2) fin])
      (use id assms(3) in \<open>auto simp: hmap_simps\<close>)
  with cl id have "register_finish w c e' jar' cred' a' = (Err (BAD_REQUEST, CeremonyExpired), a')"
    by (simp add: register_finish_def bind_def take_reg_def clean_def)
  moreover obtain q b where log: "login_finish w c e jar cred a = (q, b)" by (metis surj_pair)
  have cl: "clean b"
    using keepsD [OF keeps_login_finish [OF inv(2,3) assms(2)] inv(1) log] by (rule auth_inv_clean)
  have "hget (inner (a_auth b)) aid = None"
    by (cases rule: login_finish_cases [OF inv assms(2) log])
      (use id assms(4) in \<open>auto simp: hmap_simps\<close>)
  with cl id have "login_finish w c e' jar' cred' b = (Err (BAD_REQUEST, CeremonyExpired), b)"
    by (simp add: login_finish_def bind_def take_auth_def clean_def)
  ultimately show ?thesis by (simp add: fin log)
qed

definition ex_both_jar :: jar where
  "ex_both_jar = [REG_COOKIE \<mapsto> hex32 (ex_token 3), AUTH_COOKIE \<mapsto> hex32 (ex_token 3)]"

theorem ceremony_single_use_witness:
  "(let a' = snd (register_finish ex_w ex_c (ex_env 40 4) ex_both_jar 3 (ex_a ex_add_start))
      in register_finish ex_w ex_c (ex_env 50 5) ex_both_jar 3 a' = (Err (BAD_REQUEST, CeremonyExpired), a'))
    \<and> (let a' = snd (login_finish ex_w ex_c (ex_env 40 4) ex_both_jar 3 (ex_a ex_add_start))
      in login_finish ex_w ex_c (ex_env 50 5) ex_both_jar 3 a' = (Err (BAD_REQUEST, CeremonyExpired), a'))"
  by (rule ceremony_single_use [OF ex_reach_add ex_env_ok]) (simp_all add: ex_both_jar_def)

section \<open>Durability\<close>

lemma persist_Ok: "persist c e a = (Ok u, a') \<Longrightarrow> io_ok e 0"
  by (auto simp: persist_def replace_file_def replace_ops_def split: option.splits prod.splits if_splits)

text \<open>The sections a successful registration has gone through.\<close>

lemma register_finish_OkE:
  fixes a :: "'w auth_state"
  assumes "register_finish w c e jar cred a = (Ok v, a')"
  obtains rid st m pk s1 s2 s3 s4 k where "take_reg (clk e 0) rid a = (Ok (st, m), s1)"
    and "finish_reg w cred st = Inr pk" and "enrol w (clk e 1) jar m pk s1 = (Ok (), s2)"
    and "persist_or_undo c e s2 = (Ok (), s3)" and "close_bootstrap m s3 = (Ok (), s4)"
    and "(new_session (clk e 2) (clk e 3) (rand32 e) :: ('w, cookie) handler) s4 = (Ok k, a')"
    and "v = ([JarRemove (clear_cookie REG_COOKIE), JarAdd k], OK)"
proof (cases "jar REG_COOKIE")
  case None
  with assms show ?thesis by (simp add: register_finish_def throw_def)
next
  case (Some rid)
  with assms obtain st m s where take: "take_reg (clk e 0) rid a = (Ok (st, m), s)"
    and rest: "(case finish_reg w cred st of Inl err \<Rightarrow> throw (BAD_REQUEST, Library err)
        | Inr pk \<Rightarrow> bind (enrol w (clk e 1) jar m pk) (\<lambda>_. bind (persist_or_undo c e) (\<lambda>_.
            bind (close_bootstrap m) (\<lambda>_. bind (new_session (clk e 2) (clk e 3) (rand32 e)) (\<lambda>session.
            ret ([JarRemove (clear_cookie REG_COOKIE), JarAdd session], OK)))))) s = (Ok v, a')"
    by (auto simp: register_finish_def bind_Ok_iff [of "take_reg (clk e 0) rid"])
  then obtain pk where "finish_reg w cred st = Inr pk"
    by (cases "finish_reg w cred st") (auto simp: throw_def)
  with rest take show ?thesis by (auto simp: bind_Ok_iff ret_def simp del: One_nat_def intro: that)
qed

lemma register_finish_persists: "register_finish w c e jar cred a = (Ok v, a') \<Longrightarrow> io_ok e 0"
  by (erule register_finish_OkE)
    (auto simp: persist_or_undo_def bind_def throw_def dest: persist_Ok split: prod.splits outcome.splits)

text \<open>
  No session for a credential that is not on disk: when the disk refuses the write, a
  registration is answered with an error, the credentials, the sessions and the enrolment code
  are as before, and the file still holds the ids it held.
\<close>

theorem enrolment_needs_disk:
  assumes "auth_reachable w c code ids h a" and "env_ok e" and "\<not> io_ok e 0"
    and "register_finish w c e jar cred a = (r, a')"
  shows "(\<exists>s m. r = Err (s, m)) \<and> creds a' = creds a
    \<and> set (inner (a_sessions a')) \<subseteq> set (inner (a_sessions a)) \<and> a_bootstrap a' = a_bootstrap a
    \<and> disk_has w c (a_disk a') (a_path a') (cred_ids w a)"
proof -
  have inv: "auth_inv w c a" "codec_ok c" using reach(1) [OF assms(1)] by auto
  have inv': "auth_inv w c a'" by (rule keepsD [OF keeps_register_finish [OF inv(2) assms(2)] inv(1) assms(4)])
  show ?thesis
  proof (cases rule: register_finish_cases [OF inv assms(2,4), case_names refused enrolled])
    case (refused s m)
    with inv' show ?thesis by (auto simp: refused_def auth_inv_def disk_ok_def cred_ids_def)
  next
    case enrolled
    with assms(3,4) show ?thesis by (auto dest: register_finish_persists)
  qed
qed

theorem enrolment_needs_disk_witness:
  "\<exists>r a'. register_finish ex_w ex_c (ex_env 40 4\<lparr>io_ok := \<lambda>_. False\<rparr>) ex_add_jar 3 (ex_a ex_add_start) = (r, a')
     \<and> (\<exists>s m. r = Err (s, m)) \<and> creds a' = creds (ex_a ex_add_start)
     \<and> set (inner (a_sessions a')) \<subseteq> set (inner (a_sessions (ex_a ex_add_start)))
     \<and> a_bootstrap a' = a_bootstrap (ex_a ex_add_start)
     \<and> disk_has ex_w ex_c (a_disk a') (a_path a') (cred_ids ex_w (ex_a ex_add_start))"
proof -
  let ?run = "register_finish ex_w ex_c (ex_env 40 4\<lparr>io_ok := \<lambda>_. False\<rparr>) ex_add_jar 3 (ex_a ex_add_start)"
  have "env_ok (ex_env 40 4\<lparr>io_ok := \<lambda>_. False\<rparr>)" by (simp add: env_ok_def ex_env_def)
  from enrolment_needs_disk [OF ex_reach_add this _ prod.collapse [symmetric, of ?run]]
  show ?thesis by (intro exI [of _ "fst ?run"] exI [of _ "snd ?run"]) simp
qed

text \<open>
  C25. A crash while the credentials are written never leaves a file that cannot be read: after
  any number of the system calls of the replacement, a restart loads either what it would have
  loaded before or the store that was being written. When the old file was synced this holds of a
  power failure too, whichever directory entries survive it and whatever becomes of unsynced content.
\<close>

theorem persist_crash_safe:
  assumes "auth_reachable w c code ids h a" and "env_ok e" and "to_json c s = Some j"
    and "stat_ok b" and "read_ok b"
  shows "load_store c b (crash_after n (tmp_path (a_path a)) (a_path a) (io_split e j) (a_disk a)) (a_path a)
     \<in> {load_store c b (a_disk a) (a_path a), Inr s}
    \<and> (disk_file (a_disk a) (a_path a) = file_at (a_disk a) (a_path a) \<and> k \<le> n \<longrightarrow>
        load_store c b (power_loss torn (crash_after k (tmp_path (a_path a)) (a_path a) (io_split e j) (a_disk a))
            (crash_after n (tmp_path (a_path a)) (a_path a) (io_split e j) (a_disk a))) (a_path a)
          \<in> {load_store c b (a_disk a) (a_path a), Inr s})
    \<and> (\<exists>st. load_store c b (a_disk a) (a_path a) = Inr st)"
proof -
  let ?d = "\<lambda>n. crash_after n (tmp_path (a_path a)) (a_path a) (io_split e j) (a_disk a)"
  have inv: "auth_inv w c a" "codec_ok c" using reach(1) [OF assms(1)] by auto
  then have fs: "wf_fs (a_disk a)" "tmp_path (a_path a) \<noteq> a_path a"
    and disk: "disk_has w c (a_disk a) (a_path a) (cred_ids w a)"
    by (auto simp: auth_inv_def disk_ok_def)
  have j: "concat (io_split e j) = j" using assms(2) by (simp add: env_ok_def)
  have eq: "load_store c b d (a_path a) = (case file_at d (a_path a) of None \<Rightarrow> Inr default_store
      | Some x \<Rightarrow> (case from_json c x of None \<Rightarrow> Inl ''parsing'' | Some s \<Rightarrow> Inr s))" for d
    using assms(4,5) by (auto simp: load_store_def path_exists_def file_at_def split: option.split)
  have s: "from_json c j = Some s" using inv(2) assms(3) by (simp add: codec_ok_def)
  have one_of: "load_store c b d (a_path a) \<in> {load_store c b (a_disk a) (a_path a), Inr s}"
    if "file_at d (a_path a) \<in> {file_at (a_disk a) (a_path a), Some j}" for d
    using that s by (auto simp: eq)
  have "load_store c b (?d n) (a_path a) \<in> {load_store c b (a_disk a) (a_path a), Inr s}"
    using crash_after_complete [OF fs, of n "io_split e j"] j by (intro one_of) simp
  moreover have "load_store c b (power_loss torn (?d k) (?d n)) (a_path a)
      \<in> {load_store c b (a_disk a) (a_path a), Inr s}"
    if "disk_file (a_disk a) (a_path a) = file_at (a_disk a) (a_path a)" "k \<le> n"
    using power_loss_file [OF fs that, of torn "io_split e j"] j by (intro one_of) simp
  ultimately show ?thesis using reload_disk [OF disk assms(4,5)] by blast
qed

lemma ex_disk:
  "file_at (a_disk (ex_a ex_claim)) ex_path = Some [CHR ''7'', CHR 0x01]"
  "disk_file (a_disk (ex_a ex_claim)) ex_path = Some [CHR ''7'', CHR 0x01]"
  by code_simp+

theorem persist_crash_safe_witness:
  "load_store ex_c ex_boot (crash_after 2 (tmp_path (a_path (ex_a ex_claim))) (a_path (ex_a ex_claim))
       (io_split (ex_env 50 5) [CHR ''7'', char_of (97 :: nat)]) (a_disk (ex_a ex_claim))) (a_path (ex_a ex_claim))
     \<in> {load_store ex_c ex_boot (a_disk (ex_a ex_claim)) (a_path (ex_a ex_claim)),
         Inr \<lparr>user_id = Some 7, passkeys = [97]\<rparr>}
    \<and> load_store ex_c ex_boot (power_loss (\<lambda>_. ''?'')
         (crash_after 1 (tmp_path (a_path (ex_a ex_claim))) (a_path (ex_a ex_claim))
           (io_split (ex_env 50 5) [CHR ''7'', char_of (97 :: nat)]) (a_disk (ex_a ex_claim)))
         (crash_after 2 (tmp_path (a_path (ex_a ex_claim))) (a_path (ex_a ex_claim))
           (io_split (ex_env 50 5) [CHR ''7'', char_of (97 :: nat)]) (a_disk (ex_a ex_claim)))) (a_path (ex_a ex_claim))
     \<in> {load_store ex_c ex_boot (a_disk (ex_a ex_claim)) (a_path (ex_a ex_claim)),
         Inr \<lparr>user_id = Some 7, passkeys = [97]\<rparr>}
    \<and> (\<exists>st. load_store ex_c ex_boot (a_disk (ex_a ex_claim)) (a_path (ex_a ex_claim)) = Inr st)"
proof -
  have synced: "disk_file (a_disk (ex_a ex_claim)) (a_path (ex_a ex_claim))
      = file_at (a_disk (ex_a ex_claim)) (a_path (ex_a ex_claim))"
    by (simp add: ex_path_run ex_disk)
  have "to_json ex_c \<lparr>user_id = Some 7, passkeys = [97]\<rparr> = Some [CHR ''7'', char_of (97 :: nat)]"
    and "stat_ok ex_boot" and "read_ok ex_boot" by (simp_all add: ex_c_def ex_boot_def)
  note safe = persist_crash_safe [where n = 2 and k = 1 and torn = "\<lambda>_. ''?''", OF ex_reach_claim ex_env_ok this]
  show ?thesis using safe synced by simp
qed

lemma ex_finish_ok:
  "is_ok (fst (register_finish ex_w ex_c (ex_env 20 2) (ex_jar REG_COOKIE 1) 1 (ex_a [hd ex_claim])))"
  "creds (snd (register_finish ex_w ex_c (ex_env 20 2) (ex_jar REG_COOKIE 1) 1 (ex_a [hd ex_claim]))) = [1]"
  by code_simp+

lemma ex_before: "entry (a_disk (ex_a [hd ex_claim])) ex_path = None"
  by code_simp

text \<open>
  A power failure right after the claim was acknowledged can undo it: the directory, which \<open>persist\<close> does
  not sync, is found without the file, so the next start offers a bootstrap code again.
\<close>

theorem power_loss_undoes_claim:
  assumes "register_finish ex_w ex_c (ex_env 20 2) (ex_jar REG_COOKIE 1) 1 (ex_a [hd ex_claim]) = (r, a)"
  shows "is_ok r \<and> creds a = [1]
     \<and> (\<exists>w' a'. auth_new ex_pf ex_c ex_boot (power_loss torn (a_disk (ex_a [hd ex_claim])) (a_disk a))
            ''localhost'' ''http://localhost'' ''/data'' = Inr (w', a')
          \<and> creds a' = [] \<and> inner (a_bootstrap a') = Some ex_code)"
  using ex_finish_ok ex_before assms
  by (simp add: auth_new_def ex_pf_def ex_boot_def load_store_def path_exists_def power_loss_def Let_def
      fresh_auth_state_def default_store_def creds_def new_mutex_def ex_code_def ex_path_def)

section \<open>What the handlers grant\<close>

text \<open>
  The exact admission rule of \<open>register_start\<close>: it hands out a challenge just when the library
  makes one and either there is no credential and the caller gave the code in force, or there is
  one and the caller has a live session.
\<close>

theorem register_start_admission:
  assumes "auth_reachable w c code ids h a"
  shows "is_ok (fst (register_start w e jar body a)) \<longleftrightarrow>
    (\<exists>x. start_reg w (wa_seed e) (start_user e a) ''admin'' ''admin'' (exclude_list w a) = Inr x)
    \<and> (if creds a = [] then given_code body = code else live_session (clk e 0) jar a)"
proof -
  have inv: "auth_inv w c a" using reach(1) [OF assms] by simp
  have "inner (a_bootstrap a) = (if creds a = [] then Some code else None)"
  proof (cases "creds a = []")
    case True
    with inv obtain t where "inner (a_bootstrap a) = Some t" by (auto simp: auth_inv_def bootstrap_ok_def)
    with True prov_codeD [OF reach(2) [OF assms]] show ?thesis by simp
  next
    case False
    with inv show ?thesis by (simp add: auth_inv_def bootstrap_ok_def)
  qed
  then show ?thesis
    by (auto simp: register_start_eq [OF auth_inv_clean [OF inv]] Let_def is_ok_def split: sum.split)
qed

theorem register_start_admission_witness:
  "is_ok (fst (register_start ex_w (ex_env 30 3) (ex_jar SESSION_COOKIE 2) None (ex_a ex_claim))) \<longleftrightarrow>
    (\<exists>x. start_reg ex_w (wa_seed (ex_env 30 3)) (start_user (ex_env 30 3) (ex_a ex_claim)) ''admin'' ''admin''
        (exclude_list ex_w (ex_a ex_claim)) = Inr x)
    \<and> (if creds (ex_a ex_claim) = [] then given_code None = ex_code
       else live_session (clk (ex_env 30 3) 0) (ex_jar SESSION_COOKIE 2) (ex_a ex_claim))"
  by (rule register_start_admission [OF ex_reach_claim])




text \<open>
  C26. The owner can claim the account: from any reachable state without a credential, a
  registration started with the code, answered within five minutes and verified by the library
  succeeds when the disk works, and leaves one credential, a live session and a closed enrolment.
\<close>

theorem owner_can_claim:
  assumes "auth_reachable w c code ids h a" and "creds a = []" and "env_ok e'" and "io_ok e' = (\<lambda>_. True)"
    and "given_code body = code"
    and "start_reg w (wa_seed e) (start_user e a) ''admin'' ''admin'' None = Inr (ccr, st)"
    and "jar' REG_COOKIE = Some (hex32 (rand32 e))" and "clk e' 0 < clk e 1 + CEREMONY_TTL"
    and "finish_reg w cred st = Inr pk"
    and "to_json c \<lparr>user_id = Some (start_user e a), passkeys = [pk]\<rparr> \<noteq> None"
  shows "\<exists>v a2. register_finish w c e' jar' cred (snd (register_start w e jar body a)) = (Ok v, a2)
    \<and> creds a2 = [pk] \<and> bootstrap_token a2 = None
    \<and> (\<forall>now. live_session now [SESSION_COOKIE \<mapsto> hex32 (rand32 e')] a2 \<longleftrightarrow> now < clk e' 3 + SESSION_TTL)"
proof -
  have inv: "auth_inv w c a" "wa_ok w" "codec_ok c" using reach(1) [OF assms(1)] by auto
  obtain t where "inner (a_bootstrap a) = Some t"
    using inv(1) assms(2) by (auto simp: auth_inv_def bootstrap_ok_def)
  with prov_codeD [OF reach(2) [OF assms(1)]] have tok: "inner (a_bootstrap a) = Some code" by simp
  let ?a1 = "snd (register_start w e jar body a)"
  have inv1: "auth_inv w c ?a1" by (rule keepsD [OF keeps_register_start inv(1) prod.collapse [symmetric]])
  have a1: "hget (inner (a_reg ?a1)) (hex32 (rand32 e)) = Some (st, Bootstrap, clk e 1 + CEREMONY_TTL)"
    "inner (a_store ?a1) = (inner (a_store a))\<lparr>user_id := Some (start_user e a)\<rparr>" "creds ?a1 = []"
    using assms(2,5,6) tok
    by (simp_all add: register_start_eq [OF auth_inv_clean [OF inv(1)]] Let_def exclude_list_def
        reg_map.ins_new creds_def)
  have "to_json c ((inner (a_store ?a1))\<lparr>passkeys := [pk]\<rparr>) \<noteq> None"
    using assms(10) a1(2) by (cases "inner (a_store a)") simp
  from bootstrap_finish_succeeds [where cred = cred and jar = jar', OF inv1 assms(3,4) a1(3) assms(7) a1(1) assms(8,9) this]
  obtain v a2 where fin: "register_finish w c e' jar' cred ?a1 = (Ok v, a2)" by blast
  have inv2: "auth_inv w c a2" by (rule keepsD [OF keeps_register_finish [OF inv(3) assms(3)] inv1 fin])
  show ?thesis
  proof (cases rule: register_finish_cases [OF inv1 inv(3) assms(3) fin, case_names refused enrolled])
    case refused
    then show ?thesis by simp
  next
    case (enrolled rid st' m x pk')
    then have "m = Bootstrap" "pk' = pk" using assms(7,9) a1 by auto
    with enrolled fin a1 inv2 show ?thesis
      by (simp add: live_session_def session_map.ins_new bootstrap_token_def auth_inv_def clean_def)
  qed
qed

lemma ex_code_given: "given_code (Some (Some ex_code)) = ex_code"
  by code_simp

theorem owner_can_claim_witness:
  "\<exists>v a2. register_finish ex_w ex_c (ex_env 20 2) (ex_jar REG_COOKIE 1) 1
        (snd (register_start ex_w (ex_env 10 1) Map.empty (Some (Some ex_code)) (ex_a []))) = (Ok v, a2)
    \<and> creds a2 = [1] \<and> bootstrap_token a2 = None
    \<and> (\<forall>now. live_session now [SESSION_COOKIE \<mapsto> hex32 (rand32 (ex_env 20 2))] a2
          \<longleftrightarrow> now < clk (ex_env 20 2) 3 + SESSION_TTL)"
proof (rule owner_can_claim [where st = 1 and ccr = 1])
  show "auth_reachable ex_w ex_c ex_code [] (ex_h []) (ex_a [])" by (rule ex_reachable) simp
  show "given_code (Some (Some ex_code)) = ex_code" by (rule ex_code_given)
  show "creds (ex_a []) = []" using ex_view_start by (simp add: ex_view_def)
  have "user_id (inner (a_store (ex_a []))) = None"
    by (simp add: ex_a_def ex_start_def fresh_auth_state_def default_store_def)
  then show "to_json ex_c \<lparr>user_id = Some (start_user (ex_env 10 1) (ex_a [])), passkeys = [1]\<rparr> \<noteq> None"
    by (simp add: ex_c_def start_user_def ex_env_def)
qed (simp_all add: ex_env_def env_ok_def ex_w_def ex_jar_def from_secs_def CEREMONY_TTL_def)

section \<open>Expiry\<close>

text \<open>
  The sweep cannot be observed: a request at or after the sweep gets the answer it would have
  got without it, from the session check and from both ceremony maps. Nothing that has expired is
  left after it.
\<close>

theorem sweep_unobservable:
  assumes "auth_reachable w c code ids h a" and "now \<le> now'"
  shows "live_session now' jar (sweep now a) = live_session now' jar a
    \<and> fst (take_reg now' rid (sweep now a)) = fst (take_reg now' rid a)
    \<and> fst (take_auth now' aid (sweep now a)) = fst (take_auth now' aid a)
    \<and> list_all (\<lambda>(_, x). now < x) (inner (a_sessions (sweep now a)))
    \<and> list_all (\<lambda>(_, v). now < reg_exp v) (inner (a_reg (sweep now a)))
    \<and> list_all (\<lambda>(_, v). now < auth_exp v) (inner (a_auth (sweep now a)))"
proof -
  have "auth_inv w c a" using reach(1) [OF assms(1)] by simp
  then have cl: "clean a" and wf: "wf_hmap (inner (a_reg a))" "wf_hmap (inner (a_auth a))"
    "wf_hmap (inner (a_sessions a))"
    by (auto simp: auth_inv_def maps_ok_def)
  from cl have maps: "inner (a_reg (sweep now a)) = hretain (\<lambda>v. now < reg_exp v) (inner (a_reg a))"
    "inner (a_auth (sweep now a)) = hretain (\<lambda>v. now < auth_exp v) (inner (a_auth a))"
    "inner (a_sessions (sweep now a)) = hretain (\<lambda>v. now < v) (inner (a_sessions a))"
    and cl': "clean (sweep now a)"
    by (simp_all add: sweep_def retain_mutex_def clean_def)
  have "live_session now' jar (sweep now a) = live_session now' jar a"
    using assms(2) wf by (auto simp: live_session_code maps hmap_simps split: option.split)
  moreover have "fst (take_reg now' rid (sweep now a)) = fst (take_reg now' rid a)"
    using assms(2) wf cl cl'
    by (auto simp: take_reg_def clean_def maps hmap_simps Let_def reg_exp_def split: option.split)
  moreover have "fst (take_auth now' aid (sweep now a)) = fst (take_auth now' aid a)"
    using assms(2) wf cl cl'
    by (auto simp: take_auth_def clean_def maps hmap_simps Let_def auth_exp_def split: option.split)
  ultimately show ?thesis by (auto simp: maps list_all_iff)
qed

theorem sweep_unobservable_witness:
  "live_session (from_secs 60) (ex_jar SESSION_COOKIE 2) (sweep (from_secs 50) (ex_a ex_add_start))
      = live_session (from_secs 60) (ex_jar SESSION_COOKIE 2) (ex_a ex_add_start)
    \<and> fst (take_reg (from_secs 60) (hex32 (ex_token 3)) (sweep (from_secs 50) (ex_a ex_add_start)))
      = fst (take_reg (from_secs 60) (hex32 (ex_token 3)) (ex_a ex_add_start))
    \<and> fst (take_auth (from_secs 60) [] (sweep (from_secs 50) (ex_a ex_add_start)))
      = fst (take_auth (from_secs 60) [] (ex_a ex_add_start))
    \<and> list_all (\<lambda>(_, x). from_secs 50 < x) (inner (a_sessions (sweep (from_secs 50) (ex_a ex_add_start))))
    \<and> list_all (\<lambda>(_, v). from_secs 50 < reg_exp v) (inner (a_reg (sweep (from_secs 50) (ex_a ex_add_start))))
    \<and> list_all (\<lambda>(_, v). from_secs 50 < auth_exp v) (inner (a_auth (sweep (from_secs 50) (ex_a ex_add_start))))"
  by (rule sweep_unobservable [OF ex_reach_add]) (simp add: from_secs_def)

text \<open>
  Signing out ends the presented session at once and no other: afterwards a caller has a live
  session just when it had one before under another token. The answer is always the redirect
  that clears the cookie.
\<close>

theorem logout_ends_session:
  assumes "auth_reachable w c code ids h a" and "jar SESSION_COOKIE = Some tok"
  shows "\<exists>a'. (logout jar (Some a) :: (unit, _) outcome \<times> _) =
      (Ok ([JarRemove (clear_cookie SESSION_COOKIE)], SEE_OTHER, ''/''), Some a')
    \<and> (\<forall>now jar'. live_session now jar' a' \<longleftrightarrow> live_session now jar' a \<and> jar' SESSION_COOKIE \<noteq> Some tok)"
proof -
  have "clean a" using reach(1) [OF assms(1)] auth_inv_clean by blast
  with assms(2) show ?thesis
    by (auto simp: logout_def clean_def live_session_code hmap_simps split: option.split)
qed

theorem logout_ends_session_witness:
  "\<exists>a'. (logout (ex_jar SESSION_COOKIE 2) (Some (ex_a ex_claim)) :: (unit, _) outcome \<times> _) =
      (Ok ([JarRemove (clear_cookie SESSION_COOKIE)], SEE_OTHER, ''/''), Some a')
    \<and> (\<forall>now jar'. live_session now jar' a' \<longleftrightarrow>
          live_session now jar' (ex_a ex_claim) \<and> jar' SESSION_COOKIE \<noteq> Some (hex32 (ex_token 2)))"
  by (rule logout_ends_session [OF ex_reach_claim]) (simp add: ex_jar_def)

section \<open>Bounds\<close>

text \<open>
  Memory stays bounded: in every reachable state each of the three maps has distinct keys and
  at most 1024 entries, and without a credential there is neither a session nor a pending sign-in.
\<close>

theorem maps_bounded:
  assumes "auth_reachable w c code ids h a"
  shows "wf_hmap (inner (a_reg a)) \<and> length (inner (a_reg a)) \<le> 1024
    \<and> wf_hmap (inner (a_auth a)) \<and> length (inner (a_auth a)) \<le> 1024
    \<and> wf_hmap (inner (a_sessions a)) \<and> length (inner (a_sessions a)) \<le> 1024
    \<and> (registered a \<or> inner (a_sessions a) = [] \<and> inner (a_auth a) = [])"
  using reach(1) [OF assms]
  by (auto simp: auth_inv_def maps_ok_def MAX_CEREMONIES_def MAX_SESSIONS_def registered_def clean_def
      unclaimed_ok_def creds_def)

theorem maps_bounded_witness:
  "wf_hmap (inner (a_reg (ex_a ex_add_start))) \<and> length (inner (a_reg (ex_a ex_add_start))) \<le> 1024
    \<and> wf_hmap (inner (a_auth (ex_a ex_add_start))) \<and> length (inner (a_auth (ex_a ex_add_start))) \<le> 1024
    \<and> wf_hmap (inner (a_sessions (ex_a ex_add_start))) \<and> length (inner (a_sessions (ex_a ex_add_start))) \<le> 1024
    \<and> (registered (ex_a ex_add_start)
       \<or> inner (a_sessions (ex_a ex_add_start)) = [] \<and> inner (a_auth (ex_a ex_add_start)) = [])"
  by (rule maps_bounded [OF ex_reach_add])

text \<open>The state after a series of sign-in starts, as insertions into the ceremony map.\<close>

definition login_starts :: "'w webauthn \<Rightarrow> env list \<Rightarrow> 'w auth_state \<Rightarrow> 'w auth_state" where
  "login_starts w es a = fold (\<lambda>e a. snd (login_start w e a)) es a"

definition parked :: "'w webauthn \<Rightarrow> 'w list \<Rightarrow> env \<Rightarrow> time \<times> string \<times> 'w pending_auth" where
  "parked w pks e =
     (clk e 1, hex32 (rand32 e), snd (projr (start_auth w (wa_seed e) pks)), clk e 0 + CEREMONY_TTL)"

lemma login_starts_auth:
  assumes "clean a" and "creds a \<noteq> []"
    and "\<forall>e\<in>set es. \<exists>x. start_auth w (wa_seed e) (creds a) = Inr x"
  shows "clean (login_starts w es a) \<and> creds (login_starts w es a) = creds a
    \<and> inner (a_auth (login_starts w es a)) =
        fold (\<lambda>(now, k, v). insert_capped auth_exp now k v) (map (parked w (creds a)) es) (inner (a_auth a))"
  using assms
proof (induction es arbitrary: a)
  case Nil
  then show ?case by (simp add: login_starts_def)
next
  case (Cons e es)
  let ?a1 = "snd (login_start w e a)"
  obtain rcr st where "start_auth w (wa_seed e) (creds a) = Inr (rcr, st)" using Cons.prems(3) by auto
  with Cons.prems have a1: "inner (a_auth ?a1) = (case parked w (creds a) e of (now, k, v) \<Rightarrow>
      insert_capped auth_exp now k v (inner (a_auth a)))" "creds ?a1 = creds a" "clean ?a1"
    by (simp_all add: login_start_eq parked_def creds_def clean_def)
  have "login_starts w (e # es) a = login_starts w es ?a1" by (simp add: login_starts_def)
  with Cons.IH [of ?a1] Cons.prems a1 show ?case by (simp add: case_prod_beta)
qed

text \<open>
  The cap evicts a pending sign-in: 1024 unauthenticated calls of \<open>login_start\<close> that follow
  it, within the time it would still be valid, push it out of the map, and finishing it is then
  refused as expired. So the bound does not keep a slot for a sign-in in progress.
\<close>

theorem flood_evicts_sign_in:
  assumes "auth_reachable w c code ids h a" and "jar AUTH_COOKIE = Some aid"
    and "hget (inner (a_auth a)) aid = Some v"
    and "length es = MAX_CEREMONIES" and "distinct (aid # map (\<lambda>e. hex32 (rand32 e)) es)"
    and "\<forall>e\<in>set es. \<exists>x. start_auth w (wa_seed e) (creds a) = Inr x"
    and "\<forall>e\<in>set es. \<forall>e'\<in>set es. clk e 1 < clk e' 0 + CEREMONY_TTL \<and> auth_exp v < clk e' 0 + CEREMONY_TTL"
  shows "login_finish w c e jar cred (login_starts w es a) =
      (Err (BAD_REQUEST, CeremonyExpired), login_starts w es a)"
proof -
  have inv: "auth_inv w c a" using reach(1) [OF assms(1)] by simp
  have "creds a \<noteq> []" using inv assms(3) by (auto simp: auth_inv_def unclaimed_ok_def)
  from login_starts_auth [OF auth_inv_clean [OF inv] this assms(6)]
  have cl: "clean (login_starts w es a)" and auth: "inner (a_auth (login_starts w es a)) =
      fold (\<lambda>(now, k, v). insert_capped auth_exp now k v) (map (parked w (creds a)) es) (inner (a_auth a))"
    by auto
  have wf: "wf_hmap (inner (a_auth a))" "length (inner (a_auth a)) \<le> MAX_CEREMONIES"
    using inv by (auto simp: auth_inv_def maps_ok_def)
  have keys: "map (fst \<circ> snd) (map (parked w (creds a)) es) = map (\<lambda>e. hex32 (rand32 e)) es"
    by (simp add: parked_def)
  have gone: "hget (inner (a_auth (login_starts w es a))) aid \<noteq> Some v"
    unfolding auth
    by (rule auth_map.ins_all_flood [OF wf])
      (use assms(4,5,7) in \<open>auto simp: keys parked_def auth_exp_def simp del: map_map\<close>)
  have "hget (inner (a_auth (login_starts w es a))) aid = None"
  proof (rule ccontr)
    assume "hget (inner (a_auth (login_starts w es a))) aid \<noteq> None"
    then obtain x where x: "hget (inner (a_auth (login_starts w es a))) aid = Some x" by blast
    from auth_map.ins_all_origin [OF wf(1) x [unfolded auth]]
    have "x = v" using assms(3,5) by (auto simp: parked_def)
    with gone x show False by simp
  qed
  with cl assms(2) show ?thesis by (simp add: login_finish_def bind_def take_auth_def clean_def)
qed

definition ex_pending :: "nat action list" where
  "ex_pending = ex_claim @ [LoginStart (ex_env 30 3)]"

definition ex_flood :: "env list" where
  "ex_flood = map (\<lambda>k. ex_env 31 (1000 + k)) [0 ..< 1024]"

lemma ex_view_pending:
  "ex_view (ex_a ex_pending) =
     ([1], [], [(hex32 (ex_token 3), (3, from_secs 30 + CEREMONY_TTL))],
      [(hex32 (ex_token 2), from_secs 20 + SESSION_TTL)], None)"
  by code_simp

lemma ex_token_inject: "i < 65536 \<Longrightarrow> j < 65536 \<Longrightarrow> ex_token i = ex_token j \<longleftrightarrow> i = j"
proof -
  assume lt: "i < 65536" "j < 65536"
  have "i = j" if eq: "ex_token i = ex_token j"
  proof -
    have "(word_of_nat (i div 256) :: u8) = word_of_nat (j div 256)" "(word_of_nat i :: u8) = word_of_nat j"
      using eq by (simp_all add: ex_token_def)
    then have "unat (word_of_nat (i div 256) :: u8) = unat (word_of_nat (j div 256) :: u8)"
      "unat (word_of_nat i :: u8) = unat (word_of_nat j :: u8)"
      by simp_all
    then have "i div 256 mod 256 = j div 256 mod 256" "i mod 256 = j mod 256"
      by (simp_all add: unat_of_nat)
    moreover have "i div 256 mod 256 = i div 256" "j div 256 mod 256 = j div 256"
      using lt by (auto intro!: mod_less simp: less_mult_imp_div_less)
    ultimately show ?thesis by (metis div_mult_mod_eq)
  qed
  then show ?thesis by blast
qed

theorem flood_evicts_sign_in_witness:
  "login_finish ex_w ex_c (ex_env 40 4) (ex_jar AUTH_COOKIE 3) 3 (login_starts ex_w ex_flood (ex_a ex_pending)) =
     (Err (BAD_REQUEST, CeremonyExpired), login_starts ex_w ex_flood (ex_a ex_pending))"
proof (rule flood_evicts_sign_in)
  show "auth_reachable ex_w ex_c ex_code [] (ex_h ex_pending) (ex_a ex_pending)"
    by (rule ex_reachable) (simp add: ex_pending_def)
  show "hget (inner (a_auth (ex_a ex_pending))) (hex32 (ex_token 3)) = Some (3, from_secs 30 + CEREMONY_TTL)"
    using ex_view_pending by (simp add: ex_view_def hget_def)
  show "distinct (hex32 (ex_token 3) # map (\<lambda>e. hex32 (rand32 e)) ex_flood)"
    by (auto simp: ex_flood_def ex_env_def hex32_inject ex_token_inject distinct_map inj_on_def)
  show "\<forall>e\<in>set ex_flood. \<exists>x. start_auth ex_w (wa_seed e) (creds (ex_a ex_pending)) = Inr x"
    by (auto simp: ex_flood_def ex_env_def ex_w_def)
qed (auto simp: ex_jar_def ex_flood_def MAX_CEREMONIES_def ex_env_def auth_exp_def from_secs_def CEREMONY_TTL_def)

section \<open>Secrets and cookies\<close>

text \<open>
  The constant-time comparison is equality of byte strings, so the code check accepts exactly
  the code and the token check exactly the token.
\<close>

theorem ct_eq_is_equality: "ct_eq a b \<longleftrightarrow> a = b"
  by (rule ct_eq_iff)

text \<open>
  The hexadecimal tokens lose nothing: the bytes can be read back, so two tokens are equal
  only if all their random bytes are, and a token has two digits for each byte.
\<close>

theorem hex_token_roundtrip:
  "unhex (hex32 bytes) = bytes \<and> length (hex32 bytes) = 2 * length bytes
   \<and> (hex32 bytes = hex32 bytes') = (bytes = bytes')"
  by (simp add: unhex_hex32 length_hex32 hex32_inject)

definition op_cookie :: "jar_op \<Rightarrow> cookie" where
  "op_cookie op = (case op of JarAdd k \<Rightarrow> k | JarRemove k \<Rightarrow> k)"

text \<open>The cookies a successful answer sets or clears.\<close>

definition set_cookies :: "('e, jar_op list \<times> 'a) outcome \<times> 's \<Rightarrow> cookie list" where
  "set_cookies out = (case fst out of Ok (ops, _) \<Rightarrow> map op_cookie ops | _ \<Rightarrow> [])"

definition cookie_ok :: "cookie \<Rightarrow> bool" where
  "cookie_ok k \<longleftrightarrow> starts_with ''__Host-'' (c_name k) \<and> host_prefix_ok k \<and> c_http_only k \<and> c_same_site k = Some Lax"

lemma set_cookies_end [simp]:
  "set_cookies (throw x s) = []" "set_cookies (ret (ops, y) s) = map op_cookie ops"
  by (simp_all add: set_cookies_def throw_def ret_def)

lemma cookies_of_bind:
  "(\<And>x s'. m s = (Ok x, s') \<Longrightarrow> list_all cookie_ok (set_cookies (k x s'))) \<Longrightarrow>
   list_all cookie_ok (set_cookies (bind m k s))"
  by (auto simp: bind_def set_cookies_def split: prod.split outcome.split)

lemma built_cookies_ok:
  "cookie_ok (build_cookie SESSION_COOKIE v)" "cookie_ok (build_cookie REG_COOKIE v)"
  "cookie_ok (build_cookie AUTH_COOKIE v)" "cookie_ok (clear_cookie SESSION_COOKIE)"
  "cookie_ok (clear_cookie REG_COOKIE)" "cookie_ok (clear_cookie AUTH_COOKIE)"
  by (simp_all add: cookie_ok_def host_prefix_ok_def build_cookie_def clear_cookie_def SESSION_COOKIE_def
      REG_COOKIE_def AUTH_COOKIE_def starts_with_def)

lemma new_session_cookie: "new_session n m b s = (Ok k, s') \<Longrightarrow> cookie_ok k"
  by (auto simp: new_session_def with_lock_Ok_iff Let_def built_cookies_ok)

text \<open>
  Every cookie a handler sets or clears satisfies the rule of its \<open>__Host-\<close> name (secure,
  path \<open>/\<close>, no domain), is hidden from scripts and is not sent cross-site; so a browser accepts
  the clearing as well as the setting.
\<close>

theorem handler_cookies_accepted:
  "list_all cookie_ok (set_cookies (register_start w e jar body a))
   \<and> list_all cookie_ok (set_cookies (register_finish w c e jar cred a))
   \<and> list_all cookie_ok (set_cookies (login_start w e a))
   \<and> list_all cookie_ok (set_cookies (login_finish w c e jar cred a))
   \<and> list_all cookie_ok (set_cookies (logout jar s))"
proof (intro conjI)
  note set = op_cookie_def built_cookies_ok
  show "list_all cookie_ok (set_cookies (register_start w e jar body a))"
    unfolding register_start_def
    by (auto simp: set split: sum.split prod.split intro!: cookies_of_bind)
  show "list_all cookie_ok (set_cookies (register_finish w c e jar cred a))"
    by (cases "register_finish w c e jar cred a")
      (auto simp: set_cookies_def set split: outcome.split elim!: register_finish_OkE dest!: new_session_cookie)
  show "list_all cookie_ok (set_cookies (login_start w e a))"
    unfolding login_start_def
    by (auto simp: set split: sum.split prod.split intro!: cookies_of_bind)
  show "list_all cookie_ok (set_cookies (login_finish w c e jar cred a))"
    unfolding login_finish_def
    by (auto simp: set split: option.split sum.split prod.split intro!: cookies_of_bind dest!: new_session_cookie)
  show "list_all cookie_ok (set_cookies (logout jar s))"
    by (auto simp: logout_def set_cookies_def set split: option.split)
qed

section \<open>Failing closed\<close>

text \<open>
  A store that cannot be read never opens the account: with its lock poisoned the service
  counts as registered, no registration is started or finished, and the code is not given away.
\<close>

theorem poisoned_store_fails_closed:
  fixes a :: "'w auth_state"
  assumes "poisoned (a_store a)"
  shows "registered a \<and> \<not> is_ok (fst (register_start w e jar body a))
    \<and> \<not> is_ok (fst (register_finish w c e jar cred a)) \<and> \<not> is_ok (fst (login_start w e a))
    \<and> creds (snd (register_start w e jar body a)) = creds a"
proof (intro conjI)
  obtain v b where sv: "(session_valid (clk e 0) jar :: ('w, bool) handler) a = (v, b)" and b: "a_store b = a_store a"
    and v: "\<And>x. v \<noteq> Err x"
    by (cases "jar SESSION_COOKIE"; cases "poisoned (a_sessions a)"; 
        cases "(session_valid (clk e 0) jar :: ('w, bool) handler) a")
      (auto simp: session_valid_def with_lock_def ret_def split: option.splits if_splits)
  have start: "\<exists>r. register_start w e jar body a = (r, b) \<and> \<not> is_ok r"
    using assms b v
    by (cases v) (auto simp: register_start_def bind_def sv reg_mode_of_def registered_def check_code_def
        intended_user_def with_lock_def is_ok_def split: bool.split)
  show "registered a" using assms by (simp add: registered_def)
  show "\<not> is_ok (fst (register_start w e jar body a))"
    and "creds (snd (register_start w e jar body a)) = creds a"
    using start b by (auto simp: creds_def)
  show "\<not> is_ok (fst (login_start w e a))"
    using assms by (simp add: login_start_def bind_def with_lock_def is_ok_def)
  show "\<not> is_ok (fst (register_finish w c e jar cred a))"
  proof
    have keep: "a_store a' = a_store a" if "take_reg now rid a = (x, a')" for x a' now rid
      using that by (auto simp: take_reg_def with_lock_def Let_def split: option.splits if_splits)
    assume "is_ok (fst (register_finish w c e jar cred a))"
    then obtain v a' where "register_finish w c e jar cred a = (Ok v, a')"
      by (auto simp: is_ok_def prod_eq_iff split: outcome.splits)
    then show False
      by (rule register_finish_OkE) (use assms in \<open>auto simp: enrol_def with_lock_Ok_iff dest: keep\<close>)
  qed
qed

theorem poisoned_store_fails_closed_witness:
  "let a = (ex_a ex_claim)\<lparr>a_store := Mutex True default_store\<rparr>
   in registered a \<and> \<not> is_ok (fst (register_start ex_w (ex_env 30 3) Map.empty (Some (Some ex_code)) a))
    \<and> \<not> is_ok (fst (register_finish ex_w ex_c (ex_env 30 3) Map.empty 3 a))
    \<and> \<not> is_ok (fst (login_start ex_w (ex_env 30 3) a))
    \<and> creds (snd (register_start ex_w (ex_env 30 3) Map.empty (Some (Some ex_code)) a)) = creds a"
  unfolding Let_def by (rule poisoned_store_fails_closed) simp

end
