(* ===== verification/Lives.thy ===== *)
theory Lives
  imports System_Example Auth_Race Auth_Props
begin

text \<open>
  The service across restarts: it starts on the files the last run left, runs, and ends at any
  moment, killed between two requests or two background turns, or in the middle of a save. Only
  the two files outlive it: the credentials and the history. Within a run requests are handled one
  after another.
\<close>

section \<open>A save that is cut short is a save that fails\<close>

text \<open>
  A process that ends after \<open>n\<close> system calls of a save leaves the files that a save leaves whose
  call \<open>n\<close> fails. As a failed save is undone in memory only, the files at every moment of
  a request are files of a request that has ended, with some faults.
\<close>

lemma calls_cut_short:
  "snd (snd (sys_calls (\<lambda>j. j < i + n) i ops s)) = snd (snd (sys_calls (\<lambda>_. True) i (take n ops) s))"
proof (induction ops arbitrary: n i s)
  case (Cons op ops)
  show ?case
  proof (cases n)
    case (Suc m)
    have "(\<lambda>j. j < i + n) = (\<lambda>j. j < Suc i + m)" using Suc by auto
    with Cons.IH [of "Suc i" m] Suc show ?thesis by (auto split: option.split)
  qed (cases s, simp)
qed (simp split: prod.split)

lemma save_cut_short:
  "snd (replace_file (\<lambda>i. i < n) tmp path chunks d) = crash_after n tmp path chunks d"
  using calls_cut_short [of 0 n "replace_ops tmp path chunks" "(None, d)"]
  by (simp add: replace_file_def crash_after_def case_prod_unfold)

section \<open>Facts about single runs\<close>

abbreviation at_path :: "string \<Rightarrow> 'w auth_state \<Rightarrow> bool" where
  "at_path p a \<equiv> a_path a = p"

lemma path_sections:
  fixes p :: string
  shows "keeps (at_path p) (session_valid now jar)" and "keeps (at_path p) (reg_mode_of signed_in)"
    and "keeps (at_path p) (check_code mode body)" and "keeps (at_path p) (intended_user w e)"
    and "keeps (at_path p) (remember_user uid)" and "keeps (at_path p) (park_reg e reg_state mode)"
    and "keeps (at_path p) (take_reg now rid)" and "keeps (at_path p) undo_push"
    and "keeps (at_path p) (persist c e)" and "keeps (at_path p) (new_session now1 now2 bytes)"
    and "keeps (at_path p) (take_auth now aid)" and "keeps (at_path p) (bump_counters w result)"
    and "keeps (at_path p) (close_bootstrap mode)"
  by (rule keepsI;
      auto simp: session_valid_def reg_mode_of_def check_code_def intended_user_def remember_user_def park_reg_def
        take_reg_def undo_push_def persist_def new_session_def take_auth_def bump_counters_def close_bootstrap_def
        with_lock_def ret_def bind_def Let_def
        split: option.splits if_splits prod.splits bool.splits outcome.splits)+

lemma path_enrol: "keeps (at_path p) (enrol w now jar mode pk)"
  by (rule keepsI)
    (auto simp: enrol_def with_lock_def bind_def ret_def throw_def dest!: keepsD [OF path_sections(1) refl]
      split: option.splits reg_mode.splits prod.splits outcome.splits if_splits)

lemma path_save: "keeps (at_path p) (persist_or_undo c e)" "keeps (at_path p) (persist_best_effort c e)"
  by (rule keepsI;
      auto simp: persist_or_undo_def persist_best_effort_def bind_def throw_def
        dest!: keepsD [OF path_sections(9) refl] keepsD [OF path_sections(8) refl]
        split: prod.splits outcome.splits)+

lemma path_lock: "(\<And>x a. a_path (snd (k x a)) = a_path a) \<Longrightarrow> keeps (at_path p) (with_lock sel k)"
  by (rule keeps_with_lock) (metis snd_conv)

lemma path_then: "keeps (at_path p) m \<Longrightarrow> (\<And>x. keeps (at_path p) (k x)) \<Longrightarrow> keeps (at_path p) (bind m k)"
  by (rule triple_bind)

lemma path_handlers:
  shows "keeps (at_path p) (register_start w e jar body)" and "keeps (at_path p) (register_finish w c e jar cred)"
    and "keeps (at_path p) (login_start w e)" and "keeps (at_path p) (login_finish w c e jar cred)"
  unfolding register_start_def register_finish_def login_start_def login_finish_def
  by (auto intro!: path_then path_sections path_enrol path_save path_lock triple_ret triple_throw
      split: prod.split sum.split option.split) (simp_all add: ret_def)

lemma exec_path: "exec w c act a = (ok, a') \<Longrightarrow> a_path a' = a_path a"
proof (cases act)
  case (CheckSession now jar)
  then show "exec w c act a = (ok, a') \<Longrightarrow> a_path a' = a_path a"
    by (auto split: prod.splits dest!: keepsD [OF path_sections(1) refl])
qed (auto simp: map_prod_def logout_def sweep_def split: prod.splits option.splits
      dest!: keepsD [OF path_handlers(1) refl] keepsD [OF path_handlers(2) refl]
        keepsD [OF path_handlers(3) refl] keepsD [OF path_handlers(4) refl])

text \<open>Credentials are only added.\<close>

lemma prov_now:
  assumes "prov_inv w code ids h a"
  shows "prov_inv w code (cred_ids w a) h a"
proof -
  have "set ids \<subseteq> set (cred_ids w a)" using prov_credsD [OF assms] by auto
  with assms issued_ids [OF this] sign_in_ids [OF this] show ?thesis by (simp add: prov_inv_def)
qed

lemma auth_step_grows:
  assumes "auth_reachable w c code ids h a" and "auth_step w c (h, a) (h', a')"
  shows "\<exists>N. cred_ids w a' = cred_ids w a @ N"
proof -
  have "prov_machine_inv w c code (cred_ids w a) (h, a)"
    using reach(1) [OF assms(1)] prov_now [OF reachable_prov [OF assms(1)]]
    by (simp add: prov_machine_inv_def auth_machine_inv_def)
  from prov_machine.inv_step [OF assms(2) this] show ?thesis
    by (auto simp: prov_machine_inv_def dest: prov_credsD)
qed

lemma version_compact: "keeps (txn_db (\<lambda>d. d_version d = v)) (compact_stmts ok prev now)"
  unfolding compact_stmts_def
  by (intro triple_bind [where Q = "\<lambda>_. txn_db (\<lambda>d. d_version d = v)"] keeps_stmt_db)
    (auto simp: on_samples_Some gc_metrics_Some set_last_Some)

lemma version_try_compact:
  assumes "d_version (st_db s) = v"
  shows "d_version (st_db (compact_store ok now s)) = v"
proof -
  let ?m = "bind (stmt (ok \<circ> Suc) ''begin'' nop) (\<lambda>_.
      bind (compact_stmts (ok \<circ> Suc) (last_compact (ok 0) (st_db s)) now) (\<lambda>_. stmt (ok \<circ> Suc) ''commit'' nop))"
  obtain r t where tr: "transact ?m s = (r, t)" by (metis surj_pair)
  have "keeps (txn_db (\<lambda>d. d_version d = v)) ?m"
    by (intro triple_bind [where Q = "\<lambda>_. txn_db (\<lambda>d. d_version d = v)"] keeps_db_nop version_compact)
  from transact_db [OF tr this] assms have "d_version (st_db t) = v" by simp
  then show ?thesis
    using tr by (auto simp: compact_store_def try_compact_def Let_def bind_def split: outcome.split option.split)
qed

lemma store_version:
  assumes "reachable (store_init f) (store_step f) s"
  shows "d_version (st_db s) = SCHEMA_VERSION"
  using assms
proof (induction rule: reachable.induct)
  case (reachable_init s)
  then show ?case by (auto simp: store_init_def migrate_def Let_def dest!: open_store_db)
next
  case (reachable_step s t)
  from reachable_step(2) show ?case
  proof (cases rule: store_step.cases)
    case (1 ok ts pts)
    show ?thesis
      unfolding 1 write_samples_def
      by (rule try_write_keeps [OF prod.collapse [symmetric], where P = "\<lambda>d. d_version d = SCHEMA_VERSION"])
        (use reachable_step.IH in \<open>auto simp: intern_def put_sample_def split: option.splits if_splits\<close>)
  next
    case (2 ok now)
    then show ?thesis using version_try_compact reachable_step.IH by simp
  next
    case (3 ok)
    then show ?thesis by (auto simp: migrate_def Let_def dest!: open_store_db)
  qed
qed

section \<open>The machine of runs\<close>

text \<open>The files the last run left, and the running service with its configuration.\<close>

record 'w life =
  lf_fs :: fs
  lf_db :: db
  lf_run :: "(config \<times> 'w system) option"

text \<open>The files as they are now; without sign-in the service does not touch the credentials.\<close>

definition files_now :: "'w life \<Rightarrow> fs" where
  "files_now l =
     (case lf_run l of
        None \<Rightarrow> lf_fs l
      | Some (_, s) \<Rightarrow> (case ap_auth (sy_app s) of None \<Rightarrow> lf_fs l | Some a \<Rightarrow> a_disk a))"

definition db_now :: "'w life \<Rightarrow> db" where
  "db_now l = (case lf_run l of None \<Rightarrow> lf_db l | Some (_, s) \<Rightarrow> st_db (ap_store (sy_app s)))"

definition started :: "'w app_state \<Rightarrow> 'w system" where
  "started app = \<lparr>sy_app = app, sy_collector = new_collector, sy_pending = None\<rparr>"

text \<open>
  A start that succeeds, with any configuration for the same data directory and relying party, and a
  credential file that can be examined; a step of the running service; the end of the process.
\<close>

inductive life_step ::
  "'w webauthn \<Rightarrow> 'w codec \<Rightarrow> (i64 list \<Rightarrow> i64) \<Rightarrow> string \<Rightarrow> 'w life \<Rightarrow> 'w life \<Rightarrow> bool"
  for w :: "'w webauthn" and c :: "'w codec" and f :: "i64 list \<Rightarrow> i64" and dir :: string where
  life_boot:
    "lf_run l = None \<Longrightarrow> startup b = Inr (cfg, wo, app) \<Longrightarrow>
     bt_fs b = lf_fs l \<Longrightarrow> bt_db b = lf_db l \<Longrightarrow> bt_codec b = c \<Longrightarrow> stat_ok (bt_env b) \<Longrightarrow>
     cf_data_dir cfg = dir \<Longrightarrow> wo = None \<or> wo = Some w \<Longrightarrow>
     life_step w c f dir l (l\<lparr>lf_run := Some (cfg, started app)\<rparr>)"
| life_run:
    "lf_run l = Some (cfg, s) \<Longrightarrow> sys_step w c f cfg s t \<Longrightarrow>
     life_step w c f dir l (l\<lparr>lf_run := Some (cfg, t)\<rparr>)"
| life_end:
    "lf_run l \<noteq> None \<Longrightarrow>
     life_step w c f dir l \<lparr>lf_fs = files_now l, lf_db = db_now l, lf_run = None\<rparr>"

abbreviation auth_file :: "string \<Rightarrow> string" where
  "auth_file dir \<equiv> path_join dir ''auth.json''"

definition life_init ::
  "'w webauthn \<Rightarrow> 'w codec \<Rightarrow> (i64 list \<Rightarrow> i64) \<Rightarrow> string \<Rightarrow> 'w life \<Rightarrow> bool" where
  "life_init w c f dir l \<longleftrightarrow>
     lf_run l = None \<and> wa_ok w \<and> codec_ok c \<and> rowid_ok f \<and> wf_fs (lf_fs l) \<and> file_ok (lf_db l)
     \<and> (\<exists>ids. distinct ids \<and> disk_has w c (lf_fs l) (auth_file dir) ids)"

text \<open>The ids of the credentials in the file.\<close>

definition enrolled :: "'w webauthn \<Rightarrow> 'w codec \<Rightarrow> string \<Rightarrow> 'w life \<Rightarrow> 'w list" where
  "enrolled w c dir l =
     (case file_at (files_now l) (auth_file dir) of
        None \<Rightarrow> []
      | Some j \<Rightarrow> (case from_json c j of None \<Rightarrow> [] | Some s \<Rightarrow> map (cred_id w) (passkeys s)))"

lemma disk_has_enrolled: "disk_has w c (files_now l) (auth_file dir) ids \<Longrightarrow> enrolled w c dir l = ids"
  by (auto simp: disk_has_def enrolled_def split: option.splits)

section \<open>Its invariant\<close>

definition run_ok ::
  "'w webauthn \<Rightarrow> 'w codec \<Rightarrow> (i64 list \<Rightarrow> i64) \<Rightarrow> string \<Rightarrow> config \<Rightarrow> 'w system \<Rightarrow> bool" where
  "run_ok w c f dir cfg s \<longleftrightarrow>
     (\<exists>code ids. sys_inv w c f cfg code ids s)
     \<and> (\<forall>a. ap_auth (sy_app s) = Some a \<longrightarrow> a_path a = auth_file dir)"

definition life_inv ::
  "'w webauthn \<Rightarrow> 'w codec \<Rightarrow> (i64 list \<Rightarrow> i64) \<Rightarrow> string \<Rightarrow> 'w list \<Rightarrow> 'w life \<Rightarrow> bool" where
  "life_inv w c f dir ids l \<longleftrightarrow>
     wa_ok w \<and> codec_ok c \<and> rowid_ok f \<and> wf_fs (files_now l) \<and> file_ok (db_now l)
     \<and> (\<exists>new. disk_has w c (files_now l) (auth_file dir) (ids @ new) \<and> distinct (ids @ new))
     \<and> (\<forall>cfg s. lf_run l = Some (cfg, s) \<longrightarrow> run_ok w c f dir cfg s)"

lemma life_inv_init:
  assumes "life_init w c f dir l"
  shows "life_inv w c f dir [] l"
  using assms by (auto simp: life_init_def life_inv_def files_now_def db_now_def)

lemma life_inv_now:
  assumes "life_inv w c f dir ids l"
  shows "life_inv w c f dir (enrolled w c dir l) l"
proof -
  obtain new where "disk_has w c (files_now l) (auth_file dir) (ids @ new)" "distinct (ids @ new)"
    using assms by (auto simp: life_inv_def)
  then show ?thesis
    using assms unfolding life_inv_def by (metis append_Nil2 disk_has_enrolled)
qed

lemma sys_inv_auth:
  assumes "sys_inv w c f cfg code ids s" and "ap_auth (sy_app s) = Some a"
  obtains h where "auth_reachable w c code ids h a" and "auth_inv w c a"
proof -
  obtain h where h: "auth_reachable w c code ids h a" using assms by (auto simp: sys_inv_def auth_part_def)
  with reachable_inv [OF h] show ?thesis by (intro that) simp_all
qed

lemma sys_inv_db: "sys_inv w c f cfg code ids s \<Longrightarrow>
    db_ok (st_db (ap_store (sy_app s))) \<and> d_version (st_db (ap_store (sy_app s))) = SCHEMA_VERSION"
  using store_machine.inv_reachable store_version by (auto simp: sys_inv_def store_inv_def)

lemma permuted_path: "permuted a a' \<Longrightarrow> a_path a' = a_path a"
  by (auto simp: permuted_def)

text \<open>What a step of the running service does to the authentication state.\<close>

lemma sys_step_acts:
  assumes "sys_step w c f cfg s t" and "sys_inv w c f cfg code ids s"
  shows "acts w c (ap_auth (sy_app s)) (ap_auth (sy_app t))
    \<or> (\<exists>a a'. ap_auth (sy_app s) = Some a \<and> ap_auth (sy_app t) = Some a' \<and> permuted a a')"
  using assms(1)
proof (cases rule: sys_step.cases)
  case (sys_request x rq r app)
  have "clean a" if "ap_auth (sy_app s) = Some a" for a
    using assms(2) that auth_part_clean unfolding sys_inv_def by blast
  from serve_parts [OF sys_request(2) this sys_request(3)] sys_request(1) show ?thesis by simp
next
  case (sys_sweep now)
  then show ?thesis
    by (cases "ap_auth (sy_app s)")
      (auto simp: sweeper_turn_def acts_def intro!: exI [of _ "Sweep now"])
qed (auto simp: publish_def record_points_def compactor_turn_def)

lemma run_step:
  assumes "sys_step w c f cfg s t" and "run_ok w c f dir cfg s"
  shows "run_ok w c f dir cfg t
    \<and> (case ap_auth (sy_app s) of
         None \<Rightarrow> ap_auth (sy_app t) = None
       | Some a \<Rightarrow> (\<exists>a' N. ap_auth (sy_app t) = Some a' \<and> cred_ids w a' = cred_ids w a @ N))"
proof -
  obtain code ids where inv: "sys_inv w c f cfg code ids s"
    and path: "\<And>a. ap_auth (sy_app s) = Some a \<Longrightarrow> a_path a = auth_file dir"
    using assms(2) by (auto simp: run_ok_def)
  have inv': "sys_inv w c f cfg code ids t" by (rule sys_step_inv [OF assms(1) inv])
  show ?thesis
  proof (cases "ap_auth (sy_app s)")
    case None
    then have "ap_auth (sy_app t) = None" using sys_step_acts [OF assms(1) inv] by auto
    with inv' None show ?thesis by (auto simp: run_ok_def)
  next
    case (Some a)
    obtain h where h: "auth_reachable w c code ids h a" using sys_inv_auth [OF inv Some] by blast
    have "\<exists>h' a'. ap_auth (sy_app t) = Some a' \<and> (a' = a \<or> auth_step w c (h, a) (h', a')) \<and> a_path a' = a_path a"
      using sys_step_acts [OF assms(1) inv, unfolded acts_def]
    proof (elim disjE exE conjE)
      assume "ap_auth (sy_app s) = ap_auth (sy_app t)"
      with Some show ?thesis by simp
    qed (use Some in \<open>auto intro: auth_step.intros dest: exec_path permuted_path\<close>)
    then obtain h' a' where a': "ap_auth (sy_app t) = Some a'" "a' = a \<or> auth_step w c (h, a) (h', a')"
      "a_path a' = a_path a" by blast
    have "\<exists>N. cred_ids w a' = cred_ids w a @ N" using a'(2) auth_step_grows [OF h] by auto
    with inv' a'(1,3) path [OF Some] show ?thesis by (auto simp: run_ok_def Some)
  qed
qed

lemma life_inv_boot:
  assumes "life_inv w c f dir ids l" and "lf_run l = None" and start: "startup b = Inr (cfg, wo, app)"
    and b: "bt_fs b = lf_fs l" "bt_db b = lf_db l" "bt_codec b = c" "stat_ok (bt_env b)"
    and "cf_data_dir cfg = dir" and wo: "wo = None \<or> wo = Some w"
  shows "life_inv w c f dir ids (l\<lparr>lf_run := Some (cfg, started app)\<rparr>)"
proof -
  obtain new where disk: "disk_has w c (lf_fs l) (auth_file dir) (ids @ new)" and dist: "distinct (ids @ new)"
    and pre: "wa_ok w" "codec_ok c" "rowid_ok f" "wf_fs (lf_fs l)" "file_ok (lf_db l)"
    using assms(1,2) by (auto simp: life_inv_def files_now_def db_now_def)
  have boot: "boot_ok w c f b" using pre b by (simp add: boot_ok_def)
  from start obtain u st where parts: "setup_auth b cfg = Inr u" "open_store (bt_sql b) (bt_db b) = Inr st"
    "wo = map_option fst u" "app = app_of cfg u st"
    by (rule startup_Inr)
  have loaded: "map (cred_id w) (passkeys (inner (a_store a))) = ids @ new \<and> a_path a = auth_file dir \<and> a_disk a = lf_fs l"
    if "ap_auth app = Some a" for a
  proof -
    have "ap_auth app = map_option snd u" using parts(4) by (simp add: app_of_def)
    with that obtain w' where u: "u = Some (w', a)" by (cases u) auto
    then obtain rp origin where
      "auth_new (bt_platform b) c (bt_env b) (lf_fs l) rp origin dir = Inr (w', a)"
      using parts(1) b assms(8) by (auto simp: setup_auth_def bind_sum_Inr_iff split: option.splits)
    then obtain x where x: "load_store c (bt_env b) (lf_fs l) (auth_file dir) = Inr x"
      and a: "a = fresh_auth_state (bt_env b) (lf_fs l) (auth_file dir) x"
      by (auto simp: auth_new_def Let_def split: sum.splits if_splits)
    have "map (cred_id w) (passkeys x) = ids @ new"
      using x disk b(4)
      by (auto simp: load_store_def disk_has_def path_exists_def file_at_def default_store_def
          split: if_splits option.splits)
    with a show ?thesis by (simp add: fresh_auth_state_def)
  qed
  have "sys_init w c f cfg (hex32 (boot_rand (bt_env b))) (ids @ new) (started app)"
    unfolding sys_init_def started_def using start boot wo loaded dist by blast
  then have inv: "sys_inv w c f cfg (hex32 (boot_rand (bt_env b))) (ids @ new) (started app)"
    by (rule sys_init_inv)
  moreover have "files_now (l\<lparr>lf_run := Some (cfg, started app)\<rparr>) = lf_fs l"
    using loaded by (auto simp: files_now_def started_def split: option.split)
  moreover have "file_ok (st_db (ap_store app))"
    using sys_inv_db [OF inv] by (simp add: file_ok_def started_def)
  ultimately show ?thesis
    using pre disk dist loaded by (auto simp: life_inv_def db_now_def run_ok_def started_def)
qed

lemma life_inv_run:
  assumes inv: "life_inv w c f dir ids l" and run: "lf_run l = Some (cfg, s)" and step: "sys_step w c f cfg s t"
  shows "life_inv w c f dir ids (l\<lparr>lf_run := Some (cfg, t)\<rparr>)"
proof -
  obtain new where disk: "disk_has w c (files_now l) (auth_file dir) (ids @ new)"
    and dist: "distinct (ids @ new)" and pre: "wa_ok w" "codec_ok c" "rowid_ok f" "wf_fs (files_now l)"
    and ok: "run_ok w c f dir cfg s"
    using inv run by (auto simp: life_inv_def)
  note next_run = run_step [OF step ok]
  then obtain code boot_ids where inv': "sys_inv w c f cfg code boot_ids t" by (auto simp: run_ok_def)
  have "wf_fs (files_now (l\<lparr>lf_run := Some (cfg, t)\<rparr>))
      \<and> (\<exists>new. disk_has w c (files_now (l\<lparr>lf_run := Some (cfg, t)\<rparr>)) (auth_file dir) (ids @ new) \<and> distinct (ids @ new))"
  proof (cases "ap_auth (sy_app s)")
    case None
    with next_run run disk dist pre show ?thesis by (auto simp: files_now_def)
  next
    case (Some a)
    with next_run obtain a' N where a': "ap_auth (sy_app t) = Some a'" "cred_ids w a' = cred_ids w a @ N" by auto
    obtain code0 ids0 where "sys_inv w c f cfg code0 ids0 s" using ok by (auto simp: run_ok_def)
    from sys_inv_auth [OF this Some] have "auth_inv w c a" by blast
    then have "disk_has w c (files_now l) (auth_file dir) (cred_ids w a)"
      using ok Some run by (auto simp: run_ok_def files_now_def auth_inv_def disk_ok_def)
    with disk have "cred_ids w a = ids @ new" by (auto dest!: disk_has_enrolled)
    moreover from sys_inv_auth [OF inv' a'(1)] have "auth_inv w c a'" by blast
    then have "disk_has w c (a_disk a') (auth_file dir) (cred_ids w a')" "wf_fs (a_disk a')" "distinct (cred_ids w a')"
      using next_run a'(1) by (auto simp: run_ok_def auth_inv_def disk_ok_def)
    moreover have "files_now (l\<lparr>lf_run := Some (cfg, t)\<rparr>) = a_disk a'" using a'(1) by (simp add: files_now_def)
    ultimately show ?thesis using a'(2) by (metis append.assoc)
  qed
  moreover have "file_ok (st_db (ap_store (sy_app t)))" using sys_inv_db [OF inv'] by (simp add: file_ok_def)
  ultimately show ?thesis using pre next_run by (auto simp: life_inv_def db_now_def)
qed

lemma life_inv_step:
  assumes "life_step w c f dir l l'" and "life_inv w c f dir ids l"
  shows "life_inv w c f dir ids l'"
  using assms(1)
proof (cases rule: life_step.cases)
  case (life_boot b cfg wo app)
  then show ?thesis using life_inv_boot [OF assms(2)] by simp
next
  case (life_run cfg s t)
  then show ?thesis using life_inv_run [OF assms(2)] by simp
next
  case life_end
  then have "files_now l' = files_now l" "db_now l' = db_now l" "lf_run l' = None"
    by (simp_all add: files_now_def db_now_def)
  with assms(2) show ?thesis by (simp add: life_inv_def)
qed

interpretation lives: invariant_of "life_init w c f dir" "life_step w c f dir" "life_inv w c f dir []"
  for w :: "'w webauthn" and c :: "'w codec" and f :: "i64 list \<Rightarrow> i64" and dir :: string
  by unfold_locales (auto intro: life_inv_init life_inv_step)

interpretation later: invariant_of "\<lambda>l. life_inv w c f dir ids l" "life_step w c f dir" "life_inv w c f dir ids"
  for w :: "'w webauthn" and c :: "'w codec" and f :: "i64 list \<Rightarrow> i64" and dir :: string and ids :: "'w list"
  by unfold_locales (auto intro: life_inv_step)

lemma life_inv_later:
  assumes "reachable (life_init w c f dir) (life_step w c f dir) l"
    and "reachable ((=) l) (life_step w c f dir) l'"
  shows "life_inv w c f dir (enrolled w c dir l) l'"
  using assms(2)
proof (induction rule: reachable.induct)
  case (reachable_init s)
  then show ?case using life_inv_now [OF lives.inv_reachable [OF assms(1)]] by simp
qed (rule life_inv_step)

section \<open>What outlives a run\<close>

text \<open>
  C4. Enrolment is for good as long as each request is handled before the next one starts, the file
  of the credentials can be examined at every start, and no power is lost: from any moment on,
  through any number of such requests, faults, ends of the process between them or in a save and starts with
  any accepted configuration, the credentials in the file stay, in their order, and new ones are
  only added; whenever the service runs with sign-in, its memory agrees with the file, and once
  there is a credential no run offers a one-time code. What overlapping requests can do instead is
  in \<open>Race_Saves\<close>, what a power failure can do in \<open>power_loss_undoes_claim\<close>.
\<close>

theorem enrolment_outlives_runs:
  assumes "reachable (life_init w c f dir) (life_step w c f dir) l"
    and "reachable ((=) l) (life_step w c f dir) l'"
  shows "\<exists>new. enrolled w c dir l' = enrolled w c dir l @ new \<and> distinct (enrolled w c dir l')
    \<and> (\<forall>cfg s a. lf_run l' = Some (cfg, s) \<longrightarrow> ap_auth (sy_app s) = Some a \<longrightarrow>
        cred_ids w a = enrolled w c dir l'
        \<and> (if enrolled w c dir l' = [] then \<not> registered a else registered a \<and> bootstrap_token a = None))"
proof -
  have inv: "life_inv w c f dir (enrolled w c dir l) l'" by (rule life_inv_later [OF assms])
  then obtain new where disk: "disk_has w c (files_now l') (auth_file dir) (enrolled w c dir l @ new)"
    and dist: "distinct (enrolled w c dir l @ new)" by (auto simp: life_inv_def)
  have "cred_ids w a = enrolled w c dir l'
      \<and> (if enrolled w c dir l' = [] then \<not> registered a else registered a \<and> bootstrap_token a = None)"
    if run: "lf_run l' = Some (cfg, s)" "ap_auth (sy_app s) = Some a" for cfg s a
  proof -
    obtain code ids where "sys_inv w c f cfg code ids s" and path: "a_path a = auth_file dir"
      using inv run by (auto simp: life_inv_def run_ok_def)
    from sys_inv_auth [OF this(1) run(2)] have a: "auth_inv w c a" by blast
    then have "disk_has w c (files_now l') (auth_file dir) (cred_ids w a)"
      using path run by (simp add: auth_inv_def disk_ok_def files_now_def)
    then have "cred_ids w a = enrolled w c dir l'" by (simp add: disk_has_enrolled)
    moreover have "registered a \<longleftrightarrow> cred_ids w a \<noteq> []"
      using a by (auto simp: registered_def cred_ids_def creds_def auth_inv_def clean_def)
    moreover have "cred_ids w a \<noteq> [] \<Longrightarrow> bootstrap_token a = None"
      using a by (auto simp: bootstrap_token_def cred_ids_def auth_inv_def clean_def bootstrap_ok_def)
    ultimately show ?thesis by auto
  qed
  with disk_has_enrolled [OF disk] dist show ?thesis by (intro exI [of _ new] conjI allI impI) simp_all
qed

text \<open>
  C5. The service can be started again after any runs in which requests were handled one after
  another: whatever requests, faults and ends of the process led to the files, a start with an
  accepted configuration on a working system succeeds, with the credentials of the file and
  the history of the last run, or an empty one when the file is of another version. Two saves that
  overlap can leave a file that does not load (\<open>shared_temp_file_is_torn\<close>).
\<close>

theorem restart_after_serial_runs:
  assumes "reachable (life_init w c f dir) (life_step w c f dir) l" and "lf_run l = None"
    and "bt_fs b = lf_fs l" and "bt_db b = lf_db l" and "bt_codec b = c"
    and "load (bt_parsers b) (bt_load b) = Inr cfg" and "cf_data_dir cfg = dir"
    and "cf_rp_id cfg = Some rp" and "cf_rp_origin cfg = Some origin"
    and "parse_url (bt_platform b) origin = Inr u" and "build_webauthn (bt_platform b) rp u = Inr w"
    and "bt_data_dir_ok b" and "mkdir_ok (bt_env b)" and "stat_ok (bt_env b)" and "read_ok (bt_env b)"
    and "\<forall>i. bt_sql b i" and "bt_listen b"
  shows "\<exists>app a. startup b = Inr (cfg, Some w, app) \<and> ap_auth app = Some a
    \<and> cred_ids w a = enrolled w c dir l \<and> db_ok (st_db (ap_store app))
    \<and> rows (st_db (ap_store app)) = (if d_version (lf_db l) = SCHEMA_VERSION then rows (lf_db l) else [])"
proof -
  have inv: "life_inv w c f dir [] l" by (rule lives.inv_reachable [OF assms(1)])
  then obtain ids where disk: "disk_has w c (lf_fs l) (auth_file dir) ids"
    and db: "file_ok (lf_db l)" and en: "enrolled w c dir l = ids"
    using assms(2) disk_has_enrolled [of w c l dir] by (auto simp: life_inv_def files_now_def db_now_def)
  from reload_disk [OF disk assms(14,15)] obtain st where
    st: "load_store c (bt_env b) (lf_fs l) (auth_file dir) = Inr st" "map (cred_id w) (passkeys st) = ids" by blast
  let ?a = "fresh_auth_state (bt_env b) (lf_fs l) (auth_file dir) st"
  let ?s = "\<lparr>st_write = new_mutex (), st_read = new_mutex (), st_ids = new_mutex [], st_db = migrate (lf_db l)\<rparr>"
  have "setup_auth b cfg = Inr (Some (w, ?a))"
    using st(1) assms by (simp add: setup_auth_def auth_new_def Let_def bind_sum_def)
  moreover have "open_store (bt_sql b) (bt_db b) = Inr ?s" using assms by (simp add: open_store_def)
  ultimately have "startup b = Inr (cfg, Some w, app_of cfg (Some (w, ?a)) ?s)"
    using assms(6,12,17) by (simp add: startup_def bind_sum_def check_exposure_def)
  moreover have "cred_ids w ?a = ids" using st(2) by (simp add: cred_ids_def creds_def fresh_auth_state_def)
  moreover have "rows (migrate (lf_db l)) = (if d_version (lf_db l) = SCHEMA_VERSION then rows (lf_db l) else [])"
    by (auto simp: migrate_def Let_def rows_def split: option.split)
  ultimately show ?thesis
    using db_ok_migrate [OF db] en by (intro exI conjI) (assumption | simp add: app_of_def)+
qed

section \<open>A start on the file of an earlier run\<close>

definition ex_life :: "nat life" where
  "ex_life = \<lparr>lf_fs = ex_disk, lf_db = empty_db, lf_run = None\<rparr>"

definition ex_next_boot :: "nat boot" where
  "ex_next_boot = (ex_service ex_sign_in_web)\<lparr>bt_fs := ex_disk\<rparr>"

definition ex_next_app :: "nat app_state" where
  "ex_next_app = app_of (ex_cfg (Some ''h'') [0, 0, 0, 0] 80) (Some (ex_w, ex_restarted)) ex_open"

lemma ex_life_init: "reachable (life_init ex_w ex_c next_rowid ''/data'') (life_step ex_w ex_c next_rowid ''/data'') ex_life"
proof (rule reachable_init)
  have "disk_has ex_w ex_c ex_disk (auth_file ''/data'') [1]"
    by (simp add: disk_has_def ex_disk_def file_at_def ex_c_def ex_cred_id ex_path_def)
  moreover have "wf_fs ex_disk" by (simp add: wf_fs_def ex_disk_def)
  moreover have "file_ok empty_db" by (simp add: file_ok_def empty_db_def SCHEMA_VERSION_def)
  moreover have "distinct [1 :: nat]" by simp
  ultimately show "life_init ex_w ex_c next_rowid ''/data'' ex_life"
    using ex_w_ok ex_c_ok next_rowid_ok unfolding life_init_def ex_life_def by fastforce
qed

lemma ex_enrolled: "lf_run l = None \<Longrightarrow> lf_fs l = ex_disk \<Longrightarrow> enrolled ex_w ex_c ''/data'' l = [1]"
  by (rule disk_has_enrolled)
    (simp add: files_now_def disk_has_def ex_disk_def file_at_def ex_c_def ex_cred_id ex_path_def)

lemma ex_next_startup:
  "startup ex_next_boot = Inr (ex_cfg (Some ''h'') [0, 0, 0, 0] 80, Some ex_w, ex_next_app)"
proof -
  have "load (bt_parsers ex_next_boot) (bt_load ex_next_boot) = Inr (ex_cfg (Some ''h'') [0, 0, 0, 0] 80)"
    using ex_loaded(1) by (simp add: ex_next_boot_def)
  moreover have "setup_auth ex_next_boot (ex_cfg (Some ''h'') [0, 0, 0, 0] 80) = Inr (Some (ex_w, ex_restarted))"
    by (simp add: setup_auth_def ex_cfg_def ex_next_boot_def ex_service_def ex_platform_def auth_new_def
        ex_restarted_def ex_path_def load_store_def path_exists_def file_at_def ex_disk_def ex_boot_def ex_c_def
        bind_sum_def Let_def)
  moreover have "open_store (bt_sql ex_next_boot) (bt_db ex_next_boot) = Inr ex_open"
    using ex_open_bt [of ex_sign_in_web] by (simp add: ex_next_boot_def)
  ultimately show ?thesis
    by (simp add: startup_def bind_sum_def check_exposure_def ex_next_app_def)
      (simp add: ex_next_boot_def ex_service_def)
qed

theorem enrolment_outlives_runs_witness:
  "cred_ids ex_w ex_restarted = [1] \<and> registered ex_restarted \<and> bootstrap_token ex_restarted = None"
proof -
  let ?l = "ex_life\<lparr>lf_run := Some (ex_cfg (Some ''h'') [0, 0, 0, 0] 80, started ex_next_app)\<rparr>"
  have "life_step ex_w ex_c next_rowid ''/data'' ex_life ?l"
    using ex_next_startup
    by (rule life_boot [rotated]) (simp_all add: ex_life_def ex_next_boot_def ex_service_def ex_boot_def ex_cfg_def)
  then have later: "reachable ((=) ex_life) (life_step ex_w ex_c next_rowid ''/data'') ?l"
    by (rule reachable_step [rotated]) (simp add: reachable_init)
  have run: "lf_run ?l = Some (ex_cfg (Some ''h'') [0, 0, 0, 0] 80, started ex_next_app)"
    "ap_auth (sy_app (started ex_next_app)) = Some ex_restarted"
    by (simp_all add: started_def ex_next_app_def app_of_def)
  have "enrolled ex_w ex_c ''/data'' ex_life = [1]" by (rule ex_enrolled) (simp_all add: ex_life_def)
  moreover have "cred_ids ex_w ex_restarted = [1]"
    by (simp add: cred_ids_def creds_def ex_restarted_def fresh_auth_state_def ex_cred_id)
  ultimately show ?thesis
    using enrolment_outlives_runs [OF ex_life_init later] run by fastforce
qed

theorem restart_after_serial_runs_witness:
  "\<exists>app a. startup ex_next_boot = Inr (ex_cfg (Some ''h'') [0, 0, 0, 0] 80, Some ex_w, app)
     \<and> ap_auth app = Some a \<and> cred_ids ex_w a = [1]"
proof -
  have "load (bt_parsers ex_next_boot) (bt_load ex_next_boot) = Inr (ex_cfg (Some ''h'') [0, 0, 0, 0] 80)"
    using ex_loaded(1) by (simp add: ex_next_boot_def)
  note start = restart_after_serial_runs [OF ex_life_init _ _ _ _ this, of "''h''" "''https://h''" 0]
  have "enrolled ex_w ex_c ''/data'' ex_life = [1]" by (rule ex_enrolled) (simp_all add: ex_life_def)
  with start show ?thesis
    by (simp add: ex_life_def ex_next_boot_def ex_service_def ex_platform_def ex_boot_def ex_cfg_def all_ok_def) blast
qed

end
