(* ===== verification/Page.thy ===== *)
theory Page
  imports Service Collect_Props
begin

text \<open>
  The script of \<open>src/src/web/dashboard.html\<close> where it decides what the owner is told: the polling loop,
  the freshness line, the verdict over host and containers, and the history ranges. Numbers are exact;
  a number that JSON cannot carry arrives as \<open>null\<close> and compares like 0.
\<close>

section \<open>The polling loop\<close>

text \<open>
  The variables of the script, the timeouts that are armed with their delays in milliseconds, the
  calls of \<open>poll\<close> that wait for a response, and what the browser knows: whether the tab is hidden and
  whether the page is being left for the sign-in.
\<close>

record page =
  pg_timer :: "nat option"
  pg_inflight :: bool
  pg_backoff :: rat
  pg_last_ok :: int
  pg_last_ts :: "u64 option"
  pg_latest :: "snapshot option"
  pg_rendered :: "snapshot option"
  pg_armed :: "(nat \<times> rat) list"
  pg_fresh_id :: nat
  pg_waiting :: nat
  pg_hidden :: bool
  pg_leaving :: bool

definition CAD :: rat where
  "CAD = 5000"

definition REQ_TIMEOUT :: int where
  "REQ_TIMEOUT = 8000"

definition clear_timeout :: "page \<Rightarrow> page" where
  "clear_timeout s =
     (case pg_timer s of
        None \<Rightarrow> s
      | Some i \<Rightarrow> s\<lparr>pg_armed := filter (\<lambda>(j, _). j \<noteq> i) (pg_armed s)\<rparr>)"

definition schedule :: "rat \<Rightarrow> page \<Rightarrow> page" where
  "schedule ms s0 =
     (let s = clear_timeout s0
      in s\<lparr>pg_timer := Some (pg_fresh_id s), pg_armed := pg_armed s @ [(pg_fresh_id s, ms)],
           pg_fresh_id := Suc (pg_fresh_id s)\<rparr>)"

text \<open>Up to the first \<open>await\<close>.\<close>

definition poll :: "page \<Rightarrow> page" where
  "poll s = (if pg_inflight s then s else s\<lparr>pg_inflight := True, pg_waiting := Suc (pg_waiting s)\<rparr>)"

text \<open>What the request comes to; \<open>Received\<close> is a body that was read, at a time in milliseconds.\<close>

datatype result = Unauthorised | Lost | Received int "snapshot option"

definition settled :: "page \<Rightarrow> page" where
  "settled s = s\<lparr>pg_inflight := False, pg_waiting := pg_waiting s - 1\<rparr>"

definition again :: "page \<Rightarrow> page" where
  "again s = (if pg_hidden s then s else schedule (pg_backoff s) s)"

definition show_data :: "snapshot option \<Rightarrow> page \<Rightarrow> page" where
  "show_data d s =
     (case d of
        None \<Rightarrow> s\<lparr>pg_latest := None\<rparr>
      | Some snap \<Rightarrow>
          if pg_last_ts s = Some (sn_ts snap) then s\<lparr>pg_latest := d\<rparr>
          else s\<lparr>pg_last_ts := Some (sn_ts snap), pg_latest := d, pg_rendered := d\<rparr>)"

text \<open>The rest of \<open>poll\<close>: the response, the \<open>finally\<close> block, the rendering.\<close>

definition finish_poll :: "result \<Rightarrow> page \<Rightarrow> page" where
  "finish_poll r s =
     (case r of
        Unauthorised \<Rightarrow> settled (s\<lparr>pg_leaving := True\<rparr>)
      | Lost \<Rightarrow> again (settled (s\<lparr>pg_backoff := min (pg_backoff s * (16 / 10)) 20000\<rparr>))
      | Received now d \<Rightarrow>
          show_data d (again (settled (s\<lparr>pg_last_ok := now, pg_backoff := CAD\<rparr>))))"

definition page_start :: "bool \<Rightarrow> page" where
  "page_start hidden =
     poll \<lparr>pg_timer = None, pg_inflight = False, pg_backoff = CAD, pg_last_ok = 0, pg_last_ts = None,
           pg_latest = None, pg_rendered = None, pg_armed = [], pg_fresh_id = 0, pg_waiting = 0,
           pg_hidden = hidden, pg_leaving = False\<rparr>"

text \<open>A timeout fires, a response comes, the tab is hidden or shown, in any order.\<close>

inductive page_step :: "page \<Rightarrow> page \<Rightarrow> bool" where
  fire: "(i, ms) \<in> set (pg_armed s) \<Longrightarrow> page_step s (poll (s\<lparr>pg_armed := remove1 (i, ms) (pg_armed s)\<rparr>))"
| respond: "0 < pg_waiting s \<Longrightarrow> page_step s (finish_poll r s)"
| hide: "\<not> pg_hidden s \<Longrightarrow> page_step s (clear_timeout (s\<lparr>pg_hidden := True\<rparr>))"
| unhide: "pg_hidden s \<Longrightarrow> page_step s (schedule 0 (s\<lparr>pg_hidden := False\<rparr>))"

inductive_cases page_stepE: "page_step s t"

text \<open>One chain of polls: at most one call waits, at most one timeout is armed, and it is the timer.\<close>

definition loop_ok :: "page \<Rightarrow> bool" where
  "loop_ok s \<longleftrightarrow>
     pg_waiting s = of_bool (pg_inflight s)
     \<and> (pg_armed s = [] \<or> (\<exists>i ms. pg_armed s = [(i, ms)] \<and> pg_timer s = Some i))
     \<and> (\<forall>(i, ms)\<in>set (pg_armed s). ms = 0 \<or> CAD \<le> ms \<and> ms \<le> 20000)
     \<and> CAD \<le> pg_backoff s \<and> pg_backoff s \<le> 20000
     \<and> (pg_hidden s \<longrightarrow> pg_armed s = [])
     \<and> (\<not> pg_hidden s \<longrightarrow> \<not> pg_leaving s \<longrightarrow> pg_inflight s \<or> pg_armed s \<noteq> [])
     \<and> map_option sn_ts (pg_rendered s) = pg_last_ts s
     \<and> (\<forall>d. pg_latest s = Some d \<longrightarrow> pg_last_ts s = Some (sn_ts d))"

lemma clear_all:
  "loop_ok s \<Longrightarrow> pg_timer t = pg_timer s \<Longrightarrow> pg_armed t = pg_armed s \<Longrightarrow> pg_armed (clear_timeout t) = []"
  by (auto simp: clear_timeout_def loop_ok_def split: option.split)

lemma clear_keeps [simp]:
  "pg_timer (clear_timeout s) = pg_timer s" "pg_inflight (clear_timeout s) = pg_inflight s"
  "pg_backoff (clear_timeout s) = pg_backoff s" "pg_last_ok (clear_timeout s) = pg_last_ok s"
  "pg_last_ts (clear_timeout s) = pg_last_ts s" "pg_latest (clear_timeout s) = pg_latest s"
  "pg_rendered (clear_timeout s) = pg_rendered s" "pg_fresh_id (clear_timeout s) = pg_fresh_id s"
  "pg_waiting (clear_timeout s) = pg_waiting s" "pg_hidden (clear_timeout s) = pg_hidden s"
  "pg_leaving (clear_timeout s) = pg_leaving s"
  by (simp_all add: clear_timeout_def split: option.split)

lemma loop_schedule:
  assumes "pg_armed (clear_timeout s) = []" and "ms = 0 \<or> CAD \<le> ms \<and> ms \<le> 20000"
    and "\<not> pg_hidden s" and "pg_waiting s = of_bool (pg_inflight s)" and "CAD \<le> pg_backoff s \<and> pg_backoff s \<le> 20000"
    and "map_option sn_ts (pg_rendered s) = pg_last_ts s" and "\<forall>d. pg_latest s = Some d \<longrightarrow> pg_last_ts s = Some (sn_ts d)"
  shows "loop_ok (schedule ms s)"
  using assms by (simp add: loop_ok_def schedule_def Let_def)

lemma loop_show: "loop_ok s \<Longrightarrow> loop_ok (show_data d s)"
  by (auto simp: loop_ok_def show_data_def split: option.splits)

text \<open>The end of a response, whatever it recorded.\<close>

lemma loop_again:
  assumes inv: "loop_ok s" and "0 < pg_waiting s" and b: "CAD \<le> b" "b \<le> 20000"
    and t: "t = s\<lparr>pg_last_ok := now, pg_backoff := b\<rparr>"
  shows "loop_ok (again (settled t))"
proof (cases "pg_hidden s")
  case True
  with assms show ?thesis by (auto simp: loop_ok_def again_def settled_def of_bool_def split: if_splits)
next
  case False
  have "pg_armed (clear_timeout (settled t)) = []" using clear_all [OF inv] by (simp add: t settled_def)
  moreover have "pg_waiting (settled t) = of_bool (pg_inflight (settled t))"
    using inv by (simp add: loop_ok_def settled_def t of_bool_def)
  ultimately have "loop_ok (schedule b (settled t))"
    using inv b False by (intro loop_schedule) (simp_all add: settled_def t loop_ok_def)
  with False show ?thesis by (simp add: again_def settled_def t)
qed

interpretation page: invariant_of "\<lambda>s. \<exists>h. s = page_start h" page_step loop_ok
proof
  show "loop_ok s" if "\<exists>h. s = page_start h" for s
    using that by (auto simp: page_start_def poll_def loop_ok_def CAD_def)
next
  fix s t
  assume "page_step s t" and inv: "loop_ok s"
  then show "loop_ok t"
  proof cases
    case (fire i ms)
    with inv show ?thesis by (auto simp: loop_ok_def poll_def)
  next
    case (respond r)
    have b: "CAD \<le> min (pg_backoff s * (16 / 10)) 20000" "min (pg_backoff s * (16 / 10)) 20000 \<le> 20000" "CAD \<le> 20000"
      using inv by (simp_all add: loop_ok_def CAD_def)
    note lost = loop_again [OF inv respond(2) b(1,2), of _ "pg_last_ok s"]
    note got = loop_again [OF inv respond(2) order_refl b(3)]
    show ?thesis
    proof (cases r)
      case Unauthorised
      with respond inv show ?thesis
        by (auto simp: finish_poll_def settled_def loop_ok_def of_bool_def split: if_splits)
    next
      case Lost
      with respond lost show ?thesis by (simp add: finish_poll_def)
    next
      case (Received now d)
      with respond got show ?thesis by (auto simp: finish_poll_def intro: loop_show)
    qed
  next
    case hide
    have "pg_armed t = []" using clear_all [OF inv, of "s\<lparr>pg_hidden := True\<rparr>"] hide(1) by simp
    with hide inv show ?thesis by (simp add: loop_ok_def)
  next
    case unhide
    have "pg_armed (clear_timeout (s\<lparr>pg_hidden := False\<rparr>)) = []" by (rule clear_all [OF inv]) simp_all
    with inv show ?thesis
      unfolding unhide(1) by (intro loop_schedule) (simp_all add: loop_ok_def)
  qed
qed

abbreviation page_reachable :: "page \<Rightarrow> bool" where
  "page_reachable \<equiv> reachable (\<lambda>s. \<exists>h. s = page_start h) page_step"

text \<open>
  C36. The page polls in a single chain that does not end: however responses, timeouts and changes of
  tab interleave, at most one request waits and at most one timeout is armed; a hidden tab arms
  none, and a visible one that is not being left has a request or a timeout. A timeout that
  follows a response waits between five and twenty seconds.
\<close>

theorem polling_is_single_and_goes_on:
  assumes "page_reachable s"
  shows "pg_waiting s \<le> 1 \<and> length (pg_armed s) \<le> 1
    \<and> (pg_hidden s \<longrightarrow> pg_armed s = [])
    \<and> (\<not> pg_hidden s \<and> \<not> pg_leaving s \<longrightarrow> 0 < pg_waiting s \<or> pg_armed s \<noteq> [])
    \<and> (\<forall>(i, ms)\<in>set (pg_armed s). ms = 0 \<or> 5000 \<le> ms \<and> ms \<le> 20000)"
  using page.inv_reachable [OF assms] by (auto simp: loop_ok_def CAD_def)

section \<open>Freshness\<close>

text \<open>\<open>Math.round\<close>; the clock is \<open>Date.now()\<close>, in milliseconds.\<close>

definition shown_age :: "int \<Rightarrow> snapshot \<Rightarrow> int" where
  "shown_age now d = max 0 \<lfloor>of_int now / 1000 - of_int (uint (sn_ts d)) + 1 / 2 :: rat\<rfloor>"

text \<open>The class \<open>stale\<close> of the page; \<open>||\<close> takes 45 when the server sent 0.\<close>

definition page_stale :: "int \<Rightarrow> page \<Rightarrow> bool" where
  "page_stale now s =
     (case pg_latest s of
        None \<Rightarrow> REQ_TIMEOUT * 2 < now - pg_last_ok s \<or> pg_last_ok s = 0
      | Some d \<Rightarrow>
          (if sn_stale_after_secs d = 0 then 45 else uint (sn_stale_after_secs d)) < shown_age now d
          \<or> pg_last_ok s \<noteq> 0 \<and> REQ_TIMEOUT * 2 < now - pg_last_ok s)"

section \<open>The verdict\<close>

datatype level = Crit | Warn | Idle | Fine

fun lvl :: "float_val \<Rightarrow> rat \<Rightarrow> rat \<Rightarrow> level" where
  "lvl (Finite v) w c = (if c \<le> v then Crit else if w \<le> v then Warn else Fine)"
| "lvl _ w c = (if c \<le> 0 then Crit else if w \<le> 0 then Warn else Fine)"

definition sev :: "container \<Rightarrow> level" where
  "sev c =
     (let h = to_lowercase (text_or_empty (cn_health c))
      in if cn_state c = ''restarting'' \<or> cn_state c = ''dead'' \<or> h = ''unhealthy'' then Crit
         else if cn_state c = ''exited'' \<or> h = ''starting'' then Warn
         else if cn_state c \<noteq> ''running'' then Idle else Fine)"

text \<open>\<open>!!d.docker_error\<close>: an empty text counts as none.\<close>

definition blind :: "snapshot \<Rightarrow> bool" where
  "blind d \<longleftrightarrow> text_or_empty (sn_docker_error d) \<noteq> []"

definition levels :: "snapshot \<Rightarrow> level list" where
  "levels d =
     [lvl (h_cpu_pct (sn_host d)) 75 90, lvl (h_mem_used_pct (sn_host d)) 80 92,
      lvl (h_disk_used_pct (sn_host d)) 80 90] @ map sev (sn_containers d)"

definition crit_count :: "snapshot \<Rightarrow> nat" where
  "crit_count d = of_bool (blind d) + count_list (levels d) Crit"

definition warn_count :: "snapshot \<Rightarrow> nat" where
  "warn_count d = count_list (levels d) Warn"

definition worst :: "snapshot \<Rightarrow> level" where
  "worst d = (if 0 < crit_count d then Crit else if 0 < warn_count d then Warn else Fine)"

datatype verdict = DockerUnreachable | AllHealthy | Trouble nat nat

definition verdict_of :: "snapshot \<Rightarrow> verdict" where
  "verdict_of d =
     (if blind d then DockerUnreachable
      else if worst d = Fine then AllHealthy else Trouble (crit_count d) (warn_count d))"

lemma shown_age_near:
  assumes "0 \<le> now" and "now div 10 ^ 9 < 2 ^ 64"
  shows "uint (age_secs now d) \<le> shown_age (now div 10 ^ 6) d \<and> shown_age (now div 10 ^ 6) d \<le> uint (age_secs now d) + 1"
proof -
  let ?t = "uint (sn_ts d)" and ?ms = "now div 10 ^ 6"
  have "now div 10 ^ 9 = ?ms div 1000" by (simp flip: zdiv_zmult2_eq)
  moreover have "0 \<le> now div 10 ^ 9" using assms(1) by (simp add: pos_imp_zdiv_nonneg_iff)
  then have "uint (now_secs now) = now div 10 ^ 9"
    using assms by (simp add: now_secs_def uint_word_of_int_eq take_bit_int_eq_self del: of_int_power)
  then have age: "uint (age_secs now d) = max 0 (now div 10 ^ 9 - ?t)"
    by (simp add: age_secs_def sat_sub_u64_def word_le_def uint_sub_if_size max_def)
  ultimately have age: "uint (age_secs now d) = max 0 (?ms div 1000 - ?t)" by simp
  have "?ms = 1000 * (?ms div 1000) + ?ms mod 1000" "0 \<le> ?ms mod 1000" "?ms mod 1000 < 1000" by simp_all
  then obtain q r where q: "?ms = 1000 * q + r" "q = ?ms div 1000" "0 \<le> r" "r < 1000" by blast
  let ?y = "of_int r / 1000 + 1 / 2 :: rat"
  have "of_int ?ms / 1000 - of_int ?t + 1 / 2 = (of_int (q - ?t) + ?y :: rat)" unfolding q(1) by simp
  then have "\<lfloor>of_int ?ms / 1000 - of_int ?t + 1 / 2 :: rat\<rfloor> = (q - ?t) + \<lfloor>?y\<rfloor>" by (simp only: int_add_floor)
  moreover have "(of_int r :: rat) < 1000" "0 \<le> (of_int r :: rat)" using q(3,4) by simp_all
  then have "0 \<le> ?y" "?y < 2" by linarith+
  then have "\<lfloor>?y\<rfloor> = 0 \<or> \<lfloor>?y\<rfloor> = 1" by linarith
  ultimately have "\<lfloor>of_int ?ms / 1000 - of_int ?t + 1 / 2 :: rat\<rfloor> \<in> {q - ?t, q - ?t + 1}" by auto
  then show ?thesis unfolding age shown_age_def q(2) [symmetric] by auto
qed

text \<open>
  C35. The page does not show a healthy system when the health check fails: with the clock of the
  server, a snapshot for which \<open>/healthz\<close> answers 503 is shown as stale or as "docker unreachable", the
  verdict "all systems healthy" means that Docker answered and every container is in order or
  stopped on purpose, and a page that reaches the server calls its data stale at most a second
  ahead of \<open>/healthz\<close>.
\<close>

theorem page_agrees_with_healthz:
  assumes "0 \<le> now" and "now div 10 ^ 9 < 2 ^ 64" and "pg_latest s = Some d"
    and "sn_stale_after_secs d \<noteq> 0" and "sn_docker_error d \<noteq> Some []"
  shows "(fst (healthz now now2 (Some d)) = SERVICE_UNAVAILABLE \<longrightarrow>
      page_stale (now div 10 ^ 6) s \<or> verdict_of d = DockerUnreachable)
    \<and> (verdict_of d = AllHealthy \<longrightarrow> sn_docker_error d = None \<and> (\<forall>c\<in>set (sn_containers d). sev c \<in> {Fine, Idle}))
    \<and> (page_stale (now div 10 ^ 6) s \<longrightarrow> now div 10 ^ 6 - pg_last_ok s \<le> 16000 \<longrightarrow>
        uint (sn_stale_after_secs d) \<le> uint (age_secs now d))"
proof (intro conjI impI)
  note age = shown_age_near [OF assms(1,2), of d]
  have blind: "blind d \<longleftrightarrow> sn_docker_error d \<noteq> None"
    using assms(5) by (auto simp: blind_def text_or_empty_def split: option.splits)
  show "page_stale (now div 10 ^ 6) s \<or> verdict_of d = DockerUnreachable"
    if "fst (healthz now now2 (Some d)) = SERVICE_UNAVAILABLE"
    using that age blind assms(3,4)
    by (auto simp: healthz_def page_stale_def verdict_of_def word_less_def split: if_splits option.splits)
  show "uint (sn_stale_after_secs d) \<le> uint (age_secs now d)"
    if "page_stale (now div 10 ^ 6) s" "now div 10 ^ 6 - pg_last_ok s \<le> 16000"
    using that age assms(3,4) by (auto simp: page_stale_def REQ_TIMEOUT_def)
  assume healthy: "verdict_of d = AllHealthy"
  then have none: "crit_count d = 0" "warn_count d = 0" and "\<not> blind d"
    by (auto simp: verdict_of_def worst_def split: if_splits)
  then show "sn_docker_error d = None" using blind by simp
  have "Crit \<notin> set (levels d)" "Warn \<notin> set (levels d)"
    using none by (auto simp: crit_count_def warn_count_def count_list_0_iff)
  moreover have "sev c \<in> set (levels d)" if "c \<in> set (sn_containers d)" for c
    using that by (simp add: levels_def)
  ultimately show "\<forall>c\<in>set (sn_containers d). sev c \<in> {Fine, Idle}"
    by (metis insert_iff level.exhaust)
qed

section \<open>The history ranges\<close>

text \<open>
  \<open>setRange\<close> and the chart: the selected range, the range whose data is drawn, the sequence number,
  the caption, and the loads that wait for their two series.
\<close>

datatype range = Live | Hour1 | Hour6 | Hour24 | Day7

datatype caption = Plain | NoData | Unavailable

record chart =
  ch_mode :: range
  ch_data :: range
  ch_seq :: nat
  ch_caption :: caption
  ch_loads :: "(nat \<times> range) list"

definition set_range :: "range \<Rightarrow> chart \<Rightarrow> chart" where
  "set_range m s0 =
     (let s = s0\<lparr>ch_seq := Suc (ch_seq s0), ch_mode := m, ch_caption := Plain\<rparr>
      in if m = Live then s\<lparr>ch_data := Live\<rparr>
         else s\<lparr>ch_loads := ch_loads s @ [(ch_seq s, m)]\<rparr>)"

text \<open>An earlier load is aborted, which may come too late: it can still end in any way.\<close>

datatype load_result = Loaded bool | Aborted | LoadFailed

definition end_load :: "nat \<times> range \<Rightarrow> load_result \<Rightarrow> chart \<Rightarrow> chart" where
  "end_load l x s0 =
     (let s = s0\<lparr>ch_loads := removeAll l (ch_loads s0)\<rparr>
      in case x of
           Loaded some \<Rightarrow>
             if fst l \<noteq> ch_seq s \<or> ch_mode s \<noteq> snd l then s
             else s\<lparr>ch_data := snd l, ch_caption := (if some then Plain else NoData)\<rparr>
         | Aborted \<Rightarrow> s
         | LoadFailed \<Rightarrow> if fst l = ch_seq s then s\<lparr>ch_caption := Unavailable\<rparr> else s)"

text \<open>\<open>render\<close> feeds the chart in the live mode.\<close>

definition render_chart :: "chart \<Rightarrow> chart" where
  "render_chart s = (if ch_mode s = Live then s\<lparr>ch_data := Live\<rparr> else s)"

definition chart_start :: chart where
  "chart_start = \<lparr>ch_mode = Live, ch_data = Live, ch_seq = 0, ch_caption = Plain, ch_loads = []\<rparr>"

text \<open>Only a load that was superseded is aborted.\<close>

inductive chart_step :: "chart \<Rightarrow> chart \<Rightarrow> bool" where
  select_range: "chart_step s (set_range m s)"
| load_ends: "l \<in> set (ch_loads s) \<Longrightarrow> x = Aborted \<longrightarrow> fst l \<noteq> ch_seq s \<Longrightarrow> chart_step s (end_load l x s)"
| new_data: "chart_step s (render_chart s)"

definition chart_ok :: "chart \<Rightarrow> bool" where
  "chart_ok s \<longleftrightarrow>
     (ch_mode s = Live \<longrightarrow> ch_data s = Live)
     \<and> (\<forall>(n, m)\<in>set (ch_loads s). n \<le> ch_seq s \<and> (n = ch_seq s \<longrightarrow> m = ch_mode s))
     \<and> (ch_data s = ch_mode s \<or> (ch_seq s, ch_mode s) \<in> set (ch_loads s) \<or> ch_caption s = Unavailable)"

interpretation chart: invariant_of "(=) chart_start" chart_step chart_ok
proof
  show "chart_ok s" if "chart_start = s" for s
    using that by (auto simp: chart_ok_def chart_start_def)
next
  fix s t
  assume "chart_step s t" and inv: "chart_ok s"
  then show "chart_ok t"
  proof cases
    case (select_range m)
    with inv show ?thesis by (fastforce simp: chart_ok_def set_range_def Let_def)
  next
    case (load_ends l x)
    obtain n m where l: "l = (n, m)" by (cases l)
    with inv load_ends show ?thesis
      by (cases x) (auto simp: chart_ok_def end_load_def Let_def split: if_splits)
  next
    case new_data
    with inv show ?thesis by (auto simp: chart_ok_def render_chart_def)
  qed
qed

text \<open>
  The chart never takes the data of a range that is not selected: the end of a superseded load
  changes neither data nor caption, and the drawn range is the selected one unless its own load
  is still under way or has failed, which the caption says.
\<close>

theorem chart_follows_selection:
  assumes "reachable ((=) chart_start) chart_step s"
  shows "(ch_data s = ch_mode s \<or> (ch_seq s, ch_mode s) \<in> set (ch_loads s) \<or> ch_caption s = Unavailable)
    \<and> (\<forall>(n, m)\<in>set (ch_loads s). n \<noteq> ch_seq s \<longrightarrow>
        (\<forall>x. end_load (n, m) x s = s\<lparr>ch_loads := removeAll (n, m) (ch_loads s)\<rparr>))
    \<and> (\<forall>t. chart_step s t \<longrightarrow> ch_data t \<noteq> ch_data s \<longrightarrow> ch_data t = ch_mode t)"
proof (intro conjI)
  show "ch_data s = ch_mode s \<or> (ch_seq s, ch_mode s) \<in> set (ch_loads s) \<or> ch_caption s = Unavailable"
    using chart.inv_reachable [OF assms] by (simp add: chart_ok_def)
  show "\<forall>(n, m)\<in>set (ch_loads s). n \<noteq> ch_seq s \<longrightarrow>
      (\<forall>x. end_load (n, m) x s = s\<lparr>ch_loads := removeAll (n, m) (ch_loads s)\<rparr>)"
    by (auto simp: end_load_def Let_def split: load_result.split)
  show "\<forall>t. chart_step s t \<longrightarrow> ch_data t \<noteq> ch_data s \<longrightarrow> ch_data t = ch_mode t"
    by (auto elim!: chart_step.cases simp: set_range_def end_load_def render_chart_def Let_def
        split: load_result.splits if_splits)
qed

section \<open>Concrete runs\<close>

text \<open>A first response while the tab is hidden, then the tab is shown.\<close>

theorem polling_is_single_and_goes_on_witness:
  "\<exists>s. page_reachable s \<and> \<not> pg_hidden s \<and> (0 < pg_waiting s \<or> pg_armed s \<noteq> [])"
proof -
  let ?s = "finish_poll Lost (page_start True)" and ?t = "schedule 0 ((finish_poll Lost (page_start True))\<lparr>pg_hidden := False\<rparr>)"
  have s: "page_reachable ?s"
    by (rule reachable_step, rule reachable_init, rule exI, rule refl, rule respond)
      (simp add: page_start_def poll_def)
  have "pg_hidden ?s"
    by (simp add: finish_poll_def again_def settled_def page_start_def poll_def)
  with s have t: "page_reachable ?t" by (intro reachable_step [OF s unhide])
  moreover have "\<not> pg_hidden ?t" "\<not> pg_leaving ?t"
    by (simp_all add: schedule_def Let_def finish_poll_def again_def settled_def page_start_def poll_def)
  ultimately show ?thesis using polling_is_single_and_goes_on [OF t] by blast
qed

text \<open>A snapshot of a tick without Docker.\<close>

definition ex_unconnected :: snapshot where
  "ex_unconnected = (fst (collect_snapshot 0 ex_host None []))\<lparr>sn_stale_after_secs := 45\<rparr>"

theorem page_agrees_with_healthz_witness:
  "page_stale 0 ((page_start False)\<lparr>pg_latest := Some ex_unconnected\<rparr>) \<or> verdict_of ex_unconnected = DockerUnreachable"
proof -
  have "sn_docker_error ex_unconnected = Some ''docker not connected''" "sn_stale_after_secs ex_unconnected = 45"
    by (simp_all add: ex_unconnected_def collect_snapshot_def Let_def)
  moreover from this have "fst (healthz 0 0 (Some ex_unconnected)) = SERVICE_UNAVAILABLE"
    by (simp add: healthz_def)
  ultimately show ?thesis
    using page_agrees_with_healthz [of 0 "(page_start False)\<lparr>pg_latest := Some ex_unconnected\<rparr>" ex_unconnected 0]
    by simp
qed

theorem chart_follows_selection_witness:
  "ch_data (end_load (2, Day7) LoadFailed (end_load (1, Hour1) (Loaded True) (set_range Day7 (set_range Hour1 chart_start)))) = Live"
proof -
  let ?s = "set_range Day7 (set_range Hour1 chart_start)"
  have "reachable ((=) chart_start) chart_step ?s"
    by (rule reachable_step, rule reachable_step, rule reachable_init, rule refl, rule select_range, rule select_range)
  from chart_follows_selection [OF this] have "end_load (1, Hour1) (Loaded True) ?s = ?s\<lparr>ch_loads := removeAll (1, Hour1) (ch_loads ?s)\<rparr>"
    by (simp add: set_range_def chart_start_def)
  then show ?thesis by (simp add: end_load_def set_range_def chart_start_def)
qed

end
