(* ===== verification/Page_Text.thy ===== *)
theory Page_Text
  imports Page
begin

text \<open>
  The markup that \<open>src/src/web/dashboard.html\<close> builds from texts of the Docker daemon: \<open>esc\<close>, the row of a
  container and the banner. Strings are UTF-8 bytes; the characters that matter to a parser
  of HTML are all ASCII.
\<close>

section \<open>Escaping\<close>

definition entities :: "(char \<times> string) list" where
  "entities =
     [(CHR ''&'', ''amp;''), (CHR ''<'', ''lt;''), (CHR ''>'', ''gt;''), (CHR 0x22, ''quot;''), (CHR 0x27, ''#39;'')]"

definition esc :: "string \<Rightarrow> string" where
  "esc s = concat (map (\<lambda>c. case map_of entities c of None \<Rightarrow> [c] | Some e \<Rightarrow> CHR ''&'' # e) s)"

text \<open>The characters with which a text could leave its place in the markup.\<close>

definition markup :: "string \<Rightarrow> string" where
  "markup = filter (\<lambda>c. c \<in> {CHR ''<'', CHR ''>'', CHR 0x22, CHR 0x27})"

text \<open>How a browser reads a text with these entities.\<close>

fun read_entity :: "(char \<times> string) list \<Rightarrow> string \<Rightarrow> (char \<times> string) option" where
  "read_entity [] s = None"
| "read_entity ((c, e) # es) s = (case strip_prefix e s of Some r \<Rightarrow> Some (c, r) | None \<Rightarrow> read_entity es s)"

lemma read_entity_shorter: "read_entity es s = Some (c, r) \<Longrightarrow> length r \<le> length s"
  by (induction es s rule: read_entity.induct) (auto simp: strip_prefix_Some split: option.splits)

function shown_text :: "string \<Rightarrow> string" where
  "shown_text [] = []"
| "shown_text (x # s) =
     (case (if x = CHR ''&'' then read_entity entities s else None) of
        Some (c, r) \<Rightarrow> c # shown_text r
      | None \<Rightarrow> x # shown_text s)"
  by pat_completeness auto
termination
  by (relation "measure length") (auto split: if_splits dest!: read_entity_shorter)

lemma shown_esc [simp]: "shown_text (esc s) = s"
proof (induction s)
  case (Cons c s)
  then show ?case
    by (auto simp: esc_def entities_def)
qed (simp add: esc_def)

lemma markup_append [simp]: "markup (s @ t) = markup s @ markup t"
  by (simp add: markup_def)

lemma markup_esc [simp]: "markup (esc s) = []"
  by (induction s) (auto simp: markup_def esc_def entities_def)

section \<open>Numbers\<close>

lemma markup_decimal [simp]: "0 \<le> n \<Longrightarrow> markup (decimal n) = []"
proof (induction n rule: decimal.induct)
  case (1 n)
  have digit: "markup [char_of (48 + m)] = []" if "0 \<le> m" "m < 10" for m :: int
  proof -
    have "m = 0 \<or> m = 1 \<or> m = 2 \<or> m = 3 \<or> m = 4 \<or> m = 5 \<or> m = 6 \<or> m = 7 \<or> m = 8 \<or> m = 9"
      using that by presburger
    then show ?thesis by (elim disjE) (simp_all add: markup_def char_of_def)
  qed
  show ?case
    using 1 digit by (subst decimal.simps) (auto simp: markup_append)
qed

definition to_fixed :: "nat \<Rightarrow> rat \<Rightarrow> string" where
  "to_fixed k x =
     (let n = \<lfloor>\<bar>x\<bar> * 10 ^ k + 1 / 2\<rfloor>; f = decimal (n mod 10 ^ k)
      in (if x < 0 then ''-'' else []) @ decimal (n div 10 ^ k)
         @ (if k = 0 then [] else ''.'' @ replicate (k - length f) (CHR ''0'') @ f))"

lemma markup_to_fixed [simp]: "markup (to_fixed k x) = []"
proof -
  let ?n = "\<lfloor>\<bar>x\<bar> * 10 ^ k + 1 / 2\<rfloor>"
  have "0 \<le> \<bar>x\<bar> * 10 ^ k + 1 / 2" by simp
  then have "0 \<le> ?n" by linarith
  then have "0 \<le> ?n div 10 ^ k" "0 \<le> ?n mod 10 ^ k" by (simp_all add: pos_imp_zdiv_nonneg_iff)
  moreover have "markup (replicate m (CHR ''0'')) = []" for m by (simp add: markup_def)
  moreover have "markup ''-'' = []" "markup ''.'' = []" "markup [] = []" by (simp_all add: markup_def)
  ultimately show ?thesis by (simp add: to_fixed_def Let_def del: append_Cons)
qed

section \<open>The row of a container\<close>

definition dash :: string where
  "dash = [CHR 0xE2, CHR 0x80, CHR 0x94]"

definition level_class :: "level \<Rightarrow> string" where
  "level_class l = (case l of Crit \<Rightarrow> ''crit'' | Warn \<Rightarrow> ''warn'' | Idle \<Rightarrow> ''idle'' | Fine \<Rightarrow> ''ok'')"

definition mem_text :: "container \<Rightarrow> string" where
  "mem_text c =
     (case cn_mem_mb c of
        None \<Rightarrow> dash
      | Some m \<Rightarrow> if 1000 \<le> m then to_fixed 1 (of_int (uint m) / 1000) @ ''G'' else decimal (uint m) @ ''M'')"

definition mem_share :: "container \<Rightarrow> rat option" where
  "mem_share c =
     (case (cn_mem_mb c, cn_mem_limit_mb c) of
        (Some m, Some l) \<Rightarrow> if l = 0 then None else Some (max 0 (min 100 (of_int (uint m) / of_int (uint l) * 100)))
      | _ \<Rightarrow> None)"

text \<open>A number that is not finite arrives as \<open>null\<close>.\<close>

definition cpu_cell :: "container \<Rightarrow> string" where
  "cpu_cell c =
     (case cn_cpu_pct c of
        Some (Finite v) \<Rightarrow> esc (to_fixed 1 v @ ''%'')
      | _ \<Rightarrow> ''<span class=\"dim\">'' @ dash @ ''</span>'')"

definition restart_cell :: "container \<Rightarrow> string" where
  "restart_cell c =
     (case cn_restarts c of
        None \<Rightarrow> ''<span class=\"rst dim\" title=\"inspect failed\">?</span>''
      | Some n \<Rightarrow>
          if 0 < n
          then ''<span class=\"rst hot\">'' @ [CHR 0xE2, CHR 0x86, CHR 0xBB] @ '' '' @ esc (decimal n) @ ''</span>''
          else ''<span class=\"rst dim\">0</span>'')"

definition health_cell :: "container \<Rightarrow> string" where
  "health_cell c =
     (case text_or_empty (cn_health c) of
        [] \<Rightarrow> ''<span class=\"dim\">'' @ dash @ ''</span>''
      | h \<Rightarrow>
          ''<span class=\"pill ''
          @ (if h = ''healthy'' then ''ok'' else if h = ''unhealthy'' then ''crit'' else ''warn'')
          @ ''\">'' @ esc h @ ''</span>'')"

definition share_bar :: "container \<Rightarrow> string" where
  "share_bar c =
     (case mem_share c of
        None \<Rightarrow> []
      | Some p \<Rightarrow> ''<span class=\"bar\"><i style=\"width:'' @ to_fixed 2 p @ ''%\"></i></span>'')"

definition gap :: string where
  "gap = CHR 0x0A # ''      ''"

definition row :: "container \<Rightarrow> string" where
  "row c =
     ''<tr><td><div class=\"cname\">'' @ esc (cn_name c) @ ''</div><div class=\"cimg\">'' @ esc (cn_image c)
     @ ''</div></td>'' @ gap
     @ ''<td><span class=\"pill '' @ level_class (sev c) @ ''\"><span class=\"dot\" aria-hidden=\"true\"></span>''
     @ esc (cn_state c) @ ''</span></td>'' @ gap
     @ ''<td>'' @ health_cell c @ ''</td>'' @ gap
     @ ''<td class=\"r\">'' @ cpu_cell c @ ''</td>'' @ gap
     @ ''<td>'' @ esc (mem_text c) @ share_bar c @ ''</td>'' @ gap
     @ ''<td class=\"r\">'' @ restart_cell c @ ''</td></tr>''"

definition banner :: "snapshot \<Rightarrow> string" where
  "banner d =
     ''<b>Docker unreachable.</b> Container health is not being monitored '' @ dash
     @ '' this page cannot tell you whether your services are up. <span class=\"dim\">''
     @ esc (text_or_empty (sn_docker_error d)) @ ''</span>''"

text \<open>Which cells of a row are filled: what its markup may depend on.\<close>

definition row_shape :: "container \<Rightarrow> bool \<times> bool \<times> bool \<times> bool" where
  "row_shape c =
     (text_or_empty (cn_health c) = [], (\<exists>v. cn_cpu_pct c = Some (Finite v)), mem_share c = None,
      cn_restarts c = None)"

lemma markup_Nil [simp]: "markup [] = []"
  by (simp add: markup_def)

lemma markup_Cons:
  "markup (c # s) = (if c \<in> {CHR ''<'', CHR ''>'', CHR 0x22, CHR 0x27} then c # markup s else markup s)"
  by (simp add: markup_def)

lemma markup_level [simp]: "markup (level_class l) = []"
  by (cases l) (simp_all add: level_class_def markup_Cons)

lemma markup_cells:
  "markup (health_cell c) =
     (if text_or_empty (cn_health c) = [] then markup ''<span class=\"dim\"></span>'' else markup ''<span class=\"pill\"></span>'')"
  "markup (cpu_cell c) =
     (if \<exists>v. cn_cpu_pct c = Some (Finite v) then [] else markup ''<span class=\"dim\"></span>'')"
  "markup (share_bar c) =
     (if mem_share c = None then [] else markup ''<span class=\"bar\"><i style=\"%\"></i></span>'')"
  "markup (restart_cell c) =
     (if cn_restarts c = None then markup ''<span class=\"rst dim\" title=\"inspect failed\">?</span>''
      else markup ''<span class=\"rst\"></span>'')"
  by (auto simp: health_cell_def cpu_cell_def share_bar_def restart_cell_def dash_def markup_Cons
      split: list.split option.split float_val.split)

lemma markup_row: "row_shape c = row_shape c' \<Longrightarrow> markup (row c) = markup (row c')"
proof -
  assume shape: "row_shape c = row_shape c'"
  then have "markup (health_cell c) = markup (health_cell c')" "markup (cpu_cell c) = markup (cpu_cell c')"
    "markup (share_bar c) = markup (share_bar c')" "markup (restart_cell c) = markup (restart_cell c')"
    by (simp_all only: row_shape_def markup_cells prod.inject)
  then show ?thesis unfolding row_def by (simp only: markup_append markup_esc markup_level)
qed

text \<open>
  C37. A text of the Docker daemon stays a text on the page: the browser shows exactly the characters
  of the text, the escaped form has none of the characters that open or close a tag or an
  attribute, and so the markup of a row depends only on which of its cells are filled, and that of the
  banner on nothing, whatever a container, an image or an error message is called.
\<close>

theorem daemon_texts_stay_texts:
  "shown_text (esc t) = t \<and> markup (esc t) = []
   \<and> (row_shape c = row_shape c' \<longrightarrow> markup (row c) = markup (row c'))
   \<and> markup (banner d) = markup ''<b></b><span class=\"dim\"></span>''"
proof (intro conjI impI)
  show "markup (banner d) = markup ''<b></b><span class=\"dim\"></span>''"
    by (simp add: banner_def dash_def markup_Cons)
qed (rule shown_esc, rule markup_esc, erule markup_row)

definition ex_named :: "string \<Rightarrow> container" where
  "ex_named n =
     \<lparr>cn_name = n, cn_image = n, cn_state = ''running'', cn_status = [], cn_health = Some n, cn_restarts = None,
      cn_cpu_pct = Some (Finite 12), cn_mem_mb = Some 300, cn_mem_limit_mb = None\<rparr>"

theorem daemon_texts_stay_texts_witness:
  "markup (row (ex_named ''<script>alert(1)</script>'')) = markup (row (ex_named ''web''))"
  using daemon_texts_stay_texts [of "[]" "ex_named ''<script>alert(1)</script>''" "ex_named ''web''"]
  by (simp add: row_shape_def ex_named_def text_or_empty_def mem_share_def)

end
