(* ===== verification/Recording.thy ===== *)
theory Recording
  imports Service Web_Props
begin

text \<open>
  From the collector to the history: a write with no failing statement succeeds, the points of a
  snapshot have different names, and so every reading of a tick can be queried afterwards.
\<close>

section \<open>Writes that succeed\<close>

lemma with_lock_t_ids: "txn_ok t \<Longrightarrow> with_lock t_ids k t = k (inner (t_ids t)) t"
  by (simp add: txn_ok_def)

lemma metric_id_succeeds:
  assumes "txn_ok t" and "\<forall>i. ok i"
  shows "\<exists>i t'. metric_id ok f name t = (Ok i, t')"
proof (cases "hget (inner (t_ids t)) name")
  case (Some i)
  then show ?thesis by (simp add: metric_id_def with_lock_t_ids [OF assms(1)] ret_def)
next
  case None
  obtain m where m: "d_metric (t_db t) = Some m" using assms(1) by (auto simp: txn_ok_def db_ok_def)
  define d where "d = (if name \<in> set (map snd m) then t_db t
      else (t_db t)\<lparr>d_metric := Some (m @ [(f (map fst m), name)])\<rparr>)"
  have d: "intern f name (t_db t) = Some ((), d)" and name: "name \<in> set (map snd (metrics d))"
    using m by (simp_all add: intern_def metrics_def d_def) force
  have "name \<in> fst ` set (map (\<lambda>(i, n). (n, i)) (metrics d))"
    using name by (force simp: image_iff)
  then obtain i where "id_of_name d name = Some i"
    unfolding id_of_name_def by (metis domIff dom_map_of_conv_image_fst not_Some_eq)
  with None d show ?thesis
    using assms by (simp add: metric_id_def with_lock_t_ids [OF assms(1)] bind_def stmt_def Let_def txn_ok_def)
qed

lemma write_points_succeeds:
  assumes "rowid_ok f" and "txn_ok t" and "\<forall>i. ok i"
  shows "\<exists>t'. write_points ok f ts pts t = (Ok (), t')"
  using assms(2)
proof (induction pts arbitrary: t)
  case Nil
  then show ?case by (simp add: ret_def)
next
  case (Cons p pts)
  obtain m v where p: "p = (m, v)" by (cases p)
  show ?case
  proof (cases "\<exists>x. v = Finite x")
    case False
    with Cons p show ?thesis by (cases v) auto
  next
    case True
    then obtain x where v: "v = Finite x" by blast
    obtain i t1 where id: "metric_id ok f m t = (Ok i, t1)" using metric_id_succeeds [OF Cons.prems assms(3)] by blast
    note t1 = metric_id_Ok [OF assms(1) Cons.prems id]
    obtain d where d: "put_sample (Key RAW (as_i64 ts) i) (raw_sample x) (t_db t1) = Some ((), d)"
      using t1 by (auto simp: put_sample_def txn_ok_def db_ok_def)
    let ?t2 = "t1\<lparr>t_step := Suc (t_step t1), t_db := d\<rparr>"
    have "txn_ok ?t2" by (rule txn_ok_put [OF _ _ _ d, of m]) (use t1 in simp_all)
    from Cons.IH [OF this] obtain t' where rest: "write_points ok f ts pts ?t2 = (Ok (), t')" by blast
    have "stmt ok ''insert'' (put_sample (Key RAW (as_i64 ts) i) (raw_sample x)) t1 = (Ok (), ?t2)"
      using d assms(3) by (simp add: stmt_Ok_iff)
    with id rest show ?thesis by (auto simp: p v bind_Ok_iff intro!: exI)
  qed
qed

lemma write_succeeds:
  assumes "rowid_ok f" and "coherent s" and "\<not> poisoned (st_write s)" and "\<forall>i. ok i"
  shows "try_write ok f ts pts s = (Ok (), write_samples ok f ts pts s)"
proof -
  have "txn_ok \<lparr>t_db = st_db s, t_ids = st_ids s, t_step = 2\<rparr>" using assms(2) coherent_txn by blast
  from write_points_succeeds [OF assms(1) this assms(4), of ts pts]
  obtain t' where "write_points ok f ts pts \<lparr>t_db = st_db s, t_ids = st_ids s, t_step = 2\<rparr> = (Ok (), t')"
    by blast
  then have "fst (try_write ok f ts pts s) = Ok ()"
    using assms(3,4) by (simp add: try_write_def transact_def bind_def stmt_def Let_def nop_def numeral_2_eq_2)
  then show ?thesis by (simp add: write_samples_def prod_eq_iff)
qed

section \<open>The names of the points\<close>

text \<open>Docker gives its containers different names, of letters, digits and \<open>_.-\<close>.\<close>

definition names_ok :: "container list \<Rightarrow> bool" where
  "names_ok cs \<longleftrightarrow> distinct (map cn_name cs) \<and> (\<forall>c\<in>set cs. CHR 0x01 \<notin> set (cn_name c))"

lemma split_at_sep:
  "c \<notin> set a \<Longrightarrow> c \<notin> set b \<Longrightarrow> a @ c # x = b @ c # y \<longleftrightarrow> a = b \<and> x = y"
proof (induction a arbitrary: b)
  case Nil
  then show ?case by (cases b) auto
next
  case (Cons d a)
  then show ?case by (cases b) auto
qed

lemma container_point_inject:
  "CHR 0x01 \<notin> set n \<Longrightarrow> CHR 0x01 \<notin> set n' \<Longrightarrow>
   container_point n k = container_point n' k' \<longleftrightarrow> n = n' \<and> k = k'"
  by (simp add: container_point_def split_at_sep)

lemma container_points_names:
  "set (map fst (container_points c)) \<subseteq> {container_point (cn_name c) ''cpu'', container_point (cn_name c) ''mem''}"
  by (auto simp: container_points_def split: option.split)

lemma container_points_distinct: "CHR 0x01 \<notin> set (cn_name c) \<Longrightarrow> distinct (map fst (container_points c))"
  by (auto simp: container_points_def container_point_inject split: option.split)

lemma all_container_points_distinct:
  "names_ok cs \<Longrightarrow> distinct (map fst (concat (map container_points cs)))"
proof (induction cs)
  case (Cons c cs)
  then have ok: "names_ok cs" "CHR 0x01 \<notin> set (cn_name c)" "cn_name c \<notin> cn_name ` set cs"
    by (auto simp: names_ok_def)
  have "fst p \<noteq> fst q" if p: "p \<in> set (container_points c)" and d: "d \<in> set cs" and q: "q \<in> set (container_points d)" for p q d
  proof -
    have "cn_name c \<noteq> cn_name d" "CHR 0x01 \<notin> set (cn_name d)"
      using ok(3) Cons.prems d by (auto simp: names_ok_def)
    moreover have "\<exists>k. fst p = container_point (cn_name c) k" "\<exists>k. fst q = container_point (cn_name d) k"
      using p q by (auto simp: container_points_def split: option.splits)
    ultimately show ?thesis using ok(2) by (auto simp: container_point_inject)
  qed
  with Cons.IH [OF ok(1)] container_points_distinct [OF ok(2)] show ?case
    by (auto simp: image_iff)
qed simp

lemma sample_points_distinct:
  assumes "names_ok (sn_containers s)"
  shows "distinct (map fst (sample_points s))"
proof -
  have "hd n = CHR ''c''" if "n \<in> fst ` set (concat (map container_points cs))" for n cs
    using that by (auto simp: container_points_def container_point_def split: option.splits)
  then have "n \<notin> fst ` set (concat (map container_points cs))" if "hd n = CHR ''h''" for n cs
    using that by fastforce
  then show ?thesis
    using all_container_points_distinct [OF assms] by (simp add: sample_points_def)
qed

end
