(* ===== verification/Spec2Isabelle.thy ===== *)
theory Spec2Isabelle
  imports Auth_Returns Race_Saves Store_Race Store_Late Timers Lives Page_Text Recording
begin

text \<open>
  A verification of \<open>vitals\<close>, the host and Docker watchdog under \<open>src/\<close>.

  \<^bold>\<open>The program.\<close> A collector reads the host and the Docker daemon on every tick, publishes a
  snapshot and writes its figures to a time-series store in SQLite; a compactor rolls the store up
  to five-minute and one-hour tiers and prunes it; an HTTP server serves the snapshot and the
  history as JSON and the dashboard, behind a bearer token, a passkey sign-in, or on the loopback
  only. Each part has its theories, in the order below, and a theory imports only what it uses.

  \<^item> \<open>Prelude\<close>, \<open>Rust_Int\<close>, \<open>Text\<close>, \<open>Float_Rounding\<close>: results with panics and programs that pass a
    state (\<open>bind\<close> is the \<open>?\<close> operator), mutexes with poisoning, hash maps as association lists
    whose order is arbitrary, \<open>i64\<close> and \<open>u64\<close> with their wrap-around, saturation and casts,
    strings as bytes with \<open>trim\<close>, the rounding of \<open>f32\<close> and \<open>f64\<close>; the reachability scheme
    \<open>invariant_of\<close>, which every machine below interprets.
  \<^item> \<open>src/src/auth.rs\<close>: \<open>Expiring_Map\<close> (\<open>insert_capped\<close> and the session map), \<open>Cookies\<close> (random
    tokens, cookies; also \<open>ct_eq\<close> of \<open>web.rs\<close>), \<open>Fs\<close> (the system calls behind \<open>persist\<close>, with
    faults, crashes and power failures), \<open>Auth_State\<close> (\<open>AuthState\<close> is \<open>auth_state\<close>, field by field; \<open>new\<close>,
    \<open>persist\<close>, \<open>session_valid\<close>, \<open>sweep\<close>), \<open>Auth_Handlers\<close> (one definition per critical section
    and per handler), \<open>Auth_Spec\<close> (what each handler does, as equations or cases),
    \<open>Auth_Trace\<close> (the machine of requests), \<open>Auth_Inv\<close> and \<open>Auth_Provenance\<close> (its two
    invariants), \<open>Auth_Example\<close> (a concrete instance), \<open>Auth_Props\<close> (the properties). Requests run on
    several threads: \<open>Interleaving\<close> holds programs made of sections that run without interruption
    and pools of them, \<open>Auth_Tasks\<close> the handlers as such programs (one section for each time a
    mutex is held, one for each system call of a save; a look-up of the session made while the store
    is locked is part of that section), \<open>Auth_Race\<close> what holds however the sections interleave,
    \<open>Race_Saves\<close> the interleavings that lose or tear a save. In these a section does not wait; the
    waiting is in \<open>Locking\<close>, threads that take, hold and give back mutexes that are not reentrant, and
    \<open>Auth_Returns\<close>, the handlers as such threads, one \<open>Acquire\<close> for each \<open>lock()\<close> and one \<open>Release\<close>
    where its guard is dropped, which take their mutexes in one order and so never block each other
    for ever.
  \<^item> \<open>src/src/store.rs\<close>: \<open>Sql_Tables\<close> (the two tables and each SQL statement on them), \<open>Store\<close>
    (transactions as programs in which every statement may fail; \<open>write\<close>, \<open>compact\<close>, \<open>series\<close>,
    \<open>open\<close>), \<open>Store_Inv\<close> (the invariant of the file and the coherence of the memo of ids),
    \<open>Store_Rollup\<close> (compaction as a function on tiers; the machine of a regular schedule),
    \<open>Store_Hours\<close> (the second stage of the roll-up on that schedule),
    \<open>Store_Props\<close> (the properties), \<open>Store_Late\<close> (what is lost: buckets that compactions have passed, and
    metrics whose insertion was rolled back), \<open>Store_Race\<close> (queries on the second connection while
    the first one writes).
  \<^item> \<open>src/src/collect\<close>: \<open>Collect\<close> (host figures, CPU percentage from two readings, one tick of the
    Docker collector with each outcome of each call, the snapshot) and \<open>Collect_Props\<close>;
    \<open>Docker_Time\<close> (the timeouts and the containers in flight, with their times) and \<open>Docker_Deadline\<close>
    (a collection against its budget, which it refines to the untimed one).
  \<^item> \<open>src/src/config.rs\<close>: \<open>Socket_Addr\<close> (the standard library's address parser and \<open>is_loopback\<close>)
    and \<open>Config\<close> (deserialisation, defaults, tokens, \<open>load\<close>).
  \<^item> \<open>src/src/web.rs\<close>: \<open>Web\<close> (\<open>AppState\<close>, routes, the gate, the health check, the queries, the
    response headers; \<open>serve\<close> is one request through the whole router, where the gate also wraps the
    refusal of a wrong method on an API path) and \<open>Web_Props\<close>.
  \<^item> \<open>src/src/main.rs\<close>: \<open>Service\<close> (start-up with its refusals, one turn of the collector, the
    compactor and the sweeper), \<open>System\<close> (the machine of the running service), \<open>Recording\<close> (from a
    tick to the history), \<open>System_Example\<close> (concrete starts), \<open>Lives\<close> (the service across ends and
    restarts), \<open>Timers\<close> (when the turns of the loops begin, and what follows for the freshness of the
    snapshot and the schedule of compactions) and this theory (the properties that span components).
  \<^item> \<open>src/src/web/dashboard.html\<close>: \<open>Page\<close> (the polling loop, freshness, the verdict, the history ranges) and
    \<open>Page_Text\<close> (the markup built from texts of the Docker daemon).

  \<^bold>\<open>How state and operations correspond.\<close> A Rust struct is a record with its fields; a
  \<open>Mutex\<close> is a value with a poison flag, a lock a program that fails or panics when it is poisoned;
  a \<open>Result\<close> is \<open>Ok\<close>, \<open>Err\<close> or \<open>Panic\<close>. What a function asks of the outside (the clock at each
  reading, random bytes, the outcome of a system call or of an SQL statement, the answers of the
  Docker daemon and when they come, the readings of \<open>sysinfo\<close>) is an argument. The packages \<open>webauthn-rs\<close>, \<open>serde_json\<close>,
  \<open>toml\<close> and \<open>humantime\<close> are records of functions; what the program relies on is stated by
  \<open>wa_ok\<close> (an update after a sign-in keeps the id of a credential), \<open>codec_ok\<close> (what serialises is
  read back), \<open>rowid_ok\<close> (SQLite's new row id is unused) and \<open>docker_ok\<close>, each instantiated by the
  examples.

  \<^bold>\<open>What the lemmas show.\<close> \<open>auth_inv\<close>: the maps keep within their caps, ids of credentials are
  distinct, the one-time code exists exactly while no credential does, and the file holds the
  credentials in memory. \<open>prov_inv\<close>: every session, ceremony and credential comes from a verified
  request in the history, and a sign-in uses keys that were loaded at the start or enrolled before
  it. Both are about requests that run one after another. \<open>race_ok\<close> and
  \<open>untouched\<close> are what remains of both between the sections of interleaved requests, as assertions
  about the state and about what each unfinished request still may do. \<open>db_ok\<close>: the tables are sorted by key, aggregates are sound, names and
  ids are unique, under any failing statement; \<open>coherent\<close>: the memo agrees with the table.
  \<open>sched_inv\<close> and \<open>hours_inv\<close>: on a regular schedule each closed bucket and each closed hour is exactly
  the aggregate of what was written; \<open>on_schedule\<close>: the timer of the compactor keeps that schedule. \<open>sys_inv\<close>: in the running service each part is in a state of its own machine. The
  requests of \<open>sys_step\<close>, and those between two starts of \<open>Lives\<close>, run one after the other, so what
  is shown there of credentials and their file is about such runs, and \<open>Race_Saves\<close> shows that it fails for
  others; the interleaving theories cover the handlers of
  \<open>auth.rs\<close>, which take a mutex more than once, and \<open>series\<close>, which reads more than once.
  \<open>passed_by\<close>: the bucket is behind the last compaction, with the row it had. \<open>orderly\<close>: each thread
  takes its mutexes in order and has a bounded number of steps left.
  \<open>query_at\<close>: where a query stands between its statements. \<open>addr_ok\<close>: the octets, groups and port of a
  parsed address are in range. \<open>paced\<close>: of the containers in flight each ends within one timeout more per
  sixteen. \<open>life_inv\<close>: the files of a stopped or running service can be started from and hold what
  was enrolled. \<open>loop_ok\<close> and \<open>chart_ok\<close>: the page has one chain of polls and draws the selected range.

  \<^bold>\<open>Termination and bounds.\<close> Every loop of the source is a structural
  recursion or has a measure (\<open>evict_while_full\<close> shrinks the map, \<open>config_path\<close> and the parsers the
  input, \<open>decimal\<close> the number, \<open>buffer_run\<close> the containers that are left). Only \<open>strip_while\<close> takes a bound on its
  rounds; it is called with the length of the text, and each round removes at least one byte. A
  request takes at most 25 steps - taking or giving back a mutex, a section, a system call - and one
  for each chunk it writes, whatever the others do in between, and no request blocks the others. The release build aborts on a
  panic, so a state with a poisoned mutex is one of a debug build; the lemmas cover both. Integers keep their width where the program can reach it: query
  bounds are any \<open>i64\<close>, counters any \<open>u64\<close>. The properties of compaction assume times between 0
  and \<open>2 ^ 62\<close> seconds, beyond which the sums of the code would wrap.

  \<^bold>\<open>Not modelled.\<close> A scheduler that never runs a thread; of the pages under \<open>src/src/web\<close> the drawing, the labels that only format
  numbers, the order of the rows, and the script of the sign-in page, which hands the
  challenges of \<open>webauthn-rs\<close> to the browser; the end-to-end tests; logging; the timer of the
  sweeper and the drift of the clock (\<open>interval_loop\<close> takes the behaviour of tokio's interval from its
  documentation, with its lateness as a parameter); the mode
  that \<open>restrict\<close> puts on the database file, and the pragmas of \<open>configure\<close> beyond their failing; the loss of
  committed samples in a power failure, which \<open>synchronous=NORMAL\<close> permits;
  arrays inside sections of the configuration where serde would read a struct from a sequence;
  the binary rounding of SQLite's \<open>REAL\<close> sums (averages are exact rationals); axum's extractors,
  whose outcome is part of a request.
\<close>

section \<open>The system and its components\<close>

text \<open>
  In every reachable state of the running service the store is a reachable state of
  the store's machine and the authentication state is a reachable state of the authentication
  machine, so that their properties hold in the service.
\<close>

theorem system_refines_components:
  assumes "sys_reachable w c f cfg code ids s"
  shows "reachable (store_init f) (store_step f) (ap_store (sy_app s))
    \<and> (\<forall>a. ap_auth (sy_app s) = Some a \<longrightarrow> (\<exists>h. auth_reachable w c code ids h a))"
  using sys.inv_reachable [OF assms] unfolding sys_inv_def auth_part_def by blast

theorem system_refines_components_witness:
  "\<exists>h. auth_reachable ex_w ex_c ex_code [] h (sweep 9 (snd ex_start))"
proof -
  have "sys_reachable ex_w ex_c next_rowid (ex_cfg (Some ''h'') [0, 0, 0, 0] 80) ex_code []
      ((ex_system ex_auth_app)\<lparr>sy_app := sweeper_turn 9 (sy_app (ex_system ex_auth_app))\<rparr>)"
    by (rule reachable_step [OF ex_sys_init(1) sys_sweep])
  from system_refines_components [OF this] show ?thesis
    by (simp add: ex_system_def sweeper_turn_def ex_auth_app_def app_of_def)
qed

text \<open>
  C1. The running service never gives metrics to an unauthenticated caller from another machine:
  whatever led to its state, a response with metrics goes to a request with the configured token,
  which has at least sixteen bytes, or with the cookie of a live session of an enrolled account, or
  the service listens on the loopback with neither configured.
\<close>

theorem no_open_metrics_off_loopback:
  assumes "sys_reachable w c f cfg code ids s" and "serve w c x rq (sy_app s) = (Some r, app)"
    and "carries_metrics (rs_body r)"
  shows "(\<exists>t. cf_web_token cfg = Some t \<and> 16 \<le> length (expose t)
        \<and> rq_authorization rq = Some (''Bearer '' @ expose t))
    \<or> (\<exists>a. ap_auth (sy_app s) = Some a \<and> live_session (clk (wd_env x) 0) (rq_jar rq) a \<and> creds a \<noteq> [])
    \<or> (ap_auth (sy_app s) = None \<and> cf_web_token cfg = None \<and> is_loopback (sa_ip (cf_web_bind cfg)))"
proof -
  have inv: "exposed_safely cfg (sy_app s)" "auth_part w c code ids (ap_auth (sy_app s))"
    using sys.inv_reachable [OF assms(1)] by (simp_all add: sys_inv_def)
  have "authorised (clk (wd_env x) 0) rq (sy_app s)" using served_metrics [OF assms(2,3)] by blast
  moreover have "creds a \<noteq> []" if a: "ap_auth (sy_app s) = Some a" "live_session (clk (wd_env x) 0) (rq_jar rq) a" for a
  proof -
    obtain h where "auth_reachable w c code ids h a" using inv(2) a(1) by (auto simp: auth_part_def)
    then have "unclaimed_ok a" using reachable_inv [of w c code ids h a] by (simp add: auth_inv_def)
    with a(2) show ?thesis by (auto simp: unclaimed_ok_def live_session_def)
  qed
  ultimately show ?thesis
    using inv(1) by (auto simp: authorised_def exposed_safely_def MIN_TOKEN_LEN_def split: option.splits)
qed

lemma ex_open_served:
  "fst (serve ex_w ex_c ex_world (ex_request ''/api/status'' []) ex_open_app) =
     Some (security_headers (response OK (SnapshotJson None)))"
  by code_simp

theorem no_open_metrics_off_loopback_witness:
  "ap_auth ex_open_app = None \<and> is_loopback (sa_ip (cf_web_bind (ex_cfg None [127, 0, 0, 1] 9110)))"
proof -
  obtain r app where "serve ex_w ex_c ex_world (ex_request ''/api/status'' []) (sy_app (ex_system ex_open_app)) = (Some r, app)"
    and "carries_metrics (rs_body r)"
    using ex_open_served by (cases "serve ex_w ex_c ex_world (ex_request ''/api/status'' []) ex_open_app")
      (auto simp: carries_metrics_def response_def ex_system_def)
  from no_open_metrics_off_loopback [OF ex_sys_init(2) this]
  show ?thesis by (simp add: ex_cfg_def ex_system_def ex_open_app_def app_of_def)
qed

section \<open>From the collector to the history\<close>

text \<open>
  C11. Every finite reading of a tick reaches the history: when the store is coherent, its locks are
  clean and no statement fails, then after the write of a snapshot whose containers have different
  names each of its points can be queried at the second of the snapshot, under its own name.
\<close>

theorem tick_is_recorded:
  assumes "rowid_ok f" and "coherent (ap_store app)"
    and "\<not> poisoned (st_write (ap_store app))" and "\<not> poisoned (st_read (ap_store app))"
    and "\<forall>i. ok i" and "names_ok (sn_containers snap)" and "(m, Finite x) \<in> set (sample_points snap)"
  shows "fst (series_of (\<lambda>_. True) m (as_i64 (sn_ts snap)) (as_i64 (sn_ts snap)) RAW 10
      (ap_store (record_points ok f snap (publish snap app)))) =
    Ok \<lparr>y_t = [as_i64 (sn_ts snap)], y_avg = [x], y_min = [x], y_max = [x]\<rparr>"
proof -
  note run = write_succeeds [OF assms(1,2,3,5), of "sn_ts snap" "sample_points snap"]
  from written_point [OF assms(1,2) run sample_points_distinct [OF assms(6)] assms(7,4)]
  show ?thesis by (simp add: record_points_def publish_def)
qed

definition ex_snapshot :: snapshot where
  "ex_snapshot = fst (collect_snapshot (from_secs 300) ex_host (Some ex_docker) [])"

theorem tick_is_recorded_witness:
  "fst (series_of (\<lambda>_. True) ''host.mem'' 300 300 RAW 10
      (ap_store (record_points all_ok next_rowid ex_snapshot (publish ex_snapshot ex_open_app)))) =
    Ok \<lparr>y_t = [300], y_avg = [75], y_min = [75], y_max = [75]\<rparr>"
proof -
  have "(''host.mem'', Finite 75) \<in> set (sample_points ex_snapshot)" by code_simp
  moreover have "names_ok (sn_containers ex_snapshot)" by code_simp
  moreover have "as_i64 (sn_ts ex_snapshot) = 300" by code_simp
  moreover have "\<forall>i. all_ok i" by (simp add: all_ok_def)
  ultimately show ?thesis
    using tick_is_recorded [OF next_rowid_ok, of ex_open_app all_ok ex_snapshot "''host.mem''" 75] ex_open_coherent
    by (simp add: ex_open_app_def app_of_def ex_open_def)
qed

section \<open>From the collector to the health check\<close>

text \<open>
  C28. A turn of the collector shows in \<open>/healthz\<close>. Docker counts as connected when it was before or
  the turn could connect; the snapshot is without error exactly when Docker was connected and listed
  its containers within the budget. Then the check answers 200 for at least half a minute and three
  ticks and 503 after that; with an error it answers 503 at once, the connection is given up, and
  the next turn connects again if it can. The flag that keeps a warning from being repeated is up
  exactly after a failed attempt to connect.
\<close>

theorem collector_turn_shows_in_health:
  "case take_snapshot tick t c of (snap, c') \<Rightarrow>
    (sn_docker_error snap = None) =
      ((cl_docker c \<or> tn_connect t = Inr ()) \<and> (\<exists>list. dk_list (tn_docker t) = Done list) \<and> dk_in_budget (tn_docker t))
    \<and> fst (healthz now1 now2 (Some snap)) =
        (if sn_docker_error snap = None \<and> unat (age_secs now1 snap) \<le> unat (stale_after tick)
         then OK else SERVICE_UNAVAILABLE)
    \<and> unat (stale_after tick) = max 30 (min (3 * unat (word_of_int (tick div 10 ^ 9) :: u64)) (2 ^ 64 - 1))
    \<and> cl_docker (reconnect t' c') = (sn_docker_error snap = None \<or> tn_connect t' = Inr ())
    \<and> cl_warned c' = (if cl_docker c then cl_warned c else tn_connect t \<noteq> Inr ())"
proof -
  obtain snap c' where turn: "take_snapshot tick t c = (snap, c')" by (metis surj_pair)
  have stale: "sn_stale_after_secs snap = stale_after tick"
    using turn by (auto simp: take_snapshot_def Let_def split: prod.splits)
  have conn: "cl_docker (reconnect u d) = (cl_docker d \<or> tn_connect u = Inr ())" for u d
    by (simp add: reconnect_def split: sum.split)
  have error: "(sn_docker_error snap = None) =
      (cl_docker (reconnect t c) \<and> (\<exists>list. dk_list (tn_docker t) = Done list) \<and> dk_in_budget (tn_docker t))"
    and kept: "cl_docker c' = (sn_docker_error snap = None)" and warned: "cl_warned c' = cl_warned (reconnect t c)"
    using turn
    by (auto simp: take_snapshot_def collect_snapshot_def docker_collect_def Let_def
        split: prod.splits sum.splits call.splits if_splits)
  have "cl_warned c' = (if cl_docker c then cl_warned c else tn_connect t \<noteq> Inr ())"
    unfolding warned by (simp add: reconnect_def split: sum.split)
  moreover have "fst (healthz now1 now2 (Some snap)) =
      (if sn_docker_error snap = None \<and> unat (age_secs now1 snap) \<le> unat (stale_after tick) then OK else SERVICE_UNAVAILABLE)"
    by (auto simp: healthz_def stale word_less_nat_alt split: option.splits)
  ultimately show ?thesis
    unfolding turn prod.case by (simp add: error conn kept unat_stale_after)
qed

text \<open>
  The configuration accepts an interval of zero, on which the collector's timer panics: the
  release build, which aborts on a panic, ends right after a successful start.
\<close>

theorem zero_interval_aborts:
  "case load (ex_parsers [(''interval'', TString ''0s'')]\<lparr>humantime_parse := \<lambda>_. Inr 0\<rparr>) (ex_load_env None) of
     Inr cfg \<Rightarrow> interval (cf_interval cfg) = Panic
   | Inl _ \<Rightarrow> False"
  by code_simp

end
